(* ===== verification/Yoix_Prelude.thy ===== *)
theory Yoix_Prelude
  imports Main "HOL-Library.Word" "HOL-Library.Monad_Syntax"
begin

unbundle bit_operations_syntax

text \<open>
  Shared vocabulary of the development: the C integer types as words, the treatment of
  undefined behaviour, C arrays with their bounds, and the word lemmas that the components share.

  Every operation of the kernel that can leave the defined part of the C language returns an
  \<open>option\<close>: \<open>None\<close> is undefined behaviour (an access outside an array, a dereference of
  \<open>NULL\<close>, a shift by the width of its operand or more, a division by zero), and also a loop
  that does not end.  Error codes of the source (\<open>NULL\<close>, \<open>BUDDY_INVALID_ADDRESS\<close>, \<open>false\<close>)
  are ordinary values below \<open>Some\<close>.  A theorem of the form \<open>f x = Some y\<close> hence says that the
  code returns and that it stays inside the language.
\<close>

type_synonym u8 = "8 word"
type_synonym u16 = "16 word"
type_synonym u32 = "32 word"
type_synonym u64 = "64 word"

abbreviation UINT32_MAX :: u32 where "UINT32_MAX \<equiv> 0xFFFFFFFF"
abbreviation UINT64_MAX :: u64 where "UINT64_MAX \<equiv> 0xFFFFFFFFFFFFFFFF"
abbreviation NULL :: u64 where "NULL \<equiv> 0"

named_theorems c_eval \<open>unfolding of array accesses and shifts that are in bounds\<close>
named_theorems word_nat \<open>reading words as natural numbers\<close>

section \<open>Arrays and shifts with their bounds\<close>

text \<open>A C array of \<open>n\<close> elements is a function on its indices; an access outside it is undefined.\<close>

definition arr_get :: "nat \<Rightarrow> (nat \<Rightarrow> 'a) \<Rightarrow> nat \<Rightarrow> 'a option" where
  "arr_get n a i = (if i < n then Some (a i) else None)"

definition arr_set :: "nat \<Rightarrow> (nat \<Rightarrow> 'a) \<Rightarrow> nat \<Rightarrow> 'a \<Rightarrow> (nat \<Rightarrow> 'a) option" where
  "arr_set n a i v = (if i < n then Some (a(i := v)) else None)"

text \<open>\<open>x << n\<close> on a 32-bit operand: undefined from 32 on.\<close>

definition c_shl32 :: "u32 \<Rightarrow> nat \<Rightarrow> u32 option" where
  "c_shl32 x n = (if n < 32 then Some (push_bit n x) else None)"

lemma arr_get_in [c_eval]: "i < n \<Longrightarrow> arr_get n a i = Some (a i)"
  by (simp add: arr_get_def)

lemma arr_set_in [c_eval]: "i < n \<Longrightarrow> arr_set n a i v = Some (a(i := v))"
  by (simp add: arr_set_def)

lemma arr_get_Some: "arr_get n a i = Some x \<longleftrightarrow> i < n \<and> x = a i"
  by (auto simp: arr_get_def)

lemma c_shl32_in [c_eval]: "n < 32 \<Longrightarrow> c_shl32 x n = Some (push_bit n x)"
  by (simp add: c_shl32_def)

lemma c_shl32_Some: "c_shl32 x n = Some y \<longleftrightarrow> n < 32 \<and> y = push_bit n x"
  by (auto simp: c_shl32_def)

lemma bind_Some_iff: "Option.bind m f = Some y \<longleftrightarrow> (\<exists>x. m = Some x \<and> f x = Some y)"
  by (cases m) auto

text \<open>The effect of a loop that stores \<open>v\<close> at the indices from \<open>lo\<close> up to \<open>hi\<close>: its exit and its step.\<close>

definition fill :: "nat \<Rightarrow> nat \<Rightarrow> 'a \<Rightarrow> (nat \<Rightarrow> 'a) \<Rightarrow> nat \<Rightarrow> 'a" where
  "fill lo hi v g = (\<lambda>j. if lo \<le> j \<and> j < hi then v else g j)"

lemma fill_empty: "\<not> lo < hi \<Longrightarrow> fill lo hi v g = g"
  by (auto simp: fill_def fun_eq_iff)

lemma fill_step:
  "lo < hi \<Longrightarrow> fill (Suc lo) hi v (g(lo := v)) = fill lo hi v g"
  "lo < hi \<Longrightarrow> fill (Suc lo) hi v (\<lambda>j. if j = lo then v else g j) = fill lo hi v g"
  by (auto simp: fill_def fun_eq_iff)

section \<open>Words as natural numbers\<close>

lemma unat_inj_iff [simp]: "unat (a :: 'a::len word) = unat b \<longleftrightarrow> a = b"
  by (simp add: word_unat_eq_iff)

lemma unat_2_power [word_nat]: "k < LENGTH('a) \<Longrightarrow> unat (2 ^ k :: 'a::len word) = 2 ^ k"
proof -
  assume "k < LENGTH('a)"
  then have "unat (of_nat (2 ^ k) :: 'a word) = 2 ^ k"
    by (simp only: unat_of_nat) simp
  then show ?thesis by simp
qed

lemma unat_2_power_32 [simp]: "k < 32 \<Longrightarrow> unat (2 ^ k :: u32) = 2 ^ k"
  by (simp add: unat_2_power)

lemma unat_add_less: "unat a + unat b < 2 ^ LENGTH('a) \<Longrightarrow> unat (a + b :: 'a::len word) = unat a + unat b"
  by (simp add: unat_plus_if')

lemma unat_less_2p: "unat (w :: 'a::len word) < 2 ^ LENGTH('a)"
  by (rule unsigned_less)

lemma unat_Suc_less: "i < (n :: 'a::len word) \<Longrightarrow> unat (i + 1) = Suc (unat i)"
proof -
  assume "i < n"
  then have "unat i < unat n" by (simp add: word_less_nat_alt)
  then have "unat i + 1 < 2 ^ LENGTH('a)" using unat_less_2p [of n] by linarith
  then show ?thesis by (simp add: unat_word_ariths)
qed

lemma word_Suc_le:
  assumes "(x :: 'a::len word) < w"
  shows "x + 1 \<le> y \<longleftrightarrow> x < y"
  using unat_Suc_less [OF assms] by (simp add: word_le_nat_alt word_less_nat_alt Suc_le_eq)

lemma unat_ucast_up:
  "LENGTH('a) \<le> LENGTH('b) \<Longrightarrow> unat (ucast (x :: 'a::len word) :: 'b::len word) = unat x"
proof -
  assume "LENGTH('a) \<le> LENGTH('b)"
  then have "(2::nat) ^ LENGTH('a) \<le> 2 ^ LENGTH('b)" by simp
  then have "unat x < 2 ^ LENGTH('b)" using unat_less_2p [of x] by linarith
  then show ?thesis by (simp add: unsigned_ucast_eq take_bit_nat_eq_self)
qed

lemma unat_ucast_up_simps [simp]:
  "unat (ucast (a :: u8) :: u32) = unat a" "unat (ucast (a :: u8) :: u64) = unat a"
  "unat (ucast (b :: u16) :: u32) = unat b" "unat (ucast (b :: u16) :: u64) = unat b"
  "unat (ucast (c :: u32) :: u64) = unat c"
  by (simp_all add: unat_ucast_up)

end
