(* ===== verification/Buddy_Model.thy ===== *)
theory Buddy_Model
  imports Yoix_Prelude
begin

text \<open>
  The physical page allocator (\<^verbatim>\<open>kernel/src/memory/buddy.c\<close>, \<^verbatim>\<open>buddy.h\<close>), statement by
  statement.  The four static arrays of the C file are the fields of \<open>buddy_state\<close>; every
  access goes through \<open>get_\<close>/\<open>set_\<close> functions that are undefined outside the array.
\<close>

section \<open>Constants and state\<close>

definition BUDDY_PAGE_SIZE :: u64 where "BUDDY_PAGE_SIZE = 0x1000"
definition BUDDY_MAX_PHYS :: u64 where "BUDDY_MAX_PHYS = 1 * 1024 * 1024 * 1024"
definition BUDDY_MAX_PAGES :: u64 where "BUDDY_MAX_PAGES = BUDDY_MAX_PHYS div BUDDY_PAGE_SIZE"
definition BUDDY_MAX_ORDER :: u8 where "BUDDY_MAX_ORDER = 18"
definition BUDDY_INVALID_ADDRESS :: u64 where "BUDDY_INVALID_ADDRESS = - 1"
definition BUDDY_PAGE_STATE_FREE_BODY :: u8 where "BUDDY_PAGE_STATE_FREE_BODY = 0xFD"
definition BUDDY_PAGE_STATE_ALLOCATED :: u8 where "BUDDY_PAGE_STATE_ALLOCATED = 0xFE"
definition BUDDY_PAGE_STATE_RESERVED :: u8 where "BUDDY_PAGE_STATE_RESERVED = 0xFF"
definition UNSPLITTABLE_SIZE :: u32 where "UNSPLITTABLE_SIZE = 4096"

lemmas buddy_consts = BUDDY_PAGE_SIZE_def BUDDY_MAX_PHYS_def BUDDY_MAX_PAGES_def
  BUDDY_MAX_ORDER_def BUDDY_INVALID_ADDRESS_def BUDDY_PAGE_STATE_FREE_BODY_def
  BUDDY_PAGE_STATE_ALLOCATED_def BUDDY_PAGE_STATE_RESERVED_def UNSPLITTABLE_SIZE_def

text \<open>The sizes of the arrays, as natural numbers.\<close>

abbreviation NPAGES :: nat where "NPAGES \<equiv> 262144"
abbreviation NORDERS :: nat where "NORDERS \<equiv> 19"

lemma NPAGES_is_max_pages: "unat BUDDY_MAX_PAGES = NPAGES"
  by (simp add: buddy_consts)

record buddy_state =
  buddy_page_state :: "nat \<Rightarrow> u8"
  buddy_free_list :: "nat \<Rightarrow> u32"
  buddy_free_next :: "nat \<Rightarrow> u32"
  buddy_free_prev :: "nat \<Rightarrow> u32"

definition get_state :: "u32 \<Rightarrow> buddy_state \<Rightarrow> u8 option" where
  "get_state i s = arr_get NPAGES (buddy_page_state s) (unat i)"

definition get_next :: "u32 \<Rightarrow> buddy_state \<Rightarrow> u32 option" where
  "get_next i s = arr_get NPAGES (buddy_free_next s) (unat i)"

definition get_prev :: "u32 \<Rightarrow> buddy_state \<Rightarrow> u32 option" where
  "get_prev i s = arr_get NPAGES (buddy_free_prev s) (unat i)"

definition get_list :: "u8 \<Rightarrow> buddy_state \<Rightarrow> u32 option" where
  "get_list k s = arr_get NORDERS (buddy_free_list s) (unat k)"

definition set_state :: "u32 \<Rightarrow> u8 \<Rightarrow> buddy_state \<Rightarrow> buddy_state option" where
  "set_state i v s =
     do { a \<leftarrow> arr_set NPAGES (buddy_page_state s) (unat i) v; Some (s\<lparr>buddy_page_state := a\<rparr>) }"

definition set_next :: "u32 \<Rightarrow> u32 \<Rightarrow> buddy_state \<Rightarrow> buddy_state option" where
  "set_next i v s =
     do { a \<leftarrow> arr_set NPAGES (buddy_free_next s) (unat i) v; Some (s\<lparr>buddy_free_next := a\<rparr>) }"

definition set_prev :: "u32 \<Rightarrow> u32 \<Rightarrow> buddy_state \<Rightarrow> buddy_state option" where
  "set_prev i v s =
     do { a \<leftarrow> arr_set NPAGES (buddy_free_prev s) (unat i) v; Some (s\<lparr>buddy_free_prev := a\<rparr>) }"

definition set_list :: "u8 \<Rightarrow> u32 \<Rightarrow> buddy_state \<Rightarrow> buddy_state option" where
  "set_list k v s =
     do { a \<leftarrow> arr_set NORDERS (buddy_free_list s) (unat k) v; Some (s\<lparr>buddy_free_list := a\<rparr>) }"

lemmas buddy_access = get_state_def get_next_def get_prev_def get_list_def
  set_state_def set_next_def set_prev_def set_list_def

section \<open>Rounding and orders\<close>

definition buddy_align_up :: "u64 \<Rightarrow> u64 \<Rightarrow> u64" where
  "buddy_align_up value alignment = (value + alignment - 1) AND NOT (alignment - 1)"

definition buddy_align_down :: "u64 \<Rightarrow> u64 \<Rightarrow> u64" where
  "buddy_align_down value alignment = value AND NOT (alignment - 1)"

function order_loop :: "u64 \<Rightarrow> u64 \<Rightarrow> u8 \<Rightarrow> u8" where
  "order_loop pages sz order =
     (if sz < pages \<and> order < BUDDY_MAX_ORDER
      then order_loop pages (push_bit 1 sz) (order + 1) else order)"
  by pat_completeness auto
termination
  by (relation "measure (\<lambda>(pages, sz, order). 18 - unat order)")
     (auto simp: BUDDY_MAX_ORDER_def word_less_nat_alt unat_Suc_less unat_plus_if')

declare order_loop.simps [simp del]

definition buddy_order_from_pages :: "u64 \<Rightarrow> u8" where
  "buddy_order_from_pages pages = order_loop pages 1 0"

section \<open>Resetting the tables\<close>

function reset_pages_loop :: "u32 \<Rightarrow> buddy_state \<Rightarrow> buddy_state option" where
  "reset_pages_loop i s =
     (if ucast i < BUDDY_MAX_PAGES
      then do { s \<leftarrow> set_state i BUDDY_PAGE_STATE_RESERVED s;
                s \<leftarrow> set_next i UINT32_MAX s;
                s \<leftarrow> set_prev i UINT32_MAX s;
                reset_pages_loop (i + 1) s }
      else Some s)"
  by pat_completeness auto
termination
  by (relation "measure (\<lambda>(i, s). NPAGES - unat i)")
     (auto simp: buddy_consts word_less_nat_alt unat_plus_if')

declare reset_pages_loop.simps [simp del]

function reset_lists_loop :: "u32 \<Rightarrow> buddy_state \<Rightarrow> buddy_state option" where
  "reset_lists_loop order s =
     (if order \<le> ucast BUDDY_MAX_ORDER
      then do { s \<leftarrow> set_list (ucast order) UINT32_MAX s; reset_lists_loop (order + 1) s }
      else Some s)"
  by pat_completeness auto
termination
  by (relation "measure (\<lambda>(i, s). 19 - unat i)")
     (auto simp: BUDDY_MAX_ORDER_def word_le_nat_alt unat_plus_if')

declare reset_lists_loop.simps [simp del]

definition buddy_reset :: "buddy_state \<Rightarrow> buddy_state option" where
  "buddy_reset s = do { s \<leftarrow> reset_pages_loop 0 s; reset_lists_loop 0 s }"

section \<open>Marking blocks\<close>

function mark_loop :: "u8 \<Rightarrow> u32 \<Rightarrow> u32 \<Rightarrow> buddy_state \<Rightarrow> buddy_state option" where
  "mark_loop v index end_index s =
     (if index < end_index
      then do { s \<leftarrow> set_state index v s; mark_loop v (index + 1) end_index s }
      else Some s)"
  by pat_completeness auto
termination
  by (relation "measure (\<lambda>(v, i, e, s). unat e - unat i)")
     (auto simp: unat_Suc_less word_less_nat_alt)

declare mark_loop.simps [simp del]

definition buddy_mark_block_free :: "u32 \<Rightarrow> u8 \<Rightarrow> buddy_state \<Rightarrow> buddy_state option" where
  "buddy_mark_block_free frame order s =
     do { s \<leftarrow> set_state frame order s;
          block_size \<leftarrow> c_shl32 1 (unat order);
          mark_loop BUDDY_PAGE_STATE_FREE_BODY (frame + 1) (frame + block_size) s }"

definition buddy_mark_block_allocated :: "u32 \<Rightarrow> u8 \<Rightarrow> buddy_state \<Rightarrow> buddy_state option" where
  "buddy_mark_block_allocated frame order s =
     do { block_size \<leftarrow> c_shl32 1 (unat order);
          mark_loop BUDDY_PAGE_STATE_ALLOCATED frame (frame + block_size) s }"

section \<open>The free lists\<close>

definition buddy_add_free_block :: "u32 \<Rightarrow> u8 \<Rightarrow> buddy_state \<Rightarrow> buddy_state option" where
  "buddy_add_free_block frame order s =
     do { s \<leftarrow> buddy_mark_block_free frame order s;
          head \<leftarrow> get_list order s;
          s \<leftarrow> (if head \<noteq> UINT32_MAX then set_prev head frame s else Some s);
          s \<leftarrow> set_prev frame UINT32_MAX s;
          head \<leftarrow> get_list order s;
          s \<leftarrow> set_next frame head s;
          set_list order frame s }"

definition buddy_remove_free_block :: "u32 \<Rightarrow> u8 \<Rightarrow> buddy_state \<Rightarrow> (bool \<times> buddy_state) option" where
  "buddy_remove_free_block frame order s =
     do { previous \<leftarrow> get_prev frame s;
          nxt \<leftarrow> get_next frame s;
          (ok, s) \<leftarrow>
            (if previous = UINT32_MAX
             then do { head \<leftarrow> get_list order s;
                       if head \<noteq> frame then Some (False, s)
                       else do { s \<leftarrow> set_list order nxt s; Some (True, s) } }
             else do { n \<leftarrow> get_next previous s;
                       if n \<noteq> frame then Some (False, s)
                       else do { s \<leftarrow> set_next previous nxt s; Some (True, s) } });
          if \<not> ok then Some (False, s)
          else do { s \<leftarrow> (if nxt \<noteq> UINT32_MAX then set_prev nxt previous s else Some s);
                    s \<leftarrow> set_next frame UINT32_MAX s;
                    s \<leftarrow> set_prev frame UINT32_MAX s;
                    Some (True, s) } }"

definition buddy_pop_free_block :: "u8 \<Rightarrow> buddy_state \<Rightarrow> (u32 \<times> buddy_state) option" where
  "buddy_pop_free_block order s =
     do { frame \<leftarrow> get_list order s;
          if frame = UINT32_MAX then Some (UINT32_MAX, s)
          else do { nxt \<leftarrow> get_next frame s;
                    s \<leftarrow> set_list order nxt s;
                    head \<leftarrow> get_list order s;
                    s \<leftarrow> (if head \<noteq> UINT32_MAX then set_prev head UINT32_MAX s else Some s);
                    s \<leftarrow> set_next frame UINT32_MAX s;
                    s \<leftarrow> set_prev frame UINT32_MAX s;
                    Some (frame, s) } }"

section \<open>Adding ranges\<close>

function range_order :: "u32 \<Rightarrow> u32 \<Rightarrow> u8 \<Rightarrow> u8 option" where
  "range_order frame pages order =
     do { sz \<leftarrow> c_shl32 1 (unat order);
          if sz > pages \<or> frame AND (sz - 1) \<noteq> 0
          then range_order frame pages (order - 1)
          else Some order }"
  by pat_completeness auto
termination
proof (relation "measure (\<lambda>(f, p, k :: u8). if unat k < 32 then Suc (unat k) else 0)", goal_cases)
  case (2 frame pages order sz)
  then have "unat order < 32" by (simp add: c_shl32_Some)
  moreover have "unat (order - 1) = (if order = 0 then 255 else unat order - 1)"
    by (cases "order = 0") (auto simp: unat_sub_if' unat_gt_0 Suc_le_eq unsigned_minus_1_eq_mask mask_eq_exp_minus_1)
  ultimately show ?case by (auto simp flip: unat_gt_0)
qed simp

declare range_order.simps [simp del]

lemma range_order_fits:
  "range_order frame pages order = Some k \<Longrightarrow>
     unat k < 32 \<and> 2 ^ unat k \<le> unat pages \<and> frame AND (push_bit (unat k) 1 - 1) = 0"
proof (induction frame pages order rule: range_order.induct)
  case (1 frame pages order)
  note IH = "1.IH" [unfolded c_shl32_Some, OF conjI [OF _ refl]]
  from "1.prems" show ?case
    by (subst (asm) range_order.simps)
       (auto simp: bind_Some_iff c_shl32_Some word_le_nat_alt not_less dest!: IH split: if_splits)
qed

function buddy_add_range :: "u32 \<Rightarrow> u32 \<Rightarrow> buddy_state \<Rightarrow> buddy_state option" where
  "buddy_add_range frame pages s =
     (if pages > 0
      then do { order \<leftarrow> range_order frame pages BUDDY_MAX_ORDER;
                s \<leftarrow> buddy_add_free_block frame order s;
                block_size \<leftarrow> c_shl32 1 (unat order);
                buddy_add_range (frame + block_size) (pages - block_size) s }
      else Some s)"
  by pat_completeness auto
termination
proof (relation "measure (\<lambda>(f, p, s). unat p)", goal_cases)
  case (2 frame pages s order s' block_size)
  then have "unat block_size = 2 ^ unat order" "2 ^ unat order \<le> unat pages"
    by (auto simp: c_shl32_Some dest: range_order_fits)
  then show ?case using "2"(1) by (simp add: unat_sub word_le_nat_alt word_less_nat_alt)
qed simp

declare buddy_add_range.simps [simp del]

section \<open>Allocation\<close>

function split_loop :: "u32 \<Rightarrow> u8 \<Rightarrow> u8 \<Rightarrow> buddy_state \<Rightarrow> buddy_state option" where
  "split_loop frame order current_order s =
     (if current_order > order
      then do { sz \<leftarrow> c_shl32 1 (unat (current_order - 1));
                s \<leftarrow> buddy_add_free_block (frame + sz) (current_order - 1) s;
                split_loop frame order (current_order - 1) s }
      else Some s)"
  by pat_completeness auto
termination
  by (relation "measure (\<lambda>(f, k, c, s). unat c)")
     (auto simp: word_less_nat_alt unat_sub_if')

declare split_loop.simps [simp del]

function allocate_loop :: "u8 \<Rightarrow> u8 \<Rightarrow> buddy_state \<Rightarrow> (u32 \<times> buddy_state) option" where
  "allocate_loop order current_order s =
     (if current_order \<le> BUDDY_MAX_ORDER
      then do { head \<leftarrow> get_list current_order s;
                if head = UINT32_MAX then allocate_loop order (current_order + 1) s
                else do { (frame, s) \<leftarrow> buddy_pop_free_block current_order s;
                          s \<leftarrow> split_loop frame order current_order s;
                          s \<leftarrow> buddy_mark_block_allocated frame order s;
                          Some (frame, s) } }
      else Some (UINT32_MAX, s))"
  by pat_completeness auto
termination
  by (relation "measure (\<lambda>(k, c, s). 19 - unat c)")
     (auto simp: BUDDY_MAX_ORDER_def word_le_nat_alt unat_plus_if')

declare allocate_loop.simps [simp del]

definition buddy_allocate_block :: "u8 \<Rightarrow> buddy_state \<Rightarrow> (u32 \<times> buddy_state) option" where
  "buddy_allocate_block order s =
     do { sz \<leftarrow> c_shl32 1 (unat order);
          if sz * ucast BUDDY_PAGE_SIZE < UNSPLITTABLE_SIZE \<or> order > BUDDY_MAX_ORDER
          then Some (ucast BUDDY_INVALID_ADDRESS, s)
          else allocate_loop order order s }"

definition buddy_alloc_pages :: "u64 \<Rightarrow> buddy_state \<Rightarrow> (u64 \<times> buddy_state) option" where
  "buddy_alloc_pages pages s =
     (if pages = 0 \<or> pages > push_bit (unat BUDDY_MAX_ORDER) 1
      then Some (BUDDY_INVALID_ADDRESS, s)
      else do { (frame, s) \<leftarrow> buddy_allocate_block (buddy_order_from_pages pages) s;
                if frame = UINT32_MAX then Some (BUDDY_INVALID_ADDRESS, s)
                else Some (ucast frame * BUDDY_PAGE_SIZE, s) })"

definition buddy_alloc_page :: "buddy_state \<Rightarrow> (u64 \<times> buddy_state) option" where
  "buddy_alloc_page = buddy_alloc_pages 1"

section \<open>Freeing\<close>

function coalesce_loop :: "u32 \<Rightarrow> u8 \<Rightarrow> buddy_state \<Rightarrow> (u32 \<times> u8 \<times> buddy_state) option" where
  "coalesce_loop frame order s =
     (if order < BUDDY_MAX_ORDER
      then do { sz \<leftarrow> c_shl32 1 (unat order);
                let buddy_frame = frame XOR sz;
                if ucast buddy_frame \<ge> BUDDY_MAX_PAGES then Some (frame, order, s)
                else do { st \<leftarrow> get_state buddy_frame s;
                  if st \<noteq> order then Some (frame, order, s)
                  else do { (removed, s) \<leftarrow> buddy_remove_free_block buddy_frame order s;
                    if \<not> removed then Some (frame, order, s)
                    else coalesce_loop (if frame < buddy_frame then frame else buddy_frame)
                           (order + 1) s } } }
      else Some (frame, order, s))"
  by pat_completeness auto
termination
  by (relation "measure (\<lambda>(f, k, s). 18 - unat k)")
     (auto simp: BUDDY_MAX_ORDER_def word_less_nat_alt unat_plus_if')

declare coalesce_loop.simps [simp del]

definition buddy_free_pages :: "u64 \<Rightarrow> u64 \<Rightarrow> buddy_state \<Rightarrow> buddy_state option" where
  "buddy_free_pages phys_addr pages s =
     (if phys_addr = 0 \<or> phys_addr = BUDDY_INVALID_ADDRESS \<or> pages = 0 then Some s
      else if phys_addr mod BUDDY_PAGE_SIZE \<noteq> 0 then Some s
      else let frame = ucast (phys_addr div BUDDY_PAGE_SIZE) :: u32 in
      if ucast frame \<ge> BUDDY_MAX_PAGES then Some s
      else do { st \<leftarrow> get_state frame s;
        if st \<noteq> BUDDY_PAGE_STATE_ALLOCATED then Some s
        else do { (frame, order, s) \<leftarrow> coalesce_loop frame (buddy_order_from_pages pages) s;
                  buddy_add_free_block frame order s } })"

definition buddy_free_page :: "u64 \<Rightarrow> buddy_state \<Rightarrow> buddy_state option" where
  "buddy_free_page phys_addr = buddy_free_pages phys_addr 1"

section \<open>Initialisation from the boot loader's memory map\<close>

definition LIMINE_MEMMAP_USABLE :: u64 where "LIMINE_MEMMAP_USABLE = 0"

record limine_memmap_entry =
  mm_base :: u64
  mm_length :: u64
  mm_type :: u64

text \<open>
  \<open>entries\<close> is an array of pointers: \<open>None\<close> stands for the pointer \<open>NULL\<close>, both for the
  array and for its elements.
\<close>

record limine_memmap_response =
  entry_count :: u64
  entries :: "limine_memmap_entry option list option"

text \<open>One pass of the loop of \<open>buddy_init\<close>; \<open>Some s\<close> without change is \<open>continue\<close>.\<close>

definition init_entry :: "limine_memmap_entry option \<Rightarrow> buddy_state \<Rightarrow> buddy_state option" where
  "init_entry entry s =
     (case entry of None \<Rightarrow> Some s
      | Some e \<Rightarrow>
         if mm_type e \<noteq> LIMINE_MEMMAP_USABLE then Some s
         else let start = buddy_align_up (mm_base e) BUDDY_PAGE_SIZE;
                  end_addr = buddy_align_down (mm_base e + mm_length e) BUDDY_PAGE_SIZE in
         if end_addr \<le> start then Some s
         else let first_frame = start div BUDDY_PAGE_SIZE;
                  last_frame = end_addr div BUDDY_PAGE_SIZE in
         if first_frame \<ge> BUDDY_MAX_PAGES then Some s
         else let last_frame = (if last_frame > BUDDY_MAX_PAGES then BUDDY_MAX_PAGES else last_frame) in
           buddy_add_range (ucast first_frame) (ucast (last_frame - first_frame)) s)"

function init_loop :: "u64 \<Rightarrow> u64 \<Rightarrow> limine_memmap_entry option list \<Rightarrow> buddy_state \<Rightarrow> buddy_state option" where
  "init_loop i count es s =
     (if i < count
      then do { entry \<leftarrow> (if unat i < length es then Some (es ! unat i) else None);
                s \<leftarrow> init_entry entry s;
                init_loop (i + 1) count es s }
      else Some s)"
  by pat_completeness auto
termination
  by (relation "measure (\<lambda>(i, n, es, s). unat n - unat i)")
     (auto simp: unat_Suc_less word_less_nat_alt split: if_splits)

declare init_loop.simps [simp del]

definition buddy_init :: "limine_memmap_response option \<Rightarrow> buddy_state \<Rightarrow> buddy_state option" where
  "buddy_init response s =
     do { s \<leftarrow> buddy_reset s;
          case response of None \<Rightarrow> Some s
          | Some r \<Rightarrow>
             (if entry_count r = 0 then Some s
              else case entries r of None \<Rightarrow> Some s
                   | Some es \<Rightarrow> init_loop 0 (entry_count r) es s) }"

end
