(* ===== verification/Free_List.thy ===== *)
theory Free_List
  imports Yoix_Prelude
begin

text \<open>
  The intrusive doubly linked lists of the page allocator: \<open>dll nx pv h p xs\<close> says that from head
  \<open>h\<close> the arrays \<open>nx\<close> (\<open>buddy_free_next\<close>) and \<open>pv\<close> (\<open>buddy_free_prev\<close>) chain exactly the frames
  \<open>xs\<close>, that the first one points back to \<open>p\<close>, and that the chain ends with \<open>UINT32_MAX\<close>.  The
  lemmas say what inserting at the head and unlinking anywhere do to the chain.
\<close>

section \<open>Doubly linked lists\<close>

fun dll :: "(nat \<Rightarrow> u32) \<Rightarrow> (nat \<Rightarrow> u32) \<Rightarrow> u32 \<Rightarrow> u32 \<Rightarrow> u32 list \<Rightarrow> bool" where
  "dll nx pv h p [] = (h = UINT32_MAX)"
| "dll nx pv h p (x # xs) =
     (h = x \<and> x \<noteq> UINT32_MAX \<and> pv (unat x) = p \<and> dll nx pv (nx (unat x)) x xs)"

lemma dll_cong:
  "(\<And>x. x \<in> set xs \<Longrightarrow> nx (unat x) = nx' (unat x) \<and> pv (unat x) = pv' (unat x)) \<Longrightarrow>
     dll nx pv h p xs = dll nx' pv' h p xs"
  by (induction xs arbitrary: h p) auto

lemma dll_head: "dll nx pv h p xs \<Longrightarrow> h = (case xs of [] \<Rightarrow> UINT32_MAX | x # _ \<Rightarrow> x)"
  by (cases xs) auto

lemma dll_not_MAX: "dll nx pv h p xs \<Longrightarrow> UINT32_MAX \<notin> set xs"
  by (induction xs arbitrary: h p) auto

lemma dll_Cons:
  assumes "dll nx pv h UINT32_MAX xs" "distinct xs" "f \<notin> set xs" "f \<noteq> UINT32_MAX"
  shows "dll (nx(unat f := h)) ((if h \<noteq> UINT32_MAX then pv(unat h := f) else pv)(unat f := UINT32_MAX))
           f UINT32_MAX (f # xs)"
proof (cases xs)
  case Nil
  with assms show ?thesis by simp
next
  case (Cons x ys)
  let ?nx = "nx(unat f := h)" and ?pv = "(pv(unat h := f))(unat f := UINT32_MAX)"
  have "dll ?nx ?pv (nx (unat x)) x ys = dll nx pv (nx (unat x)) x ys"
    using assms Cons by (intro dll_cong) auto
  with assms Cons show ?thesis by auto
qed

lemma dll_middle:
  "dll nx pv h p (as @ f # bs) \<Longrightarrow>
     (as = [] \<longrightarrow> h = f \<and> pv (unat f) = p) \<and>
     (as \<noteq> [] \<longrightarrow> nx (unat (last as)) = f \<and> pv (unat f) = last as) \<and>
     dll nx pv (nx (unat f)) f bs"
proof (induction as arbitrary: h p)
  case Nil
  then show ?case by simp
next
  case (Cons a as)
  then have "dll nx pv (nx (unat a)) a (as @ f # bs)" by simp
  from Cons.IH [OF this] show ?case by (cases "as = []") simp_all
qed

lemma dll_unlink:
  assumes "dll nx pv h p (as @ f # bs)" "distinct (as @ f # bs)"
  shows "dll (if as = [] then nx else nx(unat (last as) := nx (unat f)))
             (if nx (unat f) \<noteq> UINT32_MAX then pv(unat (nx (unat f)) := (if as = [] then p else last as)) else pv)
             (if as = [] then nx (unat f) else h) p (as @ bs)"
  using assms
proof (induction as arbitrary: h p)
  case Nil
  show ?case
  proof (cases bs)
    case Nil
    with Nil.prems show ?thesis by simp
  next
    case (Cons b cs)
    have "dll nx (pv(unat b := p)) (nx (unat b)) b cs = dll nx pv (nx (unat b)) b cs"
      using Nil.prems Cons by (intro dll_cong) auto
    with Nil.prems Cons show ?thesis by (auto simp: fun_upd_def)
  qed
next
  case (Cons a as)
  let ?n = "nx (unat f)"
  have mid: "dll nx pv ?n f bs" using dll_middle [OF Cons.prems(1)] by simp
  then have n: "?n \<noteq> UINT32_MAX \<Longrightarrow> ?n \<in> set bs" by (cases bs) auto
  show ?case
  proof (cases "as = []")
    case True
    have "dll (nx(unat a := ?n)) (if ?n \<noteq> UINT32_MAX then pv(unat ?n := a) else pv) ?n a bs"
    proof (cases bs)
      case Nil
      with mid show ?thesis by simp
    next
      case (Cons b cs)
      with mid have "?n = b" "b \<noteq> UINT32_MAX" by auto
      moreover have "dll (nx(unat a := b)) (pv(unat b := a)) (nx (unat b)) b cs = dll nx pv (nx (unat b)) b cs"
        using \<open>distinct ((a # as) @ f # bs)\<close> \<open>bs = b # cs\<close> by (intro dll_cong) auto
      ultimately show ?thesis using mid Cons \<open>distinct ((a # as) @ f # bs)\<close> by auto
    qed
    with Cons.prems True n show ?thesis by (auto simp: fun_upd_def split: if_splits)
  next
    case False
    from Cons.prems have ih: "dll (nx(unat (last as) := ?n))
             (if ?n \<noteq> UINT32_MAX then pv(unat ?n := last as) else pv) (nx (unat a)) a (as @ bs)"
      using Cons.IH [of "nx (unat a)" a] False by (auto simp: fun_upd_def split: if_splits)
    have "a \<noteq> last as" "?n \<noteq> UINT32_MAX \<Longrightarrow> a \<noteq> ?n" using Cons.prems False n by auto
    with ih Cons.prems False show ?thesis by (auto simp: fun_upd_def)
  qed
qed
end
