(* ===== verification/Buddy_Invariant.thy ===== *)
theory Buddy_Invariant
  imports Buddy_Model Free_List
begin

text \<open>
  The representation invariant of the page allocator and the proof that the primitive
  operations keep it.  \<open>buddy_inv H L s\<close> relates a state \<open>s\<close> to the free lists \<open>L\<close> (the frames
  of each order, in list order):
  \<^item> the arrays \<open>buddy_free_list/next/prev\<close> chain exactly \<open>L k\<close> for every order (\<open>links_ok\<close>);
  \<^item> all listed blocks are aligned to their size, inside the tables and pairwise disjoint
    (\<open>blocks_ok\<close>);
  \<^item> the page table shows the order at the head of every free block, \<open>FREE_BODY\<close> in its body
    and \<open>ALLOCATED\<close> or \<open>RESERVED\<close> everywhere else (\<open>marks_ok\<close>);
  \<^item> except in a hole \<open>H\<close>: pages taken off the lists whose marks are stale, because an
    allocation or a release is under way.  Between calls the hole is empty.
\<close>

section \<open>Blocks and the invariant\<close>

definition block :: "nat \<Rightarrow> nat \<Rightarrow> nat set" where
  "block f k = {f ..< f + 2 ^ k}"

fun blk :: "u32 \<times> nat \<Rightarrow> nat set" where
  "blk (f, k) = block (unat f) k"

fun block_ok :: "u32 \<times> nat \<Rightarrow> bool" where
  "block_ok (f, k) \<longleftrightarrow> k < NORDERS \<and> 2 ^ k dvd unat f \<and> unat f + 2 ^ k \<le> NPAGES"

type_synonym free_lists = "nat \<Rightarrow> u32 list"

definition heads :: "free_lists \<Rightarrow> (u32 \<times> nat) set" where
  "heads L = {(f, k). k < NORDERS \<and> f \<in> set (L k)}"

definition pages_of :: "(u32 \<times> nat) set \<Rightarrow> nat set" where
  "pages_of B = (\<Union>b\<in>B. blk b)"

definition links_ok :: "free_lists \<Rightarrow> buddy_state \<Rightarrow> bool" where
  "links_ok L s \<longleftrightarrow> (\<forall>k<NORDERS. distinct (L k) \<and>
     dll (buddy_free_next s) (buddy_free_prev s) (buddy_free_list s k) UINT32_MAX (L k))"

definition blocks_ok :: "(u32 \<times> nat) set \<Rightarrow> bool" where
  "blocks_ok B \<longleftrightarrow> (\<forall>b\<in>B. block_ok b) \<and> pairwise (\<lambda>b c. disjnt (blk b) (blk c)) B"

fun marked_free :: "(nat \<Rightarrow> u8) \<Rightarrow> u32 \<times> nat \<Rightarrow> bool" where
  "marked_free ps (f, k) \<longleftrightarrow> ps (unat f) = of_nat k \<and>
     (\<forall>i\<in>block (unat f) k - {unat f}. ps i = BUDDY_PAGE_STATE_FREE_BODY)"

definition in_use :: "u8 \<Rightarrow> bool" where
  "in_use v \<longleftrightarrow> v = BUDDY_PAGE_STATE_ALLOCATED \<or> v = BUDDY_PAGE_STATE_RESERVED"

definition marks_ok :: "nat set \<Rightarrow> (u32 \<times> nat) set \<Rightarrow> (nat \<Rightarrow> u8) \<Rightarrow> bool" where
  "marks_ok H B ps \<longleftrightarrow> (\<forall>b\<in>B. marked_free ps b) \<and>
     (\<forall>i\<in>{..<NPAGES} - H - pages_of B. in_use (ps i))"

definition buddy_inv :: "nat set \<Rightarrow> free_lists \<Rightarrow> buddy_state \<Rightarrow> bool" where
  "buddy_inv H L s \<longleftrightarrow> links_ok L s \<and> blocks_ok (heads L) \<and>
     marks_ok H (heads L) (buddy_page_state s) \<and> H \<inter> pages_of (heads L) = {}"

section \<open>Geometry\<close>

lemma block_nonempty [simp]: "f \<in> block f k"
  by (simp add: block_def)

lemma block_ok_bounds:
  assumes "block_ok (f, k)"
  shows "k < NORDERS" "k < 32" "unat f < NPAGES" "f \<noteq> UINT32_MAX" "block (unat f) k \<subseteq> {..<NPAGES}"
    "unat f + 2 ^ k \<le> NPAGES" "unat (f + 2 ^ k) = unat f + 2 ^ k"
proof -
  have *: "k < NORDERS" "unat f + 2 ^ k \<le> NPAGES" using assms by auto
  moreover have "(1::nat) \<le> 2 ^ k" by simp
  ultimately have "unat f < NPAGES" by linarith
  then show "f \<noteq> UINT32_MAX" by auto
  show "unat (f + 2 ^ k) = unat f + 2 ^ k" using * by (simp add: unat_plus_if')
  show "k < NORDERS" "k < 32" "unat f < NPAGES" "block (unat f) k \<subseteq> {..<NPAGES}" "unat f + 2 ^ k \<le> NPAGES"
    using * \<open>unat f < NPAGES\<close> by (auto simp: block_def)
qed

lemma heads_Cons: "k < NORDERS \<Longrightarrow> heads (L(k := f # L k)) = insert (f, k) (heads L)"
  by (auto simp: heads_def split: if_splits)

lemma heads_remove1:
  "k < NORDERS \<Longrightarrow> distinct (L k) \<Longrightarrow> heads (L(k := remove1 f (L k))) = heads L - {(f, k)}"
  by (auto simp: heads_def split: if_splits)

lemma pages_of_insert [simp]: "pages_of (insert b B) = blk b \<union> pages_of B"
  by (simp add: pages_of_def)

lemma blk_subset_pages: "b \<in> B \<Longrightarrow> blk b \<subseteq> pages_of B"
  by (auto simp: pages_of_def)

lemma pages_of_remove: "blocks_ok B \<Longrightarrow> b \<in> B \<Longrightarrow> pages_of (B - {b}) = pages_of B - blk b"
  unfolding blocks_ok_def pages_of_def pairwise_def disjnt_def by blast

lemma blocks_ok_insert:
  "blocks_ok B \<Longrightarrow> block_ok b \<Longrightarrow> blk b \<inter> pages_of B = {} \<Longrightarrow> blocks_ok (insert b B)"
  unfolding blocks_ok_def pages_of_def pairwise_insert disjnt_def by blast

lemma blocks_ok_subset: "blocks_ok B \<Longrightarrow> C \<subseteq> B \<Longrightarrow> blocks_ok C"
  unfolding blocks_ok_def by (meson pairwise_subset subsetD)

lemma blocks_ok_member: "blocks_ok B \<Longrightarrow> b \<in> B \<Longrightarrow> block_ok b"
  by (simp add: blocks_ok_def)

lemma same_head: "blocks_ok B \<Longrightarrow> (f, k) \<in> B \<Longrightarrow> (f, j) \<in> B \<Longrightarrow> j = k"
  unfolding blocks_ok_def pairwise_def disjnt_def
  by (metis IntI block_nonempty blk.simps empty_iff prod.inject)

section \<open>Marking\<close>

lemma mark_loop_eval:
  "unat e \<le> NPAGES \<Longrightarrow> mark_loop v i e s =
     Some (s\<lparr>buddy_page_state := fill (unat i) (unat e) v (buddy_page_state s)\<rparr>)"
proof (induction v i e s rule: mark_loop.induct)
  case (1 v i e s)
  show ?case
  proof (cases "i < e")
    case True
    then have "unat i < unat e" "unat (i + 1) = Suc (unat i)"
      by (auto simp: word_less_nat_alt unat_Suc_less)
    moreover have "set_state i v s = Some (s\<lparr>buddy_page_state := (buddy_page_state s)(unat i := v)\<rparr>)"
      using \<open>unat i < unat e\<close> "1.prems" by (simp add: set_state_def c_eval)
    ultimately show ?thesis
      using True "1.IH" [OF True] "1.prems" by (subst mark_loop.simps) (simp add: fill_step)
  next
    case False
    then have "\<not> unat i < unat e" by (simp add: word_less_nat_alt)
    with False show ?thesis by (subst mark_loop.simps) (simp add: fill_empty)
  qed
qed

definition paint_free :: "u32 \<Rightarrow> nat \<Rightarrow> (nat \<Rightarrow> u8) \<Rightarrow> nat \<Rightarrow> u8" where
  "paint_free f k ps i = (if i = unat f then of_nat k
     else if i \<in> block (unat f) k then BUDDY_PAGE_STATE_FREE_BODY else ps i)"

definition paint_allocated :: "u32 \<Rightarrow> nat \<Rightarrow> (nat \<Rightarrow> u8) \<Rightarrow> nat \<Rightarrow> u8" where
  "paint_allocated f k ps i = (if i \<in> block (unat f) k then BUDDY_PAGE_STATE_ALLOCATED else ps i)"

lemma mark_block_free_eval:
  assumes "block_ok (f, unat order)"
  shows "buddy_mark_block_free f order s =
    Some (s\<lparr>buddy_page_state := paint_free f (unat order) (buddy_page_state s)\<rparr>)"
proof -
  note b = block_ok_bounds [OF assms]
  then have "unat (f + 1) = Suc (unat f)" by (simp add: unat_plus_if')
  with b show ?thesis
    by (auto simp: buddy_mark_block_free_def set_state_def c_eval mark_loop_eval fill_def paint_free_def block_def fun_eq_iff
         intro!: arg_cong [where f = "\<lambda>g. s\<lparr>buddy_page_state := g\<rparr>"])
qed

lemma mark_block_allocated_eval:
  assumes "block_ok (f, unat order)"
  shows "buddy_mark_block_allocated f order s =
    Some (s\<lparr>buddy_page_state := paint_allocated f (unat order) (buddy_page_state s)\<rparr>)"
  using block_ok_bounds [OF assms]
  by (simp add: buddy_mark_block_allocated_def c_eval mark_loop_eval fill_def paint_allocated_def [abs_def] block_def)

lemma marks_ok_paint_free:
  assumes "marks_ok H B ps" "blk (f, k) \<inter> pages_of B = {}"
  shows "marks_ok (H - blk (f, k)) (insert (f, k) B) (paint_free f k ps)"
proof -
  have "marked_free (paint_free f k ps) b" if "b \<in> B" for b
  proof (cases b)
    case (Pair g j)
    have "blk (g, j) \<inter> blk (f, k) = {}" using blk_subset_pages [OF that] Pair assms(2) by blast
    then have "\<And>i. i \<in> block (unat g) j \<Longrightarrow> i \<notin> block (unat f) k \<and> i \<noteq> unat f"
      using block_nonempty by (metis IntI blk.simps empty_iff)
    then have "\<And>i. i \<in> block (unat g) j \<Longrightarrow> paint_free f k ps i = ps i"
      by (simp add: paint_free_def)
    moreover have "marked_free ps (g, j)" using assms(1) that Pair unfolding marks_ok_def by blast
    ultimately show ?thesis by (simp add: Pair)
  qed
  moreover have "marked_free (paint_free f k ps) (f, k)" by (simp add: paint_free_def)
  moreover have "in_use (paint_free f k ps i)"
    if "i < NPAGES" "i \<notin> H - blk (f, k)" "i \<notin> pages_of (insert (f, k) B)" for i
    using that assms(1) block_nonempty [of "unat f" k] by (auto simp: marks_ok_def paint_free_def)
  ultimately show ?thesis by (auto simp: marks_ok_def)
qed

lemma marks_ok_paint_allocated:
  assumes "marks_ok H B ps" "blk (f, k) \<inter> pages_of B = {}"
  shows "marks_ok (H - blk (f, k)) B (paint_allocated f k ps)"
proof -
  have "marked_free (paint_allocated f k ps) b" if "b \<in> B" for b
  proof (cases b)
    case (Pair g j)
    have "blk (g, j) \<inter> blk (f, k) = {}" using blk_subset_pages [OF that] Pair assms(2) by blast
    then have "\<And>i. i \<in> block (unat g) j \<Longrightarrow> paint_allocated f k ps i = ps i"
      by (auto simp: paint_allocated_def)
    moreover have "marked_free ps (g, j)" using assms(1) that Pair unfolding marks_ok_def by blast
    ultimately show ?thesis by (simp add: Pair)
  qed
  then show ?thesis
    using assms(1) by (auto simp: marks_ok_def paint_allocated_def in_use_def)
qed

section \<open>List operations keep the invariant\<close>

lemma links_head:
  assumes "links_ok L s" "k < NORDERS"
  shows "buddy_free_list s k = (case L k of [] \<Rightarrow> UINT32_MAX | x # _ \<Rightarrow> x)"
  using assms dll_head unfolding links_ok_def by blast

lemma head_member: "x \<in> set (L k) \<Longrightarrow> k < NORDERS \<Longrightarrow> (x, k) \<in> heads L"
  by (simp add: heads_def)

lemma inv_head:
  assumes "buddy_inv H L s" "k < NORDERS" "buddy_free_list s k \<noteq> UINT32_MAX"
  shows "(buddy_free_list s k, k) \<in> heads L" "unat (buddy_free_list s k) < NPAGES"
    "\<exists>xs. L k = buddy_free_list s k # xs"
proof -
  have h: "buddy_free_list s k = (case L k of [] \<Rightarrow> UINT32_MAX | x # _ \<Rightarrow> x)"
    using assms links_head unfolding buddy_inv_def by blast
  with assms(3) show "\<exists>xs. L k = buddy_free_list s k # xs" by (cases "L k") auto
  then show m: "(buddy_free_list s k, k) \<in> heads L" using assms(2) by (auto simp: heads_def)
  then show "unat (buddy_free_list s k) < NPAGES"
    using assms(1) block_ok_bounds(3) blocks_ok_member unfolding buddy_inv_def by blast
qed

definition linked :: "u32 \<Rightarrow> nat \<Rightarrow> buddy_state \<Rightarrow> buddy_state" where
  "linked f k s = (let h = buddy_free_list s k in
     s\<lparr>buddy_page_state := paint_free f k (buddy_page_state s),
       buddy_free_list := (buddy_free_list s)(k := f),
       buddy_free_next := (buddy_free_next s)(unat f := h),
       buddy_free_prev := (if h \<noteq> UINT32_MAX then (buddy_free_prev s)(unat h := f)
                           else buddy_free_prev s)(unat f := UINT32_MAX)\<rparr>)"

lemma add_free_block_eval:
  assumes "buddy_inv H L s" "block_ok (f, unat order)"
  shows "buddy_add_free_block f order s = Some (linked f (unat order) s)"
proof -
  have k: "unat order < NORDERS" "unat f < NPAGES" using block_ok_bounds assms(2) by blast+
  have h: "buddy_free_list s (unat order) \<noteq> UINT32_MAX \<Longrightarrow> unat (buddy_free_list s (unat order)) < NPAGES"
    using inv_head(2) [OF assms(1) k(1)] .
  then show ?thesis
    using k by (auto simp: buddy_add_free_block_def mark_block_free_eval [OF assms(2)] buddy_access c_eval
        linked_def Let_def)
qed

lemma links_ok_linked:
  assumes "links_ok L s" "k < NORDERS" "f \<noteq> UINT32_MAX" "\<And>j. j < NORDERS \<Longrightarrow> f \<notin> set (L j)"
    and "\<And>j. j < NORDERS \<Longrightarrow> j \<noteq> k \<Longrightarrow> set (L j) \<inter> set (L k) = {}"
  shows "links_ok (L(k := f # L k)) (linked f k s)"
proof -
  let ?h = "buddy_free_list s k"
  let ?nx = "(buddy_free_next s)(unat f := ?h)"
  let ?pv = "(if ?h \<noteq> UINT32_MAX then (buddy_free_prev s)(unat ?h := f) else buddy_free_prev s)(unat f := UINT32_MAX)"
  have L: "distinct (L j)" "dll (buddy_free_next s) (buddy_free_prev s) (buddy_free_list s j) UINT32_MAX (L j)"
    if "j < NORDERS" for j using assms(1) that by (auto simp: links_ok_def)
  have hin: "?h \<noteq> UINT32_MAX \<Longrightarrow> ?h \<in> set (L k)" using dll_head [OF L(2) [OF assms(2)]] by (cases "L k") auto
  have other: "dll ?nx ?pv (buddy_free_list s j) UINT32_MAX (L j)" if "j < NORDERS" "j \<noteq> k" for j
  proof -
    have "?h \<noteq> UINT32_MAX \<Longrightarrow> ?h \<notin> set (L j)" using hin assms(5) [OF that] by auto
    then have "dll ?nx ?pv (buddy_free_list s j) UINT32_MAX (L j) =
        dll (buddy_free_next s) (buddy_free_prev s) (buddy_free_list s j) UINT32_MAX (L j)"
      using assms(4) [OF that(1)] by (intro dll_cong) auto
    with L(2) that show ?thesis by simp
  qed
  have "dll ?nx ?pv f UINT32_MAX (f # L k)"
    using dll_Cons [OF L(2) L(1)] assms(2-4) by blast
  with other L(1) assms(2,4) show ?thesis
    unfolding links_ok_def linked_def Let_def by (auto simp del: dll.simps)
qed

lemma heads_disjoint:
  "blocks_ok (heads L) \<Longrightarrow> i < NORDERS \<Longrightarrow> j < NORDERS \<Longrightarrow> i \<noteq> j \<Longrightarrow> set (L i) \<inter> set (L j) = {}"
  using same_head [of "heads L"] by (force simp: heads_def)

lemma inv_linked:
  assumes "buddy_inv H L s" "block_ok (f, k)" "blk (f, k) \<inter> pages_of (heads L) = {}"
  shows "buddy_inv (H - blk (f, k)) (L(k := f # L k)) (linked f k s)"
proof -
  note k = block_ok_bounds [OF assms(2)]
  have "f \<notin> set (L j)" if "j < NORDERS" for j
    using assms(3) blk_subset_pages [OF head_member [of f L j]] that block_nonempty [of "unat f"]
    by (metis IntI blk.simps empty_iff subsetD)
  then have "links_ok (L(k := f # L k)) (linked f k s)"
    using assms(1) k heads_disjoint unfolding buddy_inv_def by (intro links_ok_linked) auto
  moreover have "buddy_page_state (linked f k s) = paint_free f k (buddy_page_state s)"
    by (simp add: linked_def Let_def)
  ultimately show ?thesis
    using assms k marks_ok_paint_free [of H "heads L" "buddy_page_state s" f k] blocks_ok_insert
    unfolding buddy_inv_def heads_Cons [OF k(1)] by auto
qed

definition unlinked :: "u32 \<Rightarrow> nat \<Rightarrow> buddy_state \<Rightarrow> buddy_state" where
  "unlinked f k s = (let p = buddy_free_prev s (unat f); n = buddy_free_next s (unat f) in
     s\<lparr>buddy_free_list := (if p = UINT32_MAX then (buddy_free_list s)(k := n) else buddy_free_list s),
       buddy_free_next := (if p = UINT32_MAX then buddy_free_next s
                           else (buddy_free_next s)(unat p := n))(unat f := UINT32_MAX),
       buddy_free_prev := (if n \<noteq> UINT32_MAX then (buddy_free_prev s)(unat n := p)
                           else buddy_free_prev s)(unat f := UINT32_MAX)\<rparr>)"

text \<open>What the links of a member of a free list say.\<close>

lemma links_member:
  assumes "buddy_inv H L s" "(f, k) \<in> heads L"
  obtains as bs where "L k = as @ f # bs" "distinct (L k)" "k < NORDERS" "unat f < NPAGES"
    "buddy_free_prev s (unat f) = (if as = [] then UINT32_MAX else last as)"
    "as = [] \<Longrightarrow> buddy_free_list s k = f"
    "as \<noteq> [] \<Longrightarrow> buddy_free_next s (unat (last as)) = f \<and> last as \<noteq> UINT32_MAX \<and> unat (last as) < NPAGES"
    "buddy_free_next s (unat f) \<noteq> UINT32_MAX \<Longrightarrow>
       buddy_free_next s (unat f) \<in> set bs \<and> unat (buddy_free_next s (unat f)) < NPAGES"
proof -
  have k: "k < NORDERS" and fin: "f \<in> set (L k)" using assms(2) by (auto simp: heads_def)
  have l: "distinct (L k)" "dll (buddy_free_next s) (buddy_free_prev s) (buddy_free_list s k) UINT32_MAX (L k)"
    using assms(1) k by (auto simp: buddy_inv_def links_ok_def)
  have in_range: "unat x < NPAGES" "x \<noteq> UINT32_MAX" if "x \<in> set (L k)" for x
    using assms(1) blocks_ok_member [OF _ head_member [of x L k, OF that k]] block_ok_bounds(3,4)
    unfolding buddy_inv_def by blast+
  obtain as bs where ab: "L k = as @ f # bs" using fin by (meson split_list)
  note mid = dll_middle [OF l(2) [unfolded ab]]
  show thesis
  proof (rule that [OF ab l(1) k])
    show "unat f < NPAGES" using in_range fin by blast
    show "buddy_free_prev s (unat f) = (if as = [] then UINT32_MAX else last as)" using mid by simp
    show "as = [] \<Longrightarrow> buddy_free_list s k = f" using mid by simp
    show "buddy_free_next s (unat (last as)) = f \<and> last as \<noteq> UINT32_MAX \<and> unat (last as) < NPAGES"
      if "as \<noteq> []" using mid that in_range [of "last as"] ab by simp
    assume "buddy_free_next s (unat f) \<noteq> UINT32_MAX"
    then have "buddy_free_next s (unat f) \<in> set bs" using mid by (cases bs) auto
    then show "buddy_free_next s (unat f) \<in> set bs \<and> unat (buddy_free_next s (unat f)) < NPAGES"
      using in_range ab by simp
  qed
qed

lemma remove_free_block_eval:
  assumes "buddy_inv H L s" "(f, unat order) \<in> heads L"
  shows "buddy_remove_free_block f order s = Some (True, unlinked f (unat order) s)"
proof -
  obtain as bs where ab: "unat order < NORDERS" "unat f < NPAGES"
    "buddy_free_prev s (unat f) = (if as = [] then UINT32_MAX else last as)"
    "as = [] \<Longrightarrow> buddy_free_list s (unat order) = f"
    "as \<noteq> [] \<Longrightarrow> buddy_free_next s (unat (last as)) = f \<and> last as \<noteq> UINT32_MAX \<and> unat (last as) < NPAGES"
    "buddy_free_next s (unat f) \<noteq> UINT32_MAX \<Longrightarrow> unat (buddy_free_next s (unat f)) < NPAGES"
    by (rule links_member [OF assms]) blast
  show ?thesis
    using ab by (cases "as = []")
      (auto simp: buddy_remove_free_block_def unlinked_def buddy_access c_eval Let_def)
qed

lemma pop_free_block_eval:
  assumes "buddy_inv H L s" "unat order < NORDERS" "buddy_free_list s (unat order) \<noteq> UINT32_MAX"
  shows "buddy_pop_free_block order s =
    Some (buddy_free_list s (unat order), unlinked (buddy_free_list s (unat order)) (unat order) s)"
proof -
  let ?f = "buddy_free_list s (unat order)"
  obtain as bs where ab: "L (unat order) = as @ ?f # bs" "distinct (L (unat order))" "unat ?f < NPAGES"
    "buddy_free_prev s (unat ?f) = (if as = [] then UINT32_MAX else last as)"
    "buddy_free_next s (unat ?f) \<noteq> UINT32_MAX \<Longrightarrow> unat (buddy_free_next s (unat ?f)) < NPAGES"
    by (rule links_member [OF assms(1) inv_head(1) [OF assms]]) blast
  obtain xs where "L (unat order) = ?f # xs" using inv_head(3) [OF assms] by blast
  with ab have "as = []" by (cases as) auto
  with ab assms(2,3) show ?thesis
    by (auto simp: buddy_pop_free_block_def unlinked_def buddy_access c_eval Let_def)
qed

lemma links_ok_unlinked:
  assumes "buddy_inv H L s" "(f, k) \<in> heads L"
  shows "links_ok (L(k := remove1 f (L k))) (unlinked f k s)"
proof -
  obtain as bs where ab: "L k = as @ f # bs" "distinct (L k)" "k < NORDERS"
    "buddy_free_prev s (unat f) = (if as = [] then UINT32_MAX else last as)"
    "as \<noteq> [] \<Longrightarrow> last as \<noteq> UINT32_MAX"
    "buddy_free_next s (unat f) \<noteq> UINT32_MAX \<Longrightarrow> buddy_free_next s (unat f) \<in> set bs"
    by (rule links_member [OF assms]) blast
  let ?p = "buddy_free_prev s (unat f)" and ?n = "buddy_free_next s (unat f)"
  let ?nx = "buddy_free_next (unlinked f k s)" and ?pv = "buddy_free_prev (unlinked f k s)"
  have L: "distinct (L j)" "dll (buddy_free_next s) (buddy_free_prev s) (buddy_free_list s j) UINT32_MAX (L j)"
    if "j < NORDERS" for j using assms(1) that by (auto simp: buddy_inv_def links_ok_def)
  have p: "?p = UINT32_MAX \<longleftrightarrow> as = []" using ab by auto
  have r: "remove1 f (L k) = as @ bs" "distinct (as @ bs)" using ab by (simp_all add: remove1_append)
  have "dll ?nx ?pv (buddy_free_list (unlinked f k s) k) UINT32_MAX (as @ bs)"
  proof -
    have "f \<notin> set (as @ bs)" using ab by simp
    have hd: "buddy_free_list (unlinked f k s) k = (if as = [] then ?n else buddy_free_list s k)"
      using p by (simp add: unlinked_def Let_def)
    have eq: "dll ?nx ?pv (if as = [] then ?n else buddy_free_list s k) UINT32_MAX (as @ bs) =
        dll (if as = [] then buddy_free_next s else (buddy_free_next s)(unat (last as) := ?n))
            (if ?n \<noteq> UINT32_MAX then (buddy_free_prev s)(unat ?n := (if as = [] then UINT32_MAX else last as))
             else buddy_free_prev s)
            (if as = [] then ?n else buddy_free_list s k) UINT32_MAX (as @ bs)"
      using \<open>f \<notin> set (as @ bs)\<close> ab(4) p by (intro dll_cong) (auto simp: unlinked_def Let_def)
    show ?thesis
      unfolding hd eq by (rule dll_unlink) (use L [OF ab(3)] ab(1) in simp_all)
  qed
  moreover have "dll ?nx ?pv (buddy_free_list (unlinked f k s) j) UINT32_MAX (L j)" if "j < NORDERS" "j \<noteq> k" for j
  proof -
    have "set (L j) \<inter> set (L k) = {}"
      using assms(1) heads_disjoint that ab(3) unfolding buddy_inv_def by blast
    then have "f \<notin> set (L j)" "?p \<noteq> UINT32_MAX \<Longrightarrow> ?p \<notin> set (L j)" "?n \<noteq> UINT32_MAX \<Longrightarrow> ?n \<notin> set (L j)"
      using ab by auto
    then have "dll ?nx ?pv (buddy_free_list s j) UINT32_MAX (L j) =
        dll (buddy_free_next s) (buddy_free_prev s) (buddy_free_list s j) UINT32_MAX (L j)"
      by (intro dll_cong) (auto simp: unlinked_def Let_def)
    moreover have "buddy_free_list (unlinked f k s) j = buddy_free_list s j"
      using that by (simp add: unlinked_def Let_def)
    ultimately show ?thesis using L(2) [OF that(1)] by simp
  qed
  ultimately show ?thesis
    unfolding links_ok_def using L(1) r by (auto simp del: dll.simps)
qed

lemma inv_unlinked:
  assumes "buddy_inv H L s" "(f, k) \<in> heads L"
  shows "buddy_inv (H \<union> blk (f, k)) (L(k := remove1 f (L k))) (unlinked f k s)"
proof -
  have k: "k < NORDERS" "distinct (L k)" using assms by (auto simp: heads_def buddy_inv_def links_ok_def)
  have B: "blocks_ok (heads L)" and M: "marks_ok H (heads L) (buddy_page_state s)"
    using assms(1) by (auto simp: buddy_inv_def)
  note pg = pages_of_remove [OF B assms(2)]
  have "buddy_page_state (unlinked f k s) = buddy_page_state s" by (simp add: unlinked_def Let_def)
  moreover have "marks_ok (H \<union> blk (f, k)) (heads L - {(f, k)}) (buddy_page_state s)"
    using M pg by (auto simp: marks_ok_def)
  ultimately show ?thesis
    using assms(1) links_ok_unlinked [OF assms] blocks_ok_subset [OF B] pg
    unfolding buddy_inv_def heads_remove1 [of k L f, OF k] by auto
qed
end
