(* ===== verification/Buddy_Alloc.thy ===== *)
theory Buddy_Alloc
  imports Buddy_Invariant
begin

text \<open>
  Allocation: the geometry of buddies and halves, the reading of the page table as sets of free,
  allocated and reserved pages, and the correctness of \<open>buddy_allocate_block\<close>.
\<close>

section \<open>Buddies\<close>

lemma nat_xor_power:
  "(f :: nat) XOR 2 ^ k = (if odd (f div 2 ^ k) then f - 2 ^ k else f + 2 ^ k)"
proof -
  have "f XOR 2 ^ k = flip_bit k f" by (simp add: flip_bit_nat_def)
  also have "\<dots> = (if odd (f div 2 ^ k) then f - 2 ^ k else f + 2 ^ k)"
  proof (cases "bit f k")
    case True
    have "f = set_bit k (unset_bit k f)"
      by (rule bit_eqI) (use True in \<open>auto simp: bit_simps\<close>)
    also have "\<dots> = unset_bit k f + 2 ^ k" by (simp add: set_bit_eq bit_simps)
    finally have "unset_bit k f = f - 2 ^ k" by simp
    with True show ?thesis by (simp add: flip_bit_eq_if bit_iff_odd)
  next
    case False
    then show ?thesis by (simp add: flip_bit_eq_if bit_iff_odd set_bit_eq)
  qed
  finally show ?thesis .
qed

lemma unat_xor_power:
  "k < 32 \<Longrightarrow> unat ((f :: u32) XOR 2 ^ k) =
     (if odd (unat f div 2 ^ k) then unat f - 2 ^ k else unat f + 2 ^ k)"
  using nat_xor_power [of "unat f" k] by (simp add: unsigned_xor_eq)

lemma buddy_geometry:
  assumes "block_ok (f, k)" "k < 18" and b: "b = f XOR 2 ^ k"
  shows "block_ok (b, k)" "blk (f, k) \<inter> blk (b, k) = {}"
    "block_ok (if f < b then f else b, Suc k)"
    "blk (if f < b then f else b, Suc k) = blk (f, k) \<union> blk (b, k)"
proof -
  obtain q where q: "unat f = 2 ^ k * q" using assms(1) by (auto elim: dvdE)
  have N: "NPAGES = 2 ^ k * (2 ^ (18 - k))" using assms(2) by (simp flip: power_add)
  have "2 ^ k * (q + 1) \<le> 2 ^ k * 2 ^ (18 - k)" using assms(1) q N by (simp add: algebra_simps)
  then have q1: "q + 1 \<le> 2 ^ (18 - k)" by (subst (asm) mult_le_cancel1) simp
  have e: "even ((2::nat) ^ (18 - k))" using assms(2) by simp
  have u: "unat b = (if odd q then unat f - 2 ^ k else unat f + 2 ^ k)"
    using assms(2) q b by (simp add: unat_xor_power)
  have fit: "2 ^ k * r + 2 ^ k \<le> NPAGES" if "r + 1 \<le> 2 ^ (18 - k)" for r
  proof -
    have "2 ^ k * (r + 1) \<le> 2 ^ k * 2 ^ (18 - k)" using that by (rule mult_le_mono2)
    then show ?thesis unfolding N by (simp add: algebra_simps)
  qed
  have "block_ok (b, k) \<and> blk (f, k) \<inter> blk (b, k) = {} \<and> block_ok (if f < b then f else b, Suc k) \<and>
    blk (if f < b then f else b, Suc k) = blk (f, k) \<union> blk (b, k)"
  proof (cases "odd q")
    case True
    then obtain r where r: "q = 2 * r + 1" by (metis oddE)
    have ub: "unat b = 2 ^ k * (2 * r)" using u True q r by (simp add: algebra_simps)
    have f: "unat f = 2 ^ k * (2 * r) + 2 ^ k" using q r by (simp add: algebra_simps)
    have lt: "\<not> f < b" using ub f by (simp add: word_less_nat_alt)
    have "2 * r + 1 \<le> 2 ^ (18 - k)" using q1 r by linarith
    then have "2 ^ k * (2 * r) + 2 ^ k \<le> NPAGES" by (rule fit)
    moreover have "2 ^ k * (2 * r + 1) + 2 ^ k \<le> NPAGES" using fit q1 r by blast
    moreover have "2 ^ Suc k dvd unat b" using ub by simp
    ultimately show ?thesis using lt ub f assms(2) by (auto simp: block_def algebra_simps)
  next
    case False
    then obtain r where r: "q = 2 * r" by (metis evenE)
    have ub: "unat b = 2 ^ k * (2 * r) + 2 ^ k" using u False q r by (simp add: algebra_simps)
    have f: "unat f = 2 ^ k * (2 * r)" using q r by (simp add: algebra_simps)
    have lt: "f < b" using ub f by (simp add: word_less_nat_alt)
    have "q + 1 \<noteq> 2 ^ (18 - k)" using e r by (metis dvd_triv_left even_plus_one_iff)
    then have "2 * r + 1 + 1 \<le> 2 ^ (18 - k)" using q1 r by linarith
    then have "2 ^ k * (2 * r + 1) + 2 ^ k \<le> NPAGES" by (rule fit)
    moreover have "2 ^ Suc k dvd unat f" using f by simp
    moreover have "2 ^ k dvd unat b" using ub by simp
    ultimately show ?thesis using lt ub f assms(2) by (auto simp: block_def algebra_simps)
  qed
  then show "block_ok (b, k)" "blk (f, k) \<inter> blk (b, k) = {}"
    "block_ok (if f < b then f else b, Suc k)"
    "blk (if f < b then f else b, Suc k) = blk (f, k) \<union> blk (b, k)" by blast+
qed

lemma split_geometry:
  assumes "block_ok (f, Suc k)"
  shows "block_ok (f, k)" "block_ok (f + 2 ^ k, k)" "blk (f, Suc k) = blk (f, k) \<union> blk (f + 2 ^ k, k)"
    "blk (f, k) \<inter> blk (f + 2 ^ k, k) = {}"
proof -
  note b = block_ok_bounds [OF assms]
  have u: "unat (f + 2 ^ k) = unat f + 2 ^ k" using b by (simp add: unat_plus_if')
  show "block_ok (f, k)" "block_ok (f + 2 ^ k, k)" "blk (f, Suc k) = blk (f, k) \<union> blk (f + 2 ^ k, k)"
    "blk (f, k) \<inter> blk (f + 2 ^ k, k) = {}"
    using assms u by (auto simp: block_def dest: dvd_mult_left)
qed

lemma shrink_block: "block_ok (f, k) \<Longrightarrow> j \<le> k \<Longrightarrow> block_ok (f, j) \<and> blk (f, j) \<subseteq> blk (f, k)"
proof (induction k)
  case (Suc k)
  then show ?case using split_geometry [of f k] by (cases "j = Suc k") auto
qed simp

lemma split_pages:
  "block_ok (f, k) \<Longrightarrow> j \<le> k \<Longrightarrow> blk (f, k) = blk (f, j) \<union> pages_of {(f + 2 ^ i, i) |i. j \<le> i \<and> i < k}"
proof (induction k)
  case (Suc k)
  show ?case
  proof (cases "j = Suc k")
    case True
    then show ?thesis by (auto simp: pages_of_def)
  next
    case False
    then have "{(f + 2 ^ i, i) |i. j \<le> i \<and> i < Suc k} =
        insert (f + 2 ^ k, k) {(f + 2 ^ i, i) |i. j \<le> i \<and> i < k}"
      using Suc.prems(2) by (auto simp: less_Suc_eq)
    moreover have "blk (f, k) = blk (f, j) \<union> pages_of {(f + 2 ^ i, i) |i. j \<le> i \<and> i < k}"
      using Suc False split_geometry(1) [OF Suc.prems(1)] by simp
    ultimately show ?thesis using split_geometry(3) [OF Suc.prems(1)] by auto
  qed
qed (auto simp: pages_of_def)

section \<open>What the page table shows\<close>

definition buddy_wf :: "buddy_state \<Rightarrow> bool" where
  "buddy_wf s \<longleftrightarrow> (\<exists>L. buddy_inv {} L s)"

definition free_set :: "buddy_state \<Rightarrow> nat set" where
  "free_set s = {i. i < NPAGES \<and> \<not> in_use (buddy_page_state s i)}"

definition allocated_set :: "buddy_state \<Rightarrow> nat set" where
  "allocated_set s = {i. i < NPAGES \<and> buddy_page_state s i = BUDDY_PAGE_STATE_ALLOCATED}"

definition reserved_set :: "buddy_state \<Rightarrow> nat set" where
  "reserved_set s = {i. i < NPAGES \<and> buddy_page_state s i = BUDDY_PAGE_STATE_RESERVED}"

lemmas page_sets = free_set_def allocated_set_def reserved_set_def

lemma of_nat_order: "k < NORDERS \<Longrightarrow> unat (of_nat k :: u8) = k"
  by (simp add: unat_of_nat)

lemma order_not_in_use: "k < NORDERS \<Longrightarrow> \<not> in_use (of_nat k)" "\<not> in_use BUDDY_PAGE_STATE_FREE_BODY"
proof -
  assume k: "k < NORDERS"
  show "\<not> in_use (of_nat k)"
  proof
    assume "in_use (of_nat k)"
    then have "unat (of_nat k :: u8) \<ge> 254" by (auto simp: in_use_def buddy_consts)
    with k show False by (simp add: of_nat_order)
  qed
qed (simp add: in_use_def buddy_consts)

lemma marked_free_page:
  assumes "block_ok b" "marked_free ps b" "i \<in> blk b"
  shows "\<not> in_use (ps i)"
  using assms order_not_in_use by (cases b; cases "i = unat (fst b)") auto

lemma inv_in_use:
  "buddy_inv H L s \<Longrightarrow> i < NPAGES \<Longrightarrow> i \<notin> H \<Longrightarrow> i \<notin> pages_of (heads L) \<Longrightarrow> in_use (buddy_page_state s i)"
  unfolding buddy_inv_def marks_ok_def by blast

lemma inv_free_set:
  assumes "buddy_inv {} L s"
  shows "free_set s = pages_of (heads L)"
proof -
  have "\<not> in_use (buddy_page_state s i)" "i < NPAGES" if "i \<in> pages_of (heads L)" for i
  proof -
    from that obtain b where b: "b \<in> heads L" "i \<in> blk b" by (auto simp: pages_of_def)
    then have "block_ok b" "marked_free (buddy_page_state s) b"
      using assms by (auto simp: buddy_inv_def marks_ok_def blocks_ok_def)
    then show "\<not> in_use (buddy_page_state s i)" using b(2) by (rule marked_free_page)
    obtain f k where "b = (f, k)" by (cases b)
    then show "i < NPAGES" using block_ok_bounds(5) [of f k] \<open>block_ok b\<close> b(2) by auto
  qed
  then show ?thesis using inv_in_use [OF assms] unfolding free_set_def by blast
qed

lemma inv_weaken:
  "buddy_inv H L s \<Longrightarrow> H \<subseteq> H' \<Longrightarrow> H' \<inter> pages_of (heads L) = {} \<Longrightarrow> buddy_inv H' L s"
  unfolding buddy_inv_def marks_ok_def by blast

lemma inv_marked_head:
  assumes "buddy_inv H L s" "i < NPAGES" "i \<notin> H" "unat f = i" "buddy_page_state s i = of_nat k" "k < NORDERS"
  shows "(f, k) \<in> heads L"
proof -
  have "i \<in> pages_of (heads L)"
    using assms(5,6) order_not_in_use(1) inv_in_use [OF assms(1-3)] by metis
  then obtain g j where b: "(g, j) \<in> heads L" "i \<in> block (unat g) j" by (auto simp: pages_of_def)
  then have m: "marked_free (buddy_page_state s) (g, j)" "j < NORDERS"
    using assms(1) by (auto simp: buddy_inv_def marks_ok_def heads_def)
  have "of_nat k \<noteq> BUDDY_PAGE_STATE_FREE_BODY"
  proof
    assume "of_nat k = BUDDY_PAGE_STATE_FREE_BODY"
    then have "unat (of_nat k :: u8) = 253" by (simp add: buddy_consts)
    with assms(6) show False by (simp add: of_nat_order)
  qed
  moreover have "i \<noteq> unat g \<Longrightarrow> buddy_page_state s i = BUDDY_PAGE_STATE_FREE_BODY"
    using m(1) b(2) by simp
  ultimately have "i = unat g" using assms(5) by metis
  with m assms(4,5) have "g = f" "(of_nat j :: u8) = of_nat k" by auto
  with m(2) assms(6) have "j = k" by (metis of_nat_order)
  with b \<open>g = f\<close> show ?thesis by simp
qed

section \<open>Allocation\<close>

text \<open>Splitting hands back the upper halves and keeps the lowest block of the wanted order.\<close>

lemma split_loop_correct:
  "buddy_inv H L s \<Longrightarrow> block_ok (f, unat cur) \<Longrightarrow> blk (f, unat cur) \<subseteq> H \<Longrightarrow> order \<le> cur \<Longrightarrow>
   \<exists>L' s'. split_loop f order cur s = Some s' \<and>
     buddy_inv (H - (blk (f, unat cur) - blk (f, unat order))) L' s' \<and>
     heads L' = heads L \<union> {(f + 2 ^ j, j) |j. unat order \<le> j \<and> j < unat cur} \<and>
     (\<forall>i. i \<notin> blk (f, unat cur) \<longrightarrow> buddy_page_state s' i = buddy_page_state s i)"
proof (induction f order cur s arbitrary: H L rule: split_loop.induct)
  case (1 f order cur s)
  show ?case
  proof (cases "cur > order")
    case False
    with "1.prems"(4) have "cur = order" by simp
    with "1.prems"(1) show ?thesis
      by (subst split_loop.simps) (auto intro!: exI [of _ L])
  next
    case True
    define k where "k = unat (cur - 1)"
    have cur: "unat cur = Suc k" "order \<le> cur - 1"
      using True by (auto simp: k_def word_less_nat_alt word_le_nat_alt unat_sub_if')
    note g = split_geometry [OF "1.prems"(2) [unfolded cur(1)]]
    note H = "1.prems"(3) [unfolded cur(1) g(3)]
    let ?s = "linked (f + 2 ^ k) k s" and ?L = "L(k := (f + 2 ^ k) # L k)"
    have disj: "blk (f + 2 ^ k, k) \<inter> pages_of (heads L) = {}"
      using "1.prems"(1) H unfolding buddy_inv_def by blast
    have k32: "k < 32" "k < NORDERS" using block_ok_bounds [OF g(1)] by auto
    have sz: "c_shl32 1 (unat (cur - 1)) = Some (2 ^ k)"
      using k32 by (simp add: c_eval flip: k_def)
    have add: "buddy_add_free_block (f + 2 ^ k) (cur - 1) s = Some ?s"
      using add_free_block_eval [OF "1.prems"(1)] g(2) by (simp flip: k_def)
    have inv: "buddy_inv (H - blk (f + 2 ^ k, k)) ?L ?s"
      using inv_linked [OF "1.prems"(1) g(2) disj] .
    obtain L' s' where ih: "split_loop f order (cur - 1) ?s = Some s'"
      "buddy_inv (H - blk (f + 2 ^ k, k) - (blk (f, k) - blk (f, unat order))) L' s'"
      "heads L' = heads ?L \<union> {(f + 2 ^ j, j) |j. unat order \<le> j \<and> j < k}"
      "\<forall>i. i \<notin> blk (f, k) \<longrightarrow> buddy_page_state s' i = buddy_page_state ?s i"
      using "1.IH" [OF True sz add inv] g(1,4) H cur(2) unfolding k_def [symmetric] by blast
    have eq: "H - blk (f + 2 ^ k, k) - (blk (f, k) - blk (f, unat order)) = H - (blk (f, Suc k) - blk (f, unat order))"
      using shrink_block [OF g(1), of "unat order"] cur g(3,4) unfolding k_def
      by (auto simp: word_le_nat_alt)
    have hd: "heads L' = heads L \<union> {(f + 2 ^ j, j) |j. unat order \<le> j \<and> j < Suc k}"
      unfolding ih(3) heads_Cons [OF k32(2)] using cur(2) by (auto simp: less_Suc_eq word_le_nat_alt k_def)
    have "split_loop f order cur s = Some s'"
      using True sz add ih(1) by (subst split_loop.simps) simp
    moreover have "buddy_page_state s' i = buddy_page_state s i" if "i \<notin> blk (f, Suc k)" for i
      using ih(4) that g(3) block_nonempty [of "unat (f + 2 ^ k)" k]
      by (auto simp: linked_def Let_def paint_free_def)
    ultimately show ?thesis using ih(2) hd unfolding eq cur(1) by blast
  qed
qed

text \<open>What an allocation of order \<open>k\<close> that returns frame \<open>f\<close> does to the allocator.\<close>

definition allocated_block :: "nat \<Rightarrow> buddy_state \<Rightarrow> u32 \<Rightarrow> buddy_state \<Rightarrow> bool" where
  "allocated_block k s f s' \<longleftrightarrow> buddy_wf s' \<and> block_ok (f, k) \<and> blk (f, k) \<subseteq> free_set s \<and>
     free_set s' = free_set s - blk (f, k) \<and> allocated_set s' = allocated_set s \<union> blk (f, k) \<and>
     reserved_set s' = reserved_set s"

text \<open>Changing only pages that are free before and free or allocated afterwards.\<close>

lemma sets_after_alloc:
  assumes "blk (f, k) \<subseteq> free_set s" "\<forall>i. i \<notin> free_set s \<longrightarrow> ps' i = buddy_page_state s i"
    and "free_set s' = free_set s - blk (f, k)" "buddy_page_state s' = paint_allocated f k ps'"
  shows "allocated_set s' = allocated_set s \<union> blk (f, k)" "reserved_set s' = reserved_set s"
proof -
  have B: "\<And>i. i \<in> blk (f, k) \<Longrightarrow> buddy_page_state s' i = BUDDY_PAGE_STATE_ALLOCATED \<and> i < NPAGES"
    using assms(1) by (auto simp: assms(4) paint_allocated_def free_set_def)
  have F: "\<And>i. i \<in> free_set s - blk (f, k) \<Longrightarrow> \<not> in_use (buddy_page_state s' i)"
    using assms(3) by (auto simp: free_set_def)
  have O: "\<And>i. i \<notin> free_set s \<Longrightarrow> buddy_page_state s' i = buddy_page_state s i"
    using assms(1,2) by (auto simp: assms(4) paint_allocated_def)
  have n: "\<And>i. i \<in> free_set s \<Longrightarrow> \<not> in_use (buddy_page_state s i)" by (simp add: free_set_def)
  have ne: "BUDDY_PAGE_STATE_ALLOCATED \<noteq> BUDDY_PAGE_STATE_RESERVED" by (simp add: buddy_consts)
  have cases: "i \<in> allocated_set s' \<longleftrightarrow> i \<in> allocated_set s \<or> i \<in> blk (f, k)"
    "i \<in> reserved_set s' \<longleftrightarrow> i \<in> reserved_set s" for i
    using B [of i] F [of i] O [of i] n [of i] ne
    by (cases "i \<in> blk (f, k)"; cases "i \<in> free_set s"; auto simp: allocated_set_def reserved_set_def in_use_def)+
  show "allocated_set s' = allocated_set s \<union> blk (f, k)" "reserved_set s' = reserved_set s"
    using cases by auto
qed

lemma take_block_correct:
  assumes "buddy_inv {} L s" "(f, unat cur) \<in> heads L" "order \<le> cur"
  shows "\<exists>L' s1 s'. split_loop f order cur (unlinked f (unat cur) s) = Some s1 \<and>
     buddy_mark_block_allocated f order s1 = Some s' \<and> buddy_inv {} L' s' \<and>
     heads L' = heads L - {(f, unat cur)} \<union> {(f + 2 ^ j, j) |j. unat order \<le> j \<and> j < unat cur} \<and>
     allocated_block (unat order) s f s'"
proof -
  let ?s = "unlinked f (unat cur) s" and ?L = "L(unat cur := remove1 f (L (unat cur)))"
  let ?B = "blk (f, unat cur)" and ?b = "blk (f, unat order)"
  have ok: "block_ok (f, unat cur)" "blocks_ok (heads L)" "distinct (L (unat cur))" "unat cur < NORDERS"
    using assms(1,2) by (auto simp: buddy_inv_def blocks_ok_def links_ok_def heads_def)
  note small = shrink_block [OF ok(1), of "unat order", unfolded word_le_nat_alt [symmetric], OF assms(3)]
  have inv: "buddy_inv ?B ?L ?s" using inv_unlinked [OF assms(1,2)] by simp
  obtain L' s1 where sp: "split_loop f order cur ?s = Some s1" "buddy_inv (?B - (?B - ?b)) L' s1"
    "heads L' = heads ?L \<union> {(f + 2 ^ j, j) |j. unat order \<le> j \<and> j < unat cur}"
    "\<forall>i. i \<notin> ?B \<longrightarrow> buddy_page_state s1 i = buddy_page_state ?s i"
    using split_loop_correct [OF inv ok(1) order_refl assms(3)] by blast
  have sp2: "buddy_inv ?b L' s1" using sp(2) small by (simp add: Diff_Diff_Int Int_absorb1)
  let ?s' = "s1\<lparr>buddy_page_state := paint_allocated f (unat order) (buddy_page_state s1)\<rparr>"
  have mk: "buddy_mark_block_allocated f order s1 = Some ?s'"
    using mark_block_allocated_eval small by blast
  have inv': "buddy_inv {} L' ?s'"
    using sp2 marks_ok_paint_allocated [of ?b "heads L'" "buddy_page_state s1" f "unat order"]
    by (auto simp: buddy_inv_def links_ok_def)
  have hd: "heads L' = heads L - {(f, unat cur)} \<union> {(f + 2 ^ j, j) |j. unat order \<le> j \<and> j < unat cur}"
    using sp(3) heads_remove1 [of "unat cur" L, OF ok(4,3)] by simp
  have B_free: "?B \<subseteq> free_set s" "?b \<subseteq> free_set s"
    using inv_free_set [OF assms(1)] blk_subset_pages [OF assms(2)] small by auto
  have fs: "free_set ?s' = free_set s - ?b"
  proof -
    have "i \<in> free_set ?s' \<longleftrightarrow> i \<in> free_set s - ?b" for i
    proof (cases "i \<in> ?B")
      case False
      then have "buddy_page_state ?s' i = buddy_page_state s i" "i \<notin> ?b"
        using small sp(4) by (auto simp: paint_allocated_def unlinked_def Let_def)
      then show ?thesis by (auto simp: free_set_def)
    next
      case True
      then have "i < NPAGES" using block_ok_bounds(5) [OF ok(1)] by auto
      show ?thesis
      proof (cases "i \<in> ?b")
        case True
        then show ?thesis by (auto simp: free_set_def paint_allocated_def in_use_def)
      next
        case False
        have "i \<in> pages_of {(f + 2 ^ j, j) |j. unat order \<le> j \<and> j < unat cur}"
          using True False split_pages [OF ok(1), of "unat order"] assms(3) by (auto simp: word_le_nat_alt)
        then have "i \<in> pages_of (heads L')" unfolding hd pages_of_def by blast
        then show ?thesis using True False inv_free_set [OF inv'] B_free by auto
      qed
    qed
    then show ?thesis by blast
  qed
  have out: "\<forall>i. i \<notin> free_set s \<longrightarrow> buddy_page_state s1 i = buddy_page_state s i"
    using sp(4) B_free(1) by (auto simp: unlinked_def Let_def)
  have "buddy_page_state ?s' = paint_allocated f (unat order) (buddy_page_state s1)" by simp
  note ss = sets_after_alloc [OF B_free(2) out fs this]
  have "allocated_block (unat order) s f ?s'"
    unfolding allocated_block_def buddy_wf_def using inv' small B_free(2) fs ss by blast
  then show ?thesis using sp(1) mk inv' hd by blast
qed
lemma allocate_loop_correct:
  "buddy_inv {} L s \<Longrightarrow> order \<le> cur \<Longrightarrow> unat cur \<le> NORDERS \<Longrightarrow>
   (if \<forall>k. unat cur \<le> k \<and> k < NORDERS \<longrightarrow> L k = []
    then allocate_loop order cur s = Some (UINT32_MAX, s)
    else \<exists>f k L' s'. allocate_loop order cur s = Some (f, s') \<and> (f, k) \<in> heads L \<and> unat order \<le> k \<and>
      buddy_inv {} L' s' \<and> allocated_block (unat order) s f s' \<and>
      heads L' = heads L - {(f, k)} \<union> {(f + 2 ^ j, j) |j. unat order \<le> j \<and> j < k})"
proof (induction order cur s rule: allocate_loop.induct)
  case (1 order cur s)
  show ?case
  proof (cases "cur \<le> BUDDY_MAX_ORDER")
    case False
    then have "unat cur = NORDERS" using "1.prems"(3) by (simp add: BUDDY_MAX_ORDER_def word_le_nat_alt)
    then show ?thesis using False by (subst allocate_loop.simps) auto
  next
    case True
    then have c: "unat cur < NORDERS" by (simp add: BUDDY_MAX_ORDER_def word_le_nat_alt)
    then have c1: "unat (cur + 1) = Suc (unat cur)" by (simp add: unat_plus_if')
    have gl: "get_list cur s = Some (buddy_free_list s (unat cur))"
      using c by (simp add: get_list_def c_eval)
    show ?thesis
    proof (cases "buddy_free_list s (unat cur) = UINT32_MAX")
      case empty: True
      have "links_ok L s" "blocks_ok (heads L)" using "1.prems"(1) by (simp_all add: buddy_inv_def)
      then have "L (unat cur) = []"
        using links_head [of L s "unat cur"] c empty dll_not_MAX unfolding links_ok_def
        by (metis list.case(2) list.exhaust list.set_intros(1))
      then have same: "(\<forall>k. unat cur \<le> k \<and> k < NORDERS \<longrightarrow> L k = []) \<longleftrightarrow>
          (\<forall>k. unat (cur + 1) \<le> k \<and> k < NORDERS \<longrightarrow> L k = [])"
        unfolding c1 by (metis Suc_leD le_antisym not_less_eq_eq)
      have st: "allocate_loop order cur s = allocate_loop order (cur + 1) s"
        using True gl empty by (subst allocate_loop.simps) simp
      have "order \<le> cur + 1" using "1.prems"(2) c1 by (simp add: word_le_nat_alt)
      then show ?thesis
        using "1.IH" [OF True gl empty "1.prems"(1)] c c1 unfolding same st by simp
    next
      case False
      note mem = inv_head(1) [OF "1.prems"(1) c False]
      obtain L' s1 s' where t: "split_loop (buddy_free_list s (unat cur)) order cur
            (unlinked (buddy_free_list s (unat cur)) (unat cur) s) = Some s1"
        "buddy_mark_block_allocated (buddy_free_list s (unat cur)) order s1 = Some s'" "buddy_inv {} L' s'"
        "heads L' = heads L - {(buddy_free_list s (unat cur), unat cur)} \<union>
           {(buddy_free_list s (unat cur) + 2 ^ j, j) |j. unat order \<le> j \<and> j < unat cur}"
        "allocated_block (unat order) s (buddy_free_list s (unat cur)) s'"
        using take_block_correct [OF "1.prems"(1) mem "1.prems"(2)] by blast
      have "allocate_loop order cur s = Some (buddy_free_list s (unat cur), s')"
        using True False gl t(1,2) pop_free_block_eval [OF "1.prems"(1) c False]
        by (subst allocate_loop.simps) simp
      moreover have "\<not> (\<forall>k. unat cur \<le> k \<and> k < NORDERS \<longrightarrow> L k = [])"
        using inv_head(3) [OF "1.prems"(1) c False] c by auto
      ultimately show ?thesis
        using mem t(3-5) "1.prems"(2) by (auto simp: word_le_nat_alt)
    qed
  qed
qed
end
