(* ===== verification/Buddy_Free.thy ===== *)
theory Buddy_Free
  imports Buddy_Alloc
begin

text \<open>
  Orders of requests (\<open>buddy_order_from_pages\<close> is the least order that fits) and the release of
  blocks: \<open>coalesce_loop\<close> removes free buddies as long as there are any, and the block that is
  finally inserted has no free buddy left.
\<close>

section \<open>Orders\<close>

lemma order_loop_correct:
  "unat sz = 2 ^ unat order \<Longrightarrow> unat order \<le> 18 \<Longrightarrow>
   (let r = unat (order_loop pages sz order) in
      unat order \<le> r \<and> r \<le> 18 \<and> (unat pages \<le> 2 ^ r \<or> r = 18) \<and> (r = unat order \<or> 2 ^ (r - 1) < unat pages))"
proof (induction pages sz order rule: order_loop.induct)
  case (1 pages sz order)
  show ?case
  proof (cases "sz < pages \<and> order < BUDDY_MAX_ORDER")
    case False
    then show ?thesis using "1.prems"
      by (subst order_loop.simps) (auto simp: Let_def word_less_nat_alt BUDDY_MAX_ORDER_def)
  next
    case True
    then have o: "unat order < 18" "unat (order + 1) = Suc (unat order)"
      by (auto simp: word_less_nat_alt BUDDY_MAX_ORDER_def unat_plus_if')
    have "(2::nat) ^ unat order \<le> 2 ^ 18" using o by (intro power_increasing) auto
    then have "unat (push_bit 1 sz) = 2 ^ unat (order + 1)"
      using "1.prems"(1) o by (simp add: push_bit_eq_mult unat_word_ariths)
    with "1.IH" [OF True] o have ih: "let r = unat (order_loop pages (push_bit 1 sz) (order + 1)) in
       Suc (unat order) \<le> r \<and> r \<le> 18 \<and> (unat pages \<le> 2 ^ r \<or> r = 18) \<and>
       (r = Suc (unat order) \<or> 2 ^ (r - 1) < unat pages)" by simp
    then show ?thesis
      using True "1.prems"(1) by (subst order_loop.simps) (auto simp: Let_def word_less_nat_alt)
  qed
qed

lemma order_from_pages_bound: "unat (buddy_order_from_pages pages) \<le> 18"
  using order_loop_correct [of 1 0 pages] by (simp add: buddy_order_from_pages_def Let_def)

lemma order_from_pages_correct:
  assumes "unat pages \<le> 2 ^ 18"
  shows "unat pages \<le> 2 ^ unat (buddy_order_from_pages pages)"
    and "k < unat (buddy_order_from_pages pages) \<Longrightarrow> 2 ^ k < unat pages"
proof -
  let ?r = "unat (buddy_order_from_pages pages)"
  have r: "unat pages \<le> 2 ^ ?r \<or> ?r = 18" "?r = 0 \<or> 2 ^ (?r - 1) < unat pages"
    using order_loop_correct [of 1 0 pages] by (simp_all add: buddy_order_from_pages_def Let_def)
  then show "unat pages \<le> 2 ^ ?r" using assms by auto
  show "2 ^ k < unat pages" if "k < ?r"
  proof -
    have "(2::nat) ^ k \<le> 2 ^ (?r - 1)" using that by (intro power_increasing) auto
    with r(2) that show ?thesis by linarith
  qed
qed

lemma order_from_pages_1 [simp]: "buddy_order_from_pages 1 = 0"
  by (simp add: buddy_order_from_pages_def order_loop.simps)

section \<open>Release\<close>

lemma inv_free_blocks_head:
  assumes "buddy_inv H L s" "(f, k) \<in> heads L"
  shows "buddy_page_state s (unat f) = of_nat k" "unat f < NPAGES" "k < NORDERS"
  using assms block_ok_bounds(3) [of f k]
  by (auto simp: buddy_inv_def marks_ok_def blocks_ok_def heads_def)

lemma coalesce_loop_correct:
  "buddy_inv (blk (f, unat order)) L s \<Longrightarrow> block_ok (f, unat order) \<Longrightarrow>
   \<exists>f' order' L' s'. coalesce_loop f order s = Some (f', order', s') \<and>
     buddy_inv (blk (f', unat order')) L' s' \<and> block_ok (f', unat order') \<and> unat order \<le> unat order' \<and>
     heads L' \<subseteq> heads L \<and> blk (f', unat order') \<union> pages_of (heads L') = blk (f, unat order) \<union> pages_of (heads L) \<and>
     buddy_page_state s' = buddy_page_state s \<and>
     (unat order' < 18 \<longrightarrow> (f' XOR 2 ^ unat order', unat order') \<notin> heads L')"
proof (induction f order s arbitrary: L rule: coalesce_loop.induct)
  case (1 f order s)
  let ?k = "unat order" and ?b = "f XOR 2 ^ unat order"
  show ?case
  proof (cases "order < BUDDY_MAX_ORDER")
    case False
    then have "\<not> ?k < 18" by (simp add: word_less_nat_alt BUDDY_MAX_ORDER_def)
    with False "1.prems" show ?thesis
      by (subst coalesce_loop.simps) (auto intro!: exI [of _ L])
  next
    case True
    then have k: "?k < 18" "?k < 32" by (auto simp: word_less_nat_alt BUDDY_MAX_ORDER_def)
    have k1: "unat (order + 1) = Suc ?k" using k by (simp add: unat_plus_if')
    have sz: "c_shl32 1 ?k = Some (2 ^ ?k)" using k by (simp add: c_eval)
    note g = buddy_geometry [OF "1.prems"(2) k(1) refl]
    have bN: "unat ?b < NPAGES" using block_ok_bounds(3) [OF g(1)] .
    then have inr: "\<not> ucast ?b \<ge> BUDDY_MAX_PAGES" by (simp add: word_le_nat_alt NPAGES_is_max_pages)
    have gs: "get_state ?b s = Some (buddy_page_state s (unat ?b))" using bN by (simp add: get_state_def c_eval)
    have notH: "unat ?b \<notin> blk (f, ?k)" using g(2) block_nonempty [of "unat ?b" ?k] by auto
    show ?thesis
    proof (cases "buddy_page_state s (unat ?b) = order")
      case False
      have "(?b, ?k) \<notin> heads L" using inv_free_blocks_head(1) [OF "1.prems"(1)] False by auto
      then show ?thesis
        using "1.prems" True False sz inr gs
        by (subst coalesce_loop.simps) (auto simp: Let_def intro!: exI [of _ L])
    next
      case free: True
      have mem: "(?b, ?k) \<in> heads L"
        using inv_marked_head [OF "1.prems"(1) bN notH refl, of ?k] free k by simp
      let ?s = "unlinked ?b ?k s" and ?L = "L(?k := remove1 ?b (L ?k))"
      let ?m = "if f < ?b then f else ?b"
      have rm: "buddy_remove_free_block ?b order s = Some (True, ?s)"
        using remove_free_block_eval [OF "1.prems"(1) mem] .
      have hd: "heads ?L = heads L - {(?b, ?k)}"
        using heads_remove1 mem "1.prems"(1) by (auto simp: heads_def buddy_inv_def links_ok_def)
      have pg: "pages_of (heads ?L) = pages_of (heads L) - blk (?b, ?k)"
        unfolding hd using pages_of_remove mem "1.prems"(1) by (auto simp: buddy_inv_def)
      have inv: "buddy_inv (blk (?m, unat (order + 1))) ?L ?s"
        using inv_unlinked [OF "1.prems"(1) mem] g(4) unfolding k1 by simp
      have ok: "block_ok (?m, unat (order + 1))" using g(3) unfolding k1 .
      obtain f' order' L' s' where ih: "coalesce_loop ?m (order + 1) ?s = Some (f', order', s')"
        "buddy_inv (blk (f', unat order')) L' s'" "block_ok (f', unat order')" "unat (order + 1) \<le> unat order'"
        "heads L' \<subseteq> heads ?L"
        "blk (f', unat order') \<union> pages_of (heads L') = blk (?m, unat (order + 1)) \<union> pages_of (heads ?L)"
        "buddy_page_state s' = buddy_page_state ?s"
        "unat order' < 18 \<longrightarrow> (f' XOR 2 ^ unat order', unat order') \<notin> heads L'"
        using "1.IH" [OF True sz refl inr gs _ rm refl _ inv ok] free by blast
      have "coalesce_loop f order s = Some (f', order', s')"
        using True sz inr gs free rm ih(1) by (subst coalesce_loop.simps) (simp add: Let_def)
      moreover have "blk (f', unat order') \<union> pages_of (heads L') = blk (f, ?k) \<union> pages_of (heads L)"
        using ih(6) g(4) pg blk_subset_pages [OF mem] unfolding k1 by auto
      moreover have "buddy_page_state s' = buddy_page_state s" using ih(7) by (simp add: unlinked_def Let_def)
      moreover have "?k \<le> unat order'" "heads L' \<subseteq> heads L" using ih(4,5) k1 hd by auto
      ultimately show ?thesis using ih(2,3,8) by blast
    qed
  qed
qed
text \<open>What a release of the block of order \<open>k\<close> at frame \<open>f\<close> does to the allocator.\<close>

definition released_block :: "nat \<Rightarrow> u32 \<Rightarrow> buddy_state \<Rightarrow> buddy_state \<Rightarrow> bool" where
  "released_block k f s s' \<longleftrightarrow> buddy_wf s' \<and> free_set s' = free_set s \<union> blk (f, k) \<and>
     allocated_set s' = allocated_set s - blk (f, k) \<and> reserved_set s' = reserved_set s"

lemma release_block_correct:
  assumes inv: "buddy_inv {} L s" and ok: "block_ok (f, unat order)" and al: "blk (f, unat order) \<subseteq> allocated_set s"
  shows "\<exists>f' order' L' s1 s'. coalesce_loop f order s = Some (f', order', s1) \<and>
     buddy_add_free_block f' order' s1 = Some s' \<and> buddy_inv {} (L'(unat order' := f' # L' (unat order'))) s' \<and>
     heads L' \<subseteq> heads L \<and> unat order \<le> unat order' \<and> block_ok (f', unat order') \<and>
     (unat order' < 18 \<longrightarrow> (f' XOR 2 ^ unat order', unat order') \<notin> heads L') \<and>
     released_block (unat order) f s s'"
proof -
  let ?b = "blk (f, unat order)"
  have alloc: "\<And>i. i \<in> ?b \<Longrightarrow> in_use (buddy_page_state s i)" using al by (auto simp: allocated_set_def in_use_def)
  then have "?b \<inter> pages_of (heads L) = {}" using inv_free_set [OF inv] by (auto simp: free_set_def)
  then have inv1: "buddy_inv ?b L s" using inv_weaken [OF inv] by blast
  obtain f' order' L' s1 where c: "coalesce_loop f order s = Some (f', order', s1)"
    "buddy_inv (blk (f', unat order')) L' s1" "block_ok (f', unat order')" "unat order \<le> unat order'"
    "heads L' \<subseteq> heads L" "blk (f', unat order') \<union> pages_of (heads L') = ?b \<union> pages_of (heads L)"
    "buddy_page_state s1 = buddy_page_state s"
    "unat order' < 18 \<longrightarrow> (f' XOR 2 ^ unat order', unat order') \<notin> heads L'"
    using coalesce_loop_correct [OF inv1 ok] by blast
  let ?s = "linked f' (unat order') s1" and ?L = "L'(unat order' := f' # L' (unat order'))"
  have add: "buddy_add_free_block f' order' s1 = Some ?s" using add_free_block_eval [OF c(2,3)] .
  have "blk (f', unat order') \<inter> pages_of (heads L') = {}" using c(2) by (simp add: buddy_inv_def)
  then have inv': "buddy_inv {} ?L ?s" using inv_linked [OF c(2,3)] by simp
  have fs: "free_set ?s = free_set s \<union> ?b"
    using inv_free_set [OF inv'] inv_free_set [OF inv] c(6) heads_Cons [of "unat order'" L' f'] block_ok_bounds(1) [OF c(3)]
    by auto
  have ps: "buddy_page_state ?s i = buddy_page_state s i" if "i \<notin> free_set ?s" for i
  proof -
    have "i \<notin> blk (f', unat order')" using that fs c(6) inv_free_set [OF inv] by auto
    then show ?thesis using c(7) by (auto simp: linked_def Let_def paint_free_def)
  qed
  have rest: "i \<in> allocated_set ?s \<longleftrightarrow> i \<in> allocated_set s - ?b" "i \<in> reserved_set ?s \<longleftrightarrow> i \<in> reserved_set s" for i
  proof -
    have ne: "BUDDY_PAGE_STATE_ALLOCATED \<noteq> BUDDY_PAGE_STATE_RESERVED" by (simp add: buddy_consts)
    have 1: "i \<in> free_set ?s \<Longrightarrow> \<not> in_use (buddy_page_state ?s i)" by (simp add: free_set_def)
    have 2: "i \<in> free_set s \<Longrightarrow> \<not> in_use (buddy_page_state s i)" by (simp add: free_set_def)
    show "i \<in> allocated_set ?s \<longleftrightarrow> i \<in> allocated_set s - ?b" "i \<in> reserved_set ?s \<longleftrightarrow> i \<in> reserved_set s"
      using 1 2 ps [of i] al ne unfolding fs
      by (cases "i \<in> free_set s"; cases "i \<in> ?b"; auto simp: allocated_set_def reserved_set_def in_use_def)+
  qed
  have "released_block (unat order) f s ?s"
    unfolding released_block_def buddy_wf_def using inv' fs rest by blast
  then show ?thesis using c add inv' by blast
qed
end
