(* ===== verification/Buddy_Init.thy ===== *)
theory Buddy_Init
  imports Buddy_Free
begin

text \<open>
  Initialisation: the tables after \<open>buddy_reset\<close>, the greedy decomposition of a range into
  aligned blocks (\<open>buddy_add_range\<close>), the rounding of a memory map entry to whole frames and the
  loop over the map.  \<open>usable_frames\<close> is the specification: the frames below 1 GiB that lie
  wholly inside a usable entry.
\<close>

section \<open>Reset\<close>

lemma reset_pages_loop_eval:
  "reset_pages_loop i s = Some (s\<lparr>
     buddy_page_state := fill (unat i) NPAGES BUDDY_PAGE_STATE_RESERVED (buddy_page_state s),
     buddy_free_next := fill (unat i) NPAGES UINT32_MAX (buddy_free_next s),
     buddy_free_prev := fill (unat i) NPAGES UINT32_MAX (buddy_free_prev s)\<rparr>)"
proof (induction i s rule: reset_pages_loop.induct)
  case (1 i s)
  show ?case
  proof (cases "ucast i < BUDDY_MAX_PAGES")
    case False
    then have "\<not> unat i < NPAGES" by (simp add: word_less_nat_alt NPAGES_is_max_pages)
    with False show ?thesis by (subst reset_pages_loop.simps) (simp add: fill_empty)
  next
    case True
    then have i: "unat i < NPAGES" by (simp add: word_less_nat_alt NPAGES_is_max_pages)
    then have i1: "unat (i + 1) = Suc (unat i)" by (simp add: unat_plus_if')
    let ?s1 = "s\<lparr>buddy_page_state := (buddy_page_state s)(unat i := BUDDY_PAGE_STATE_RESERVED)\<rparr>"
    let ?s2 = "?s1\<lparr>buddy_free_next := (buddy_free_next s)(unat i := UINT32_MAX)\<rparr>"
    let ?s3 = "?s2\<lparr>buddy_free_prev := (buddy_free_prev s)(unat i := UINT32_MAX)\<rparr>"
    have s: "set_state i BUDDY_PAGE_STATE_RESERVED s = Some ?s1"
      "set_next i UINT32_MAX ?s1 = Some ?s2" "set_prev i UINT32_MAX ?s2 = Some ?s3"
      using i by (simp_all add: buddy_access c_eval)
    have "reset_pages_loop i s = reset_pages_loop (i + 1) ?s3"
      using True s by (subst reset_pages_loop.simps) simp
    then show ?thesis using "1.IH" [OF True s] i by (simp add: i1 fill_step)
  qed
qed

lemma reset_lists_loop_eval:
  "reset_lists_loop i s = Some (s\<lparr>
     buddy_free_list := fill (unat i) NORDERS UINT32_MAX (buddy_free_list s)\<rparr>)"
proof (induction i s rule: reset_lists_loop.induct)
  case (1 i s)
  show ?case
  proof (cases "i \<le> ucast BUDDY_MAX_ORDER")
    case False
    then have "\<not> unat i < NORDERS" by (simp add: word_le_nat_alt BUDDY_MAX_ORDER_def)
    with False show ?thesis by (subst reset_lists_loop.simps) (simp add: fill_empty)
  next
    case True
    then have i: "unat i < NORDERS" by (simp add: word_le_nat_alt BUDDY_MAX_ORDER_def)
    then have i1: "unat (i + 1) = Suc (unat i)" by (simp add: unat_plus_if')
    have u: "unat (ucast i :: u8) = unat i" using i by (simp add: unsigned_ucast_eq take_bit_nat_eq_self)
    have s: "set_list (ucast i) UINT32_MAX s =
        Some (s\<lparr>buddy_free_list := (buddy_free_list s)(unat i := UINT32_MAX)\<rparr>)" (is "_ = Some ?s1")
      using i u by (simp add: buddy_access c_eval)
    have "reset_lists_loop i s = reset_lists_loop (i + 1) ?s1"
      using True s by (subst reset_lists_loop.simps) simp
    then show ?thesis using "1.IH" [OF True s] i by (simp add: i1 fill_step)
  qed
qed

lemma buddy_reset_correct:
  "\<exists>s'. buddy_reset s = Some s' \<and> buddy_inv {} (\<lambda>_. []) s' \<and> (\<forall>i<NPAGES. buddy_page_state s' i = BUDDY_PAGE_STATE_RESERVED)"
  by (auto simp: buddy_reset_def reset_pages_loop_eval reset_lists_loop_eval fill_def buddy_inv_def links_ok_def
      blocks_ok_def marks_ok_def heads_def in_use_def)

section \<open>Adding a range\<close>

lemma and_mask_zero_iff: "k < 32 \<Longrightarrow> (f :: u32) AND (2 ^ k - 1) = 0 \<longleftrightarrow> 2 ^ k dvd unat f"
proof -
  assume k: "k < 32"
  have "f AND (2 ^ k - 1) = take_bit k f" by (simp add: take_bit_eq_mask mask_eq_exp_minus_1)
  moreover have "unat (take_bit k f) = take_bit k (unat f)" by (rule unsigned_take_bit_eq)
  then have "unat (take_bit k f) = unat f mod 2 ^ k" by (simp add: take_bit_nat_def)
  ultimately show ?thesis by (metis dvd_eq_mod_eq_0 unat_eq_zero)
qed

lemma range_order_found:
  "0 < pages \<Longrightarrow> unat order < 32 \<Longrightarrow>
   \<exists>k. range_order f pages order = Some k \<and> unat k \<le> unat order \<and>
     (\<forall>j. unat k < j \<and> j \<le> unat order \<longrightarrow> \<not> (2 ^ j \<le> unat pages \<and> 2 ^ j dvd unat f))"
proof (induction f pages order rule: range_order.induct)
  case (1 f pages order)
  let ?sz = "2 ^ unat order :: u32"
  have sz: "c_shl32 1 (unat order) = Some ?sz" using "1.prems" by (simp add: c_eval)
  show ?case
  proof (cases "?sz > pages \<or> f AND (?sz - 1) \<noteq> 0")
    case False
    then have "range_order f pages order = Some order" using sz by (subst range_order.simps) simp
    then show ?thesis by auto
  next
    case True
    have nz: "unat order \<noteq> 0"
    proof
      assume "unat order = 0"
      with True "1.prems"(1) show False by (auto simp: word_less_nat_alt simp del: unat_eq_zero)
    qed
    then have o: "unat (order - 1) = unat order - 1" by (simp add: unat_sub_if')
    have bad: "\<not> (2 ^ unat order \<le> unat pages \<and> 2 ^ unat order dvd unat f)"
      using True "1.prems"(2) and_mask_zero_iff [of "unat order" f] by (auto simp: word_less_nat_alt)
    obtain k where k: "range_order f pages (order - 1) = Some k" "unat k \<le> unat (order - 1)"
      "\<forall>j. unat k < j \<and> j \<le> unat (order - 1) \<longrightarrow> \<not> (2 ^ j \<le> unat pages \<and> 2 ^ j dvd unat f)"
      using "1.IH" [OF sz True "1.prems"(1)] less_imp_diff_less [OF "1.prems"(2)] unfolding o by blast
    have "range_order f pages order = Some k" using True sz k(1) by (subst range_order.simps) simp
    moreover have "\<not> (2 ^ j \<le> unat pages \<and> 2 ^ j dvd unat f)" if "unat k < j" "j \<le> unat order" for j
      using that k(3) bad o by (cases "j = unat order") auto
    ultimately show ?thesis using k(2) o by auto
  qed
qed

lemma range_block_ok:
  assumes "range_order f pages BUDDY_MAX_ORDER = Some k" "0 < pages" "unat f + unat pages \<le> NPAGES"
  shows "block_ok (f, unat k)" "2 ^ unat k \<le> unat pages" "unat k < 32"
proof -
  have "unat k < 32 \<and> 2 ^ unat k \<le> unat pages \<and> f AND (2 ^ unat k - 1) = 0"
    using range_order_fits [OF assms(1)] by simp
  then show "block_ok (f, unat k)" "2 ^ unat k \<le> unat pages" "unat k < 32"
    using range_order_found [OF assms(2), of BUDDY_MAX_ORDER f] assms and_mask_zero_iff [of "unat k" f]
    by (auto simp: BUDDY_MAX_ORDER_def)
qed

lemma add_range_correct:
  "buddy_inv {} L s \<Longrightarrow> unat f + unat pages \<le> NPAGES \<Longrightarrow>
   {unat f ..< unat f + unat pages} \<inter> pages_of (heads L) = {} \<Longrightarrow>
   \<exists>L' s'. buddy_add_range f pages s = Some s' \<and> buddy_inv {} L' s' \<and>
     pages_of (heads L') = pages_of (heads L) \<union> {unat f ..< unat f + unat pages} \<and>
     (\<forall>i. i \<notin> {unat f ..< unat f + unat pages} \<longrightarrow> buddy_page_state s' i = buddy_page_state s i)"
proof (induction f pages s arbitrary: L rule: buddy_add_range.induct)
  case (1 f pages s)
  show ?case
  proof (cases "pages > 0")
    case False
    then have "pages = 0" by (simp add: word_gt_0)
    then show ?thesis using "1.prems" by (subst buddy_add_range.simps) (auto intro!: exI [of _ L])
  next
    case True
    obtain k where k: "range_order f pages BUDDY_MAX_ORDER = Some k"
      using range_order_found [OF True, of BUDDY_MAX_ORDER f] by (auto simp: BUDDY_MAX_ORDER_def)
    note b = range_block_ok [OF k True "1.prems"(2)]
    have sz: "c_shl32 1 (unat k) = Some (2 ^ unat k)" using b(3) by (simp add: c_eval)
    let ?s = "linked f (unat k) s" and ?L = "L(unat k := f # L (unat k))"
    have add: "buddy_add_free_block f k s = Some ?s" using add_free_block_eval [OF "1.prems"(1) b(1)] .
    have sub: "blk (f, unat k) \<subseteq> {unat f ..< unat f + unat pages}" using b(2) by (auto simp: block_def)
    then have disj: "blk (f, unat k) \<inter> pages_of (heads L) = {}" using "1.prems"(3) by blast
    have inv: "buddy_inv {} ?L ?s" using inv_linked [OF "1.prems"(1) b(1) disj] by simp
    have hd: "pages_of (heads ?L) = blk (f, unat k) \<union> pages_of (heads L)"
      using heads_Cons [of "unat k" L f] block_ok_bounds(1) [OF b(1)] by simp
    have f1: "unat (f + 2 ^ unat k) = unat f + 2 ^ unat k" using block_ok_bounds(7) [OF b(1)] .
    have p1: "unat (pages - 2 ^ unat k) = unat pages - 2 ^ unat k" using b by (simp add: unat_sub_if')
    have rng: "{unat f ..< unat f + unat pages} =
        blk (f, unat k) \<union> {unat (f + 2 ^ unat k) ..< unat (f + 2 ^ unat k) + unat (pages - 2 ^ unat k)}"
      unfolding f1 p1 using b(2) by (auto simp: block_def)
    have le: "unat (f + 2 ^ unat k) + unat (pages - 2 ^ unat k) \<le> NPAGES"
      unfolding f1 p1 using b(2) "1.prems"(2) by linarith
    have dj: "{unat (f + 2 ^ unat k) ..< unat (f + 2 ^ unat k) + unat (pages - 2 ^ unat k)} \<inter> pages_of (heads ?L) = {}"
      unfolding hd using "1.prems"(3) rng by (auto simp: f1 block_def)
    obtain L' s' where ih: "buddy_add_range (f + 2 ^ unat k) (pages - 2 ^ unat k) ?s = Some s'" "buddy_inv {} L' s'"
      "pages_of (heads L') = pages_of (heads ?L) \<union>
         {unat (f + 2 ^ unat k) ..< unat (f + 2 ^ unat k) + unat (pages - 2 ^ unat k)}"
      "\<forall>i. i \<notin> {unat (f + 2 ^ unat k) ..< unat (f + 2 ^ unat k) + unat (pages - 2 ^ unat k)} \<longrightarrow>
         buddy_page_state s' i = buddy_page_state ?s i"
      using "1.IH" [OF True k add sz inv le dj] by blast
    have "buddy_add_range f pages s = Some s'"
      using True k add sz ih(1) by (subst buddy_add_range.simps) simp
    moreover have "buddy_page_state s' i = buddy_page_state s i" if "i \<notin> {unat f ..< unat f + unat pages}" for i
      using ih(4) that sub unfolding rng
      by (auto simp: linked_def Let_def paint_free_def)
    ultimately show ?thesis using ih(2,3) hd rng by auto
  qed
qed
section \<open>The memory map\<close>

lemma and_not_mask_eq: "(x :: 'a::len word) AND NOT (2 ^ n - 1) = push_bit n (drop_bit n x)"
  unfolding mask_eq_exp_minus_1 [symmetric]
  by (rule bit_word_eqI) (auto simp: bit_simps not_le)

lemma unat_align_down: "unat (buddy_align_down x BUDDY_PAGE_SIZE) = unat x div 4096 * 4096"
proof -
  have "BUDDY_PAGE_SIZE = 2 ^ 12" by (simp add: BUDDY_PAGE_SIZE_def)
  then have "buddy_align_down x BUDDY_PAGE_SIZE = push_bit 12 (drop_bit 12 x)"
    unfolding buddy_align_down_def by (simp only: \<open>BUDDY_PAGE_SIZE = 2 ^ 12\<close> and_not_mask_eq)
  moreover have x: "unat x < 2 ^ 64" using unat_less_2p [of x] by simp
  then have "unat x div 2 ^ 12 < 2 ^ 52" by (simp add: div_less_iff_less_mult)
  with x have "unat (push_bit 12 (drop_bit 12 x)) = push_bit 12 (drop_bit 12 (unat x))"
    by (simp add: unsigned_push_bit_eq unsigned_drop_bit_eq take_bit_push_bit take_bit_nat_eq_self drop_bit_eq_div unat_div)
  ultimately show ?thesis by (simp add: push_bit_eq_mult drop_bit_eq_div)
qed

lemma unat_align_up:
  assumes "unat x + 4095 < 2 ^ 64"
  shows "unat (buddy_align_up x BUDDY_PAGE_SIZE) = (unat x + 4095) div 4096 * 4096"
proof -
  have "buddy_align_up x BUDDY_PAGE_SIZE = buddy_align_down (x + 4095) BUDDY_PAGE_SIZE"
    by (simp add: buddy_align_up_def buddy_align_down_def BUDDY_PAGE_SIZE_def add.commute)
  moreover have "unat (x + 4095) = unat x + 4095" using assms by (simp add: unat_plus_if')
  ultimately show ?thesis by (simp add: unat_align_down)
qed

definition entry_frames :: "limine_memmap_entry \<Rightarrow> nat set" where
  "entry_frames e = (if mm_type e = LIMINE_MEMMAP_USABLE
     then {i. i < NPAGES \<and> unat (mm_base e) \<le> i * 4096 \<and> (i + 1) * 4096 \<le> unat (mm_base e) + unat (mm_length e)}
     else {})"

definition entry_ok :: "limine_memmap_entry \<Rightarrow> bool" where
  "entry_ok e \<longleftrightarrow> unat (mm_base e) + unat (mm_length e) + 4095 < 2 ^ 64"

lemma frames_interval:
  "{i. i < NPAGES \<and> b \<le> i * 4096 \<and> (i + 1) * 4096 \<le> (t :: nat)} = {(b + 4095) div 4096 ..< min NPAGES (t div 4096)}"
  by (auto simp: less_eq_div_iff_mult_less_eq)

lemma init_entry_correct:
  assumes inv: "buddy_inv {} L s" and ok: "entry_ok e" and disj: "entry_frames e \<inter> pages_of (heads L) = {}"
  shows "\<exists>L' s'. init_entry (Some e) s = Some s' \<and> buddy_inv {} L' s' \<and>
     pages_of (heads L') = pages_of (heads L) \<union> entry_frames e \<and>
     (\<forall>i. i \<notin> entry_frames e \<longrightarrow> buddy_page_state s' i = buddy_page_state s i)"
proof (cases "mm_type e = LIMINE_MEMMAP_USABLE")
  case False
  then show ?thesis using inv by (auto simp: init_entry_def entry_frames_def intro!: exI [of _ L])
next
  case True
  define b t where "b = (unat (mm_base e) + 4095) div 4096" and "t = (unat (mm_base e) + unat (mm_length e)) div 4096"
  let ?st = "buddy_align_up (mm_base e) BUDDY_PAGE_SIZE"
  let ?en = "buddy_align_down (mm_base e + mm_length e) BUDDY_PAGE_SIZE"
  have fr: "entry_frames e = {b ..< min NPAGES t}"
    using True unfolding entry_frames_def b_def t_def by (simp only: frames_interval if_True simp_thms)
  have st: "unat ?st = b * 4096" using ok by (simp add: unat_align_up entry_ok_def b_def)
  have en: "unat ?en = t * 4096"
    using ok by (simp add: unat_align_down entry_ok_def t_def unat_plus_if')
  have P: "unat BUDDY_PAGE_SIZE = 4096" by (simp add: BUDDY_PAGE_SIZE_def)
  have ff: "unat (?st div BUDDY_PAGE_SIZE) = b" "unat (?en div BUDDY_PAGE_SIZE) = t"
    using st en P by (simp_all add: unat_div)
  show ?thesis
  proof (cases "?en \<le> ?st \<or> ?st div BUDDY_PAGE_SIZE \<ge> BUDDY_MAX_PAGES")
    case skip: True
    then have "entry_frames e = {}"
      using st en ff unfolding fr by (auto simp: word_le_nat_alt NPAGES_is_max_pages)
    moreover have "init_entry (Some e) s = Some s" using True skip by (auto simp: init_entry_def Let_def)
    ultimately show ?thesis using inv by (auto intro!: exI [of _ L])
  next
    case False
    then have bt: "b < t" "b < NPAGES"
      using st en ff by (auto simp: word_le_nat_alt NPAGES_is_max_pages not_le)
    let ?last = "if ?en div BUDDY_PAGE_SIZE > BUDDY_MAX_PAGES then BUDDY_MAX_PAGES else ?en div BUDDY_PAGE_SIZE"
    have last: "unat ?last = min NPAGES t"
      using ff by (auto simp: word_less_nat_alt NPAGES_is_max_pages)
    have fst: "unat (ucast (?st div BUDDY_PAGE_SIZE) :: u32) = b"
      using ff bt by (simp add: unsigned_ucast_eq take_bit_nat_eq_self)
    have "unat (?last - ?st div BUDDY_PAGE_SIZE) = min NPAGES t - b"
      using last ff bt by (simp add: unat_sub_if')
    then have cnt: "unat (ucast (?last - ?st div BUDDY_PAGE_SIZE) :: u32) = min NPAGES t - b"
      by (simp add: unsigned_ucast_eq take_bit_nat_eq_self)
    have ev: "init_entry (Some e) s = buddy_add_range (ucast (?st div BUDDY_PAGE_SIZE)) (ucast (?last - ?st div BUDDY_PAGE_SIZE)) s"
      using True False by (simp add: init_entry_def Let_def)
    have sum: "b + (min NPAGES t - b) = min NPAGES t" using bt by simp
    show ?thesis
      using add_range_correct [OF inv, of "ucast (?st div BUDDY_PAGE_SIZE)" "ucast (?last - ?st div BUDDY_PAGE_SIZE)"] disj
      unfolding ev fst cnt sum fr by auto
  qed
qed
text \<open>The entries of the map, processed in order.\<close>

fun init_entries :: "limine_memmap_entry option list \<Rightarrow> buddy_state \<Rightarrow> buddy_state option" where
  "init_entries [] s = Some s"
| "init_entries (e # es) s = do { s \<leftarrow> init_entry e s; init_entries es s }"

lemma init_loop_entries:
  "unat count = length es \<Longrightarrow> i \<le> count \<Longrightarrow> init_loop i count es s = init_entries (drop (unat i) es) s"
proof (induction i count es s rule: init_loop.induct)
  case (1 i count es s)
  show ?case
  proof (cases "i < count")
    case False
    with "1.prems" have "unat i = length es" by simp
    with False show ?thesis by (subst init_loop.simps) simp
  next
    case True
    then have i: "unat i < length es" "unat (i + 1) = Suc (unat i)"
      using "1.prems"(1) unat_Suc_less [OF True] by (auto simp: word_less_nat_alt)
    have le: "i + 1 \<le> count" using True i by (simp add: word_le_nat_alt word_less_nat_alt)
    have "init_loop i count es s = do { s \<leftarrow> init_entry (es ! unat i) s; init_loop (i + 1) count es s }"
      using True i by (subst init_loop.simps) simp
    also have "\<dots> = do { s \<leftarrow> init_entry (es ! unat i) s; init_entries (drop (Suc (unat i)) es) s }"
      using "1.IH" [OF True _ _ "1.prems"(1) le] i by (intro Option.bind_cong) auto
    also have "\<dots> = init_entries (drop (unat i) es) s"
      using i by (simp add: Cons_nth_drop_Suc [symmetric])
    finally show ?thesis .
  qed
qed

definition usable_frames :: "limine_memmap_entry option list \<Rightarrow> nat set" where
  "usable_frames es = (\<Union>e\<in>set es. case e of None \<Rightarrow> {} | Some e \<Rightarrow> entry_frames e)"

text \<open>
  What the boot protocol promises of the map: no entry runs past the end of the address space and
  the usable entries do not overlap.
\<close>

fun memmap_ok :: "limine_memmap_entry option list \<Rightarrow> bool" where
  "memmap_ok [] \<longleftrightarrow> True"
| "memmap_ok (None # es) \<longleftrightarrow> memmap_ok es"
| "memmap_ok (Some e # es) \<longleftrightarrow> entry_ok e \<and> entry_frames e \<inter> usable_frames es = {} \<and> memmap_ok es"

lemma init_entries_correct:
  "buddy_inv {} L s \<Longrightarrow> memmap_ok es \<Longrightarrow> usable_frames es \<inter> pages_of (heads L) = {} \<Longrightarrow>
   \<exists>L' s'. init_entries es s = Some s' \<and> buddy_inv {} L' s' \<and>
     pages_of (heads L') = pages_of (heads L) \<union> usable_frames es \<and>
     (\<forall>i. i \<notin> usable_frames es \<longrightarrow> buddy_page_state s' i = buddy_page_state s i)"
proof (induction es arbitrary: L s rule: memmap_ok.induct)
  case 1
  then show ?case by (auto simp: usable_frames_def)
next
  case (2 es)
  then show ?case by (auto simp: init_entry_def usable_frames_def)
next
  case (3 e es)
  have uf: "usable_frames (Some e # es) = entry_frames e \<union> usable_frames es" by (simp add: usable_frames_def)
  have e: "entry_ok e" "entry_frames e \<inter> pages_of (heads L) = {}" using "3.prems" unfolding uf by auto
  obtain L1 s1 where s1: "init_entry (Some e) s = Some s1" "buddy_inv {} L1 s1"
    "pages_of (heads L1) = pages_of (heads L) \<union> entry_frames e"
    "\<forall>i. i \<notin> entry_frames e \<longrightarrow> buddy_page_state s1 i = buddy_page_state s i"
    using init_entry_correct [OF "3.prems"(1) e] by blast
  have "memmap_ok es" "usable_frames es \<inter> pages_of (heads L1) = {}"
    using "3.prems" unfolding s1(3) uf by auto
  then obtain L' s' where "init_entries es s1 = Some s'" "buddy_inv {} L' s'"
    "pages_of (heads L') = pages_of (heads L1) \<union> usable_frames es"
    "\<forall>i. i \<notin> usable_frames es \<longrightarrow> buddy_page_state s' i = buddy_page_state s1 i"
    using "3.IH" [OF s1(2)] by blast
  then show ?case using s1 unfolding uf by (auto simp: Un_assoc)
qed

lemma buddy_init_correct:
  assumes "memmap_ok es" "unat n = length es"
  shows "\<exists>L' s'. buddy_init (Some \<lparr>entry_count = n, entries = Some es\<rparr>) s = Some s' \<and> buddy_inv {} L' s' \<and>
    free_set s' = usable_frames es \<and> allocated_set s' = {} \<and> reserved_set s' = {..<NPAGES} - usable_frames es"
proof -
  obtain s0 where s0: "buddy_reset s = Some s0" "buddy_inv {} (\<lambda>_. []) s0"
    "\<forall>i<NPAGES. buddy_page_state s0 i = BUDDY_PAGE_STATE_RESERVED"
    using buddy_reset_correct by blast
  have e: "pages_of (heads (\<lambda>_. [])) = {}" by (simp add: heads_def pages_of_def)
  obtain L' s' where s': "init_entries es s0 = Some s'" "buddy_inv {} L' s'" "pages_of (heads L') = usable_frames es"
    "\<forall>i. i \<notin> usable_frames es \<longrightarrow> buddy_page_state s' i = buddy_page_state s0 i"
    using init_entries_correct [OF s0(2) assms(1)] unfolding e by auto
  have "buddy_init (Some \<lparr>entry_count = n, entries = Some es\<rparr>) s = Some s'"
    using s0(1) s'(1) assms(2) init_loop_entries [of n es 0 s0]
    by (cases "n = 0") (auto simp: buddy_init_def)
  moreover have fs: "free_set s' = usable_frames es" using inv_free_set [OF s'(2)] s'(3) by simp
  have "buddy_page_state s' i = BUDDY_PAGE_STATE_RESERVED" if "i < NPAGES" "i \<notin> usable_frames es" for i
    using that s0(3) s'(4) by simp
  then have "allocated_set s' = {} \<and> reserved_set s' = {..<NPAGES} - usable_frames es"
    using fs unfolding page_sets by (auto simp: in_use_def buddy_consts) 
  ultimately show ?thesis using s'(2) fs by blast
qed
end
