(* ===== verification/Buddy_Coalesce.thy ===== *)
theory Buddy_Coalesce
  imports Buddy_Init
begin

text \<open>
  Coalescing: \<open>coalesced\<close> says that no two buddies are free at the same time.  Splitting and
  releasing keep it; under it an aligned run of free pages always lies inside one free block,
  so that an allocation fails only when there is no such run; and releasing a block right after
  its allocation merges back exactly the block it was cut from.
\<close>

section \<open>The free blocks, read from the page table\<close>

definition free_blocks :: "buddy_state \<Rightarrow> (u32 \<times> nat) set" where
  "free_blocks s = {(f, k). k < NORDERS \<and> unat f < NPAGES \<and> buddy_page_state s (unat f) = of_nat k}"

lemma inv_heads: "buddy_inv {} L s \<Longrightarrow> heads L = free_blocks s"
proof -
  assume inv: "buddy_inv {} L s"
  have "(f, k) \<in> heads L \<longleftrightarrow> k < NORDERS \<and> unat f < NPAGES \<and> buddy_page_state s (unat f) = of_nat k" for f k
    using inv_free_blocks_head [OF inv, of f k] inv_marked_head [OF inv _ _ refl, of f k] by blast
  then show ?thesis unfolding free_blocks_def by blast
qed

definition coalesced :: "(u32 \<times> nat) set \<Rightarrow> bool" where
  "coalesced B \<longleftrightarrow> (\<forall>(f, k)\<in>B. k < 18 \<longrightarrow> (f XOR 2 ^ k, k) \<notin> B)"

lemma coalescedD: "coalesced B \<Longrightarrow> (f, k) \<in> B \<Longrightarrow> k < 18 \<Longrightarrow> (f XOR 2 ^ k, k) \<notin> B"
  by (auto simp: coalesced_def)

lemma xor_xor_word [simp]: "((f :: u32) XOR a) XOR a = f"
  by (simp add: xor.assoc)

lemma lower_buddy: "block_ok (f, Suc k) \<Longrightarrow> f XOR 2 ^ k = f + 2 ^ k"
proof -
  assume ok: "block_ok (f, Suc k)"
  then obtain q where "unat f = 2 ^ Suc k * q" by (auto elim: dvdE)
  then have "even (unat f div 2 ^ k)" by (simp add: mult.assoc)
  moreover have "k < 32" using ok by simp
  ultimately have "unat (f XOR 2 ^ k) = unat f + 2 ^ k" by (simp add: unat_xor_power)
  moreover have "unat (f + 2 ^ k) = unat f + 2 ^ k"
    using block_ok_bounds(7) [OF split_geometry(1) [OF ok]] .
  ultimately show ?thesis by (metis unat_inj_iff)
qed

lemma half_buddy:
  assumes "block_ok (f, K)" "j < K"
  shows "(f + 2 ^ j) XOR 2 ^ j = f" "f XOR 2 ^ j = f + 2 ^ j" "f + 2 ^ j \<noteq> f"
proof -
  have ok: "block_ok (f, Suc j)" using shrink_block [OF assms(1), of "Suc j"] assms(2) by simp
  show "f XOR 2 ^ j = f + 2 ^ j" using lower_buddy [OF ok] .
  then show "(f + 2 ^ j) XOR 2 ^ j = f" by (metis xor_xor_word)
  show "f + 2 ^ j \<noteq> f" using block_ok_bounds(7) [OF split_geometry(1) [OF ok]] by (metis add_cancel_right_right power_eq_0_iff zero_neq_numeral)
qed

abbreviation halves :: "u32 \<Rightarrow> nat \<Rightarrow> nat \<Rightarrow> (u32 \<times> nat) set" where
  "halves f k K \<equiv> {(f + 2 ^ j, j) |j. k \<le> j \<and> j < K}"

lemma coalesced_split:
  assumes "blocks_ok B" "(f, K) \<in> B" "coalesced B"
  shows "coalesced (B - {(f, K)} \<union> halves f k K)"
proof -
  have ok: "block_ok (f, K)" using assms blocks_ok_member by blast
  have no_f: "(f, j) \<notin> B" if "j < K" for j using same_head [OF assms(1,2)] that by blast
  show ?thesis
    unfolding coalesced_def
  proof (clarify)
    fix g i
    assume g: "(g, i) \<in> B - {(f, K)} \<union> halves f k K" and i: "i < 18"
      and b: "(g XOR 2 ^ i, i) \<in> B - {(f, K)} \<union> halves f k K"
    show False
    proof (cases "(g, i) \<in> B")
      case True
      then have "(g XOR 2 ^ i, i) \<notin> B" using coalescedD assms(3) i by blast
      with b have "g XOR 2 ^ i = f + 2 ^ i" "i < K" by auto
      then have "g = f" using half_buddy(1) [OF ok] by (metis xor_xor_word)
      with True no_f \<open>i < K\<close> show False by blast
    next
      case False
      with g have "g = f + 2 ^ i" "i < K" by auto
      then have "g XOR 2 ^ i = f" using half_buddy(1) [OF ok] by simp
      with b no_f \<open>i < K\<close> half_buddy(3) [OF ok \<open>i < K\<close>] show False by auto
    qed
  qed
qed

lemma coalesced_insert:
  assumes "coalesced B" "C \<subseteq> B" "k < 18 \<longrightarrow> (f XOR 2 ^ k, k) \<notin> C" "k < NORDERS"
  shows "coalesced (insert (f, k) C)"
  unfolding coalesced_def
proof (clarify)
  fix g i
  assume g: "(g, i) \<in> insert (f, k) C" "i < 18" and b: "(g XOR 2 ^ i, i) \<in> insert (f, k) C"
  have ne: "g XOR 2 ^ i \<noteq> g"
  proof
    assume "g XOR 2 ^ i = g"
    then have "g XOR (g XOR 2 ^ i) = g XOR g" by simp
    then have "(2 :: u32) ^ i = 0" by (simp flip: xor.assoc)
    then show False using g(2) unat_2_power_32 [of i] by simp
  qed
  have c: "(h, j) \<in> C \<Longrightarrow> j < 18 \<Longrightarrow> (h XOR 2 ^ j, j) \<notin> C" for h j
    using assms(1,2) coalescedD by blast
  from g b ne show False using c [of g i] assms(3) by (auto dest: xor_xor_word [THEN subst])
qed

section \<open>Completeness: allocation fails only when no aligned run is free\<close>

lemma aligned_inside:
  assumes "block_ok (g, j)" "block_ok (f, i)" "i \<le> j" "unat f \<in> blk (g, j)"
  shows "blk (f, i) \<subseteq> blk (g, j)"
proof -
  obtain q r where q: "unat g = 2 ^ j * q" and r: "unat f = 2 ^ i * r" using assms(1,2) by (auto elim!: dvdE)
  have p: "(2::nat) ^ j = 2 ^ i * 2 ^ (j - i)" using assms(3) by (simp flip: power_add)
  have "2 ^ i * r < 2 ^ i * (2 ^ (j - i) * (q + 1))" using assms(4) q r p by (simp add: block_def algebra_simps)
  then have "r + 1 \<le> 2 ^ (j - i) * (q + 1)" by simp
  then have "2 ^ i * (r + 1) \<le> 2 ^ i * (2 ^ (j - i) * (q + 1))" by (rule mult_le_mono2)
  then have "unat f + 2 ^ i \<le> unat g + 2 ^ j" using q r p by (simp add: algebra_simps)
  with assms(4) show ?thesis by (auto simp: block_def)
qed

lemma coalesced_cover:
  assumes "blocks_ok B" "coalesced B"
  shows "block_ok (f, k) \<Longrightarrow> blk (f, k) \<subseteq> pages_of B \<Longrightarrow> \<exists>g j. (g, j) \<in> B \<and> k \<le> j \<and> blk (f, k) \<subseteq> blk (g, j)"
proof (induction k arbitrary: f)
  case 0
  then have "unat f \<in> pages_of B" by (auto simp: block_def)
  then obtain b where "b \<in> B" "unat f \<in> blk b" by (auto simp: pages_of_def)
  then show ?case by (cases b) (auto simp: block_def)
next
  case (Suc k)
  note g = split_geometry [OF Suc.prems(1)]
  obtain g1 j1 where 1: "(g1, j1) \<in> B" "k \<le> j1" "blk (f, k) \<subseteq> blk (g1, j1)"
    using Suc.IH [OF g(1)] Suc.prems(2) g(3) by blast
  obtain g2 j2 where 2: "(g2, j2) \<in> B" "k \<le> j2" "blk (f + 2 ^ k, k) \<subseteq> blk (g2, j2)"
    using Suc.IH [OF g(2)] Suc.prems(2) g(3) by blast
  have ok: "block_ok (g1, j1)" "block_ok (g2, j2)" using assms(1) 1 2 blocks_ok_member by blast+
  have f1: "unat f \<in> blk (g1, j1)" using 1(3) block_nonempty [of "unat f" k] by auto
  consider "Suc k \<le> j1" | "j1 = k" "Suc k \<le> j2" | "j1 = k" "j2 = k" using 1(2) 2(2) by linarith
  then show ?case
  proof cases
    case 1
    then show ?thesis using aligned_inside [OF ok(1) Suc.prems(1) _ f1] \<open>(g1, j1) \<in> B\<close> by blast
  next
    case 2
    have in2: "unat (f + 2 ^ k) \<in> blk (g2, j2)"
      using \<open>blk (f + 2 ^ k, k) \<subseteq> blk (g2, j2)\<close> block_nonempty [of "unat (f + 2 ^ k)" k] by auto
    have "2 ^ Suc k dvd unat g2" using ok(2) 2(2) power_le_dvd [of 2 j2 "unat g2" "Suc k"] by simp
    then obtain q r where q: "unat g2 = 2 ^ Suc k * q" and r: "unat f = 2 ^ Suc k * r"
      using Suc.prems(1) by (auto elim!: dvdE)
    have u: "unat (f + 2 ^ k) = unat f + 2 ^ k" using block_ok_bounds(7) [OF g(1)] .
    have "unat g2 \<le> unat f + 2 ^ k" "(2::nat) ^ k < 2 ^ Suc k" using in2 unfolding u by (simp_all add: block_def)
    then have "2 ^ Suc k * q < 2 ^ Suc k * (r + 1)" unfolding q r distrib_left by linarith
    then have "q \<le> r" by (simp only: mult_less_cancel1) simp
    then have "unat g2 \<le> unat f" using q r by simp
    then have "unat f \<in> blk (g2, j2)" using in2 unfolding u by (auto simp: block_def)
    then show ?thesis using aligned_inside [OF ok(2) Suc.prems(1)] 2 \<open>(g2, j2) \<in> B\<close> by blast
  next
    case 3
    then have "unat g1 = unat f" "unat g2 = unat (f + 2 ^ k)"
      using \<open>blk (f, k) \<subseteq> blk (g1, j1)\<close> \<open>blk (f + 2 ^ k, k) \<subseteq> blk (g2, j2)\<close> by (auto simp: block_def)
    then have "(f, k) \<in> B" "(f + 2 ^ k, k) \<in> B" using 3 \<open>(g1, j1) \<in> B\<close> \<open>(g2, j2) \<in> B\<close> by auto
    moreover have "k < 18" using Suc.prems(1) by simp
    ultimately have False using coalescedD [OF assms(2)] lower_buddy [OF Suc.prems(1)] by metis
    then show ?thesis ..
  qed
qed
section \<open>Releasing what was just allocated\<close>

text \<open>If the upper halves of a split block are free, releasing the lowest piece merges all of them.\<close>

lemma coalesce_halves:
  "buddy_inv (blk (f, unat order)) L s \<Longrightarrow> block_ok (f, K) \<Longrightarrow> unat order \<le> K \<Longrightarrow> halves f (unat order) K \<subseteq> heads L \<Longrightarrow>
   (K < 18 \<longrightarrow> (f XOR 2 ^ K, K) \<notin> heads L) \<Longrightarrow>
   \<exists>order' L' s'. coalesce_loop f order s = Some (f, order', s') \<and> unat order' = K \<and>
     buddy_inv (blk (f, K)) L' s' \<and> heads L' = heads L - halves f (unat order) K \<and>
     buddy_page_state s' = buddy_page_state s"
proof (induction "K - unat order" arbitrary: order L s)
  case 0
  then have K: "K = unat order" by simp
  show ?case
  proof (cases "order < BUDDY_MAX_ORDER")
    case False
    then show ?thesis using "0.prems" K by (subst coalesce_loop.simps) auto
  next
    case True
    then have k: "K < 18" by (simp add: K word_less_nat_alt BUDDY_MAX_ORDER_def)
    note g = buddy_geometry [OF "0.prems"(2) k refl]
    have b: "unat (f XOR 2 ^ K) < NPAGES" using block_ok_bounds(3) [OF g(1)] .
    have "unat (f XOR 2 ^ K) \<notin> blk (f, unat order)" using g(2) block_nonempty [of "unat (f XOR 2 ^ K)" K] K by auto
    then have "buddy_page_state s (unat (f XOR 2 ^ K)) \<noteq> order"
      using inv_marked_head [OF "0.prems"(1) b _ refl, of K] "0.prems"(5) k K by auto
    then show ?thesis
      using "0.prems" True k b K
      by (subst coalesce_loop.simps)
         (auto simp: Let_def c_eval get_state_def word_le_nat_alt NPAGES_is_max_pages)
  qed
next
  case (Suc n)
  then have kK: "unat order < K" by simp
  have K: "K < NORDERS" using Suc.prems(2) by simp
  have k: "unat order < 18" "unat order < 32" using kK K by auto
  have k1: "unat (order + 1) = Suc (unat order)" using k by (simp add: unat_plus_if')
  have ok: "block_ok (f, Suc (unat order))" using shrink_block [OF Suc.prems(2), of "Suc (unat order)"] kK by simp
  let ?b = "f + 2 ^ unat order"
  have xb: "f XOR 2 ^ unat order = ?b" using half_buddy(2) [OF Suc.prems(2) kK] .
  note g = split_geometry [OF ok]
  have mem: "(?b, unat order) \<in> heads L" using Suc.prems(4) kK by auto
  have bN: "unat ?b < NPAGES" using block_ok_bounds(3) [OF g(2)] .
  have lt: "f < ?b" using block_ok_bounds(7) [OF g(1)] by (simp add: word_less_nat_alt)
  have st: "buddy_page_state s (unat ?b) = order" using inv_free_blocks_head(1) [OF Suc.prems(1) mem] by simp
  let ?s = "unlinked ?b (unat order) s" and ?L = "L(unat order := remove1 ?b (L (unat order)))"
  have hd: "heads ?L = heads L - {(?b, unat order)}"
    using heads_remove1 mem Suc.prems(1) by (auto simp: heads_def buddy_inv_def links_ok_def)
  have inv: "buddy_inv (blk (f, unat (order + 1))) ?L ?s"
    using inv_unlinked [OF Suc.prems(1) mem] g(3) unfolding k1 by simp
  have hv: "halves f (unat order) K = insert (?b, unat order) (halves f (Suc (unat order)) K)" using kK by (auto simp: Suc_le_eq le_less)
  have sub: "halves f (unat (order + 1)) K \<subseteq> heads ?L" using Suc.prems(4) unfolding hd hv k1 by auto
  have nb: "K < 18 \<longrightarrow> (f XOR 2 ^ K, K) \<notin> heads ?L" using Suc.prems(5) unfolding hd by blast
  have "n = K - unat (order + 1)" "unat (order + 1) \<le> K" using Suc.hyps(2) kK k1 by auto
  from Suc.hyps(1) [OF this(1) inv Suc.prems(2) this(2) sub nb]
  obtain order' L' s' where ih: "coalesce_loop f (order + 1) ?s = Some (f, order', s')" "unat order' = K"
    "buddy_inv (blk (f, K)) L' s'" "heads L' = heads ?L - halves f (unat (order + 1)) K"
    "buddy_page_state s' = buddy_page_state ?s" by blast
  have "coalesce_loop f order s = Some (f, order', s')"
    using k bN st lt remove_free_block_eval [OF Suc.prems(1) mem] ih(1)
    by (subst coalesce_loop.simps)
       (simp add: Let_def c_eval get_state_def word_le_nat_alt NPAGES_is_max_pages xb word_less_nat_alt [of order] BUDDY_MAX_ORDER_def)
  moreover have "heads L' = heads L - halves f (unat order) K" unfolding ih(4) hd hv k1 by blast
  moreover have "buddy_page_state s' = buddy_page_state s" using ih(5) by (simp add: unlinked_def Let_def)
  ultimately show ?case using ih(2,3) by blast
qed

text \<open>The page table is determined by the free blocks and the sets of allocated and reserved pages.\<close>

lemma page_state_determined:
  assumes "buddy_inv {} L s" "buddy_inv {} L' s'" "free_blocks s' = free_blocks s"
    and "allocated_set s' = allocated_set s" "i < NPAGES"
  shows "buddy_page_state s' i = buddy_page_state s i"
proof (cases "i \<in> pages_of (heads L)")
  case True
  then obtain b where b: "b \<in> heads L" "i \<in> blk b" by (auto simp: pages_of_def)
  have "heads L' = heads L" using inv_heads assms(1-3) by metis
  with b have "marked_free (buddy_page_state s) b" "marked_free (buddy_page_state s') b"
    using assms(1,2) unfolding buddy_inv_def marks_ok_def by blast+
  moreover obtain f k where "b = (f, k)" by (cases b)
  ultimately show ?thesis using b(2) by (cases "i = unat f") simp_all
next
  case False
  moreover have "heads L' = heads L" using inv_heads assms(1-3) by metis
  ultimately have "in_use (buddy_page_state s i)" "in_use (buddy_page_state s' i)"
    using inv_in_use assms(1,2,5) by auto
  moreover have "i \<in> allocated_set s' \<longleftrightarrow> i \<in> allocated_set s" using assms(4) by simp
  ultimately show ?thesis using assms(5) by (auto simp: in_use_def allocated_set_def)
qed
end
