(* ===== verification/Page_Allocator.thy ===== *)
theory Page_Allocator
  imports Yoix_Prelude
begin

text \<open>
  The contract between the page allocator and its clients (the paging code and the kernel
  heap).  A client sees two sets of frames: those available and those it has been given.  The
  laws of \<open>block_allocator\<close> are for requests of any number of pages; \<open>page_allocator\<close> is the
  contract of single pages, and every block allocator is one.
\<close>

definition frames_of :: "nat \<Rightarrow> u64 \<Rightarrow> nat set" where
  "frames_of n p = {unat p div 4096 ..< unat p div 4096 + n}"

lemma frames_of_1: "frames_of 1 p = {unat p div 4096}" "frames_of (Suc 0) p = {unat p div 4096}"
  by (auto simp: frames_of_def)

section \<open>Single pages\<close>

locale page_allocator =
  fixes wf :: "'s \<Rightarrow> bool" and avail taken :: "'s \<Rightarrow> nat set"
    and alloc1 :: "'s \<Rightarrow> (u64 \<times> 's) option" and release1 :: "u64 \<Rightarrow> 's \<Rightarrow> 's option"
    and limit :: nat and invalid :: u64
  assumes alloc1_returns: "wf s \<Longrightarrow> \<exists>p s'. alloc1 s = Some (p, s') \<and> wf s' \<and> (p = invalid \<longrightarrow> s' = s)"
    and alloc1_fresh: "wf s \<Longrightarrow> alloc1 s = Some (p, s') \<Longrightarrow> p \<noteq> invalid \<Longrightarrow>
      unat p mod 4096 = 0 \<and> unat p div 4096 \<in> avail s \<and>
      avail s' = avail s - {unat p div 4096} \<and> taken s' = insert (unat p div 4096) (taken s)"
    and release1_gives_back: "wf s \<Longrightarrow> p \<noteq> 0 \<Longrightarrow> unat p mod 4096 = 0 \<Longrightarrow> unat p div 4096 \<in> taken s \<Longrightarrow>
      \<exists>s'. release1 p s = Some s' \<and> wf s' \<and> avail s' = insert (unat p div 4096) (avail s) \<and>
        taken s' = taken s - {unat p div 4096}"
    and avail1_below: "wf s \<Longrightarrow> avail s \<subseteq> {..<limit}"
    and apart1: "wf s \<Longrightarrow> avail s \<inter> taken s = {}"
begin

lemma alloc1_new:
  assumes "wf s" "alloc1 s = Some (p, s')" "p \<noteq> invalid"
  shows "unat p div 4096 \<notin> taken s" "unat p div 4096 < limit" "unat p mod 4096 = 0"
  using alloc1_fresh [OF assms] avail1_below [OF assms(1)] apart1 [OF assms(1)] by auto

lemma alloc1_twice:
  assumes "wf s" "alloc1 s = Some (p, s1)" "p \<noteq> invalid" "alloc1 s1 = Some (q, s2)" "q \<noteq> invalid"
  shows "p \<noteq> q"
proof -
  have "wf s1" using alloc1_returns [OF assms(1)] assms(2) by auto
  then have "unat q div 4096 \<notin> taken s1" using alloc1_new(1) assms(4,5) by blast
  then show ?thesis using alloc1_fresh [OF assms(1-3)] by auto
qed

lemma alloc1_keeps_wf: "wf s \<Longrightarrow> alloc1 s = Some (p, s') \<Longrightarrow> wf s'"
  using alloc1_returns by force

lemma alloc1_taken_mono: "wf s \<Longrightarrow> alloc1 s = Some (p, s') \<Longrightarrow> taken s \<subseteq> taken s'"
  using alloc1_returns [of s] alloc1_fresh [of s p s'] by (cases "p = invalid") auto

lemma alloc1_avail_mono: "wf s \<Longrightarrow> alloc1 s = Some (p, s') \<Longrightarrow> avail s' \<subseteq> avail s"
  using alloc1_returns [of s] alloc1_fresh [of s p s'] by (cases "p = invalid") auto

end

section \<open>Blocks of pages\<close>

locale block_allocator =
  fixes wf :: "'s \<Rightarrow> bool" and avail taken :: "'s \<Rightarrow> nat set"
    and alloc :: "u64 \<Rightarrow> 's \<Rightarrow> (u64 \<times> 's) option" and release :: "u64 \<Rightarrow> u64 \<Rightarrow> 's \<Rightarrow> 's option"
    and span :: "u64 \<Rightarrow> nat" and limit :: nat and invalid :: u64
  assumes alloc_returns: "wf s \<Longrightarrow> \<exists>p s'. alloc n s = Some (p, s') \<and> wf s' \<and> (p = invalid \<longrightarrow> s' = s)"
    and alloc_fresh: "wf s \<Longrightarrow> alloc n s = Some (p, s') \<Longrightarrow> p \<noteq> invalid \<Longrightarrow>
      n \<noteq> 0 \<and> unat n \<le> span n \<and> unat p mod 4096 = 0 \<and> span n dvd unat p div 4096 \<and>
      frames_of (span n) p \<subseteq> avail s \<and>
      avail s' = avail s - frames_of (span n) p \<and> taken s' = taken s \<union> frames_of (span n) p"
    and release_gives_back: "wf s \<Longrightarrow> p \<noteq> 0 \<Longrightarrow> n \<noteq> 0 \<Longrightarrow> unat p mod 4096 = 0 \<Longrightarrow>
      span n dvd unat p div 4096 \<Longrightarrow> frames_of (span n) p \<subseteq> taken s \<Longrightarrow>
      \<exists>s'. release p n s = Some s' \<and> wf s' \<and> avail s' = avail s \<union> frames_of (span n) p \<and>
        taken s' = taken s - frames_of (span n) p"
    and avail_below: "wf s \<Longrightarrow> avail s \<subseteq> {..<limit}"
    and apart: "wf s \<Longrightarrow> avail s \<inter> taken s = {}"
    and span_one: "span 1 = 1"
begin

lemma alloc_new:
  assumes "wf s" "alloc n s = Some (p, s')" "p \<noteq> invalid"
  shows "frames_of (span n) p \<inter> taken s = {}" "frames_of (span n) p \<subseteq> taken s'" "wf s'"
  using alloc_fresh [OF assms] apart [OF assms(1)] alloc_returns [OF assms(1), of n] assms(2) by auto

lemma alloc_twice_disjoint:
  assumes "wf s" "alloc n s = Some (p, s1)" "p \<noteq> invalid" "alloc m s1 = Some (q, s2)" "q \<noteq> invalid"
  shows "frames_of (span n) p \<inter> frames_of (span m) q = {}"
  using alloc_new [OF assms(1-3)] alloc_new(1) [of s1 m q s2] assms(4,5) by blast

lemma alloc_release:
  assumes "wf s" "alloc n s = Some (p, s1)" "p \<noteq> invalid" "p \<noteq> 0"
  shows "\<exists>s2. release p n s1 = Some s2 \<and> wf s2 \<and> avail s2 = avail s \<and> taken s2 = taken s"
proof -
  note a = alloc_fresh [OF assms(1-3)] and b = alloc_new [OF assms(1-3)]
  obtain s2 where s2: "release p n s1 = Some s2" "wf s2" "avail s2 = avail s1 \<union> frames_of (span n) p"
    "taken s2 = taken s1 - frames_of (span n) p"
    using release_gives_back [OF b(3) assms(4), of n] a b(2) by auto
  then show ?thesis using a b(1) by auto
qed

end

text \<open>Requests for one page obey the contract of single pages.\<close>

sublocale block_allocator \<subseteq> single: page_allocator wf avail taken "alloc 1" "\<lambda>p. release p 1" limit invalid
proof
  show "wf s \<Longrightarrow> \<exists>p s'. alloc 1 s = Some (p, s') \<and> wf s' \<and> (p = invalid \<longrightarrow> s' = s)" for s
    by (rule alloc_returns)
  show "wf s \<Longrightarrow> alloc 1 s = Some (p, s') \<Longrightarrow> p \<noteq> invalid \<Longrightarrow>
      unat p mod 4096 = 0 \<and> unat p div 4096 \<in> avail s \<and>
      avail s' = avail s - {unat p div 4096} \<and> taken s' = insert (unat p div 4096) (taken s)" for s p s'
    using alloc_fresh [of s 1 p s'] by (auto simp: span_one frames_of_1)
  show "wf s \<Longrightarrow> p \<noteq> 0 \<Longrightarrow> unat p mod 4096 = 0 \<Longrightarrow> unat p div 4096 \<in> taken s \<Longrightarrow>
      \<exists>s'. release p 1 s = Some s' \<and> wf s' \<and> avail s' = insert (unat p div 4096) (avail s) \<and>
        taken s' = taken s - {unat p div 4096}" for s p
    using release_gives_back [of s p 1] by (auto simp: span_one frames_of_1)
  show "wf s \<Longrightarrow> avail s \<subseteq> {..<limit}" for s by (rule avail_below)
  show "wf s \<Longrightarrow> avail s \<inter> taken s = {}" for s by (rule apart)
qed

end
