(* ===== verification/Buddy_API.thy ===== *)
theory Buddy_API
  imports Buddy_Coalesce Page_Allocator
begin

text \<open>
  The public functions \<open>buddy_alloc_pages\<close> and \<open>buddy_free_pages\<close> of \<open>src/kernel/src/memory/buddy.c\<close>
  against the sets of frames they move: what a successful and a failed allocation do, what a
  release does, when an allocation must succeed, and that releasing undoes allocating.  The
  allocator is interpreted as a \<open>block_allocator\<close>, and the last section runs it: any
  interleaving of allocations and releases keeps the blocks handed out apart.
\<close>

section \<open>Frames and addresses\<close>

definition page_span :: "u64 \<Rightarrow> nat" where
  "page_span n = 2 ^ unat (buddy_order_from_pages n)"

lemma frame_address:
  assumes "unat (f :: u32) < NPAGES"
  shows "unat (ucast f * BUDDY_PAGE_SIZE) = unat f * 4096" "ucast f * BUDDY_PAGE_SIZE \<noteq> BUDDY_INVALID_ADDRESS"
    "unat (ucast f * BUDDY_PAGE_SIZE) div 4096 = unat f" "unat (ucast f * BUDDY_PAGE_SIZE) mod 4096 = 0"
proof -
  show u: "unat (ucast f * BUDDY_PAGE_SIZE) = unat f * 4096"
    using assms by (simp add: BUDDY_PAGE_SIZE_def unat_word_ariths)
  then show "unat (ucast f * BUDDY_PAGE_SIZE) div 4096 = unat f" "unat (ucast f * BUDDY_PAGE_SIZE) mod 4096 = 0"
    by simp_all
  show "ucast f * BUDDY_PAGE_SIZE \<noteq> BUDDY_INVALID_ADDRESS"
  proof
    assume "ucast f * BUDDY_PAGE_SIZE = BUDDY_INVALID_ADDRESS"
    then have "unat f * 4096 = unat BUDDY_INVALID_ADDRESS" using u by simp
    also have "\<dots> = 18446744073709551615" by (simp add: BUDDY_INVALID_ADDRESS_def unsigned_minus_1_eq_mask mask_eq_exp_minus_1)
    finally show False using assms by simp
  qed
qed

lemma frames_of_block:
  "unat p div 4096 = unat f \<Longrightarrow> frames_of (page_span n) p = blk (f, unat (buddy_order_from_pages n))"
  by (simp add: frames_of_def page_span_def block_def)

section \<open>Allocation through the public interface\<close>

lemma allocate_block_loop:
  "unat order \<le> 18 \<Longrightarrow> buddy_allocate_block order s = allocate_loop order order s"
proof -
  assume k: "unat order \<le> 18"
  then have "(2::nat) ^ unat order \<le> 2 ^ 18" by (intro power_increasing) auto
  moreover have "unat (2 ^ unat order :: u32) = 2 ^ unat order" using k by simp
  ultimately have "unat (2 ^ unat order * 4096 :: u32) = 2 ^ unat order * 4096"
    by (simp add: unat_word_ariths)
  then have "\<not> (2 ^ unat order * 4096 :: u32) < 4096" by (simp add: word_less_nat_alt)
  then show ?thesis
    using k by (simp add: buddy_allocate_block_def c_eval buddy_consts word_less_nat_alt)
qed

lemma alloc_pages_cases:
  assumes inv: "buddy_inv {} L s"
  obtains (fail) "buddy_alloc_pages n s = Some (BUDDY_INVALID_ADDRESS, s)"
      "n = 0 \<or> 2 ^ 18 < unat n \<or> (\<forall>k. unat (buddy_order_from_pages n) \<le> k \<and> k < NORDERS \<longrightarrow> L k = [])"
    | (ok) f K L' s' where "buddy_alloc_pages n s = Some (ucast f * BUDDY_PAGE_SIZE, s')"
      "n \<noteq> 0" "unat n \<le> 2 ^ 18" "(f, K) \<in> heads L" "unat (buddy_order_from_pages n) \<le> K" "unat f < NPAGES"
      "buddy_inv {} L' s'" "allocated_block (unat (buddy_order_from_pages n)) s f s'"
      "heads L' = heads L - {(f, K)} \<union> halves f (unat (buddy_order_from_pages n)) K"
proof (cases "n = 0 \<or> 2 ^ 18 < unat n")
  case True
  then have "buddy_alloc_pages n s = Some (BUDDY_INVALID_ADDRESS, s)"
    by (auto simp: buddy_alloc_pages_def word_less_nat_alt BUDDY_MAX_ORDER_def)
  then show thesis using True fail by blast
next
  case False
  let ?k = "buddy_order_from_pages n"
  have k: "unat ?k \<le> 18" by (rule order_from_pages_bound)
  have ev: "buddy_alloc_pages n s = do { (frame, s) \<leftarrow> allocate_loop ?k ?k s;
      if frame = UINT32_MAX then Some (BUDDY_INVALID_ADDRESS, s) else Some (ucast frame * BUDDY_PAGE_SIZE, s) }"
    using False by (simp add: buddy_alloc_pages_def allocate_block_loop [OF k] word_less_nat_alt BUDDY_MAX_ORDER_def)
  note loop = allocate_loop_correct [OF inv order_refl, of ?k]
  show thesis
  proof (cases "\<forall>k. unat ?k \<le> k \<and> k < NORDERS \<longrightarrow> L k = []")
    case True
    then show thesis using loop k ev fail by auto
  next
    case some: False
    with loop k obtain f K L' s' where r: "allocate_loop ?k ?k s = Some (f, s')" "(f, K) \<in> heads L" "unat ?k \<le> K"
      "buddy_inv {} L' s'" "allocated_block (unat ?k) s f s'" "heads L' = heads L - {(f, K)} \<union> halves f (unat ?k) K"
      by (auto split: if_splits)
    have "block_ok (f, unat ?k)" using r(5) by (simp add: allocated_block_def)
    then have "unat f < NPAGES" "f \<noteq> UINT32_MAX" using block_ok_bounds by blast+
    then show thesis using ok [of f s' K L'] False r ev by auto
  qed
qed

lemma alloc_pages_sound:
  assumes "buddy_wf s" "buddy_alloc_pages n s = Some (p, s')" "p \<noteq> BUDDY_INVALID_ADDRESS"
  shows "n \<noteq> 0 \<and> unat n \<le> page_span n \<and> unat p mod 4096 = 0 \<and> page_span n dvd unat p div 4096 \<and>
    frames_of (page_span n) p \<subseteq> free_set s \<and> buddy_wf s' \<and>
    free_set s' = free_set s - frames_of (page_span n) p \<and>
    allocated_set s' = allocated_set s \<union> frames_of (page_span n) p \<and> reserved_set s' = reserved_set s"
proof -
  obtain L where inv: "buddy_inv {} L s" using assms(1) by (auto simp: buddy_wf_def)
  show ?thesis
  proof (cases rule: alloc_pages_cases [OF inv, of n, case_names fail ok])
    case fail
    then show ?thesis using assms by simp
  next
    case (ok f K L' s1)
    then have p: "p = ucast f * BUDDY_PAGE_SIZE" "s1 = s'" using assms(2) by auto
    note fa = frame_address [OF ok(6)]
    have fr: "frames_of (page_span n) p = blk (f, unat (buddy_order_from_pages n))"
      using frames_of_block fa(3) p by blast
    show ?thesis
      using ok(2,8) p fa order_from_pages_correct(1) [OF ok(3)]
      unfolding fr allocated_block_def by (auto simp: page_span_def)
  qed
qed

lemma alloc_pages_returns:
  assumes "buddy_wf s"
  shows "\<exists>p s'. buddy_alloc_pages n s = Some (p, s') \<and> buddy_wf s' \<and> (p = BUDDY_INVALID_ADDRESS \<longrightarrow> s' = s)"
proof -
  obtain L where inv: "buddy_inv {} L s" using assms(1) by (auto simp: buddy_wf_def)
  show ?thesis
  proof (cases rule: alloc_pages_cases [OF inv, of n, case_names fail ok])
    case fail
    then show ?thesis using assms by simp
  next
    case (ok f K L' s1)
    then show ?thesis using frame_address(2) [OF ok(6)] by (auto simp: buddy_wf_def)
  qed
qed

section \<open>Release through the public interface\<close>

lemma free_pages_eval:
  assumes "p \<noteq> 0" "n \<noteq> 0" "unat p mod 4096 = 0" "unat p div 4096 < NPAGES"
    and f: "f = (ucast (p div BUDDY_PAGE_SIZE) :: u32)"
  shows "unat f = unat p div 4096"
    "buddy_page_state s (unat f) = BUDDY_PAGE_STATE_ALLOCATED \<Longrightarrow> buddy_free_pages p n s =
       do { (frame, order, s) \<leftarrow> coalesce_loop f (buddy_order_from_pages n) s; buddy_add_free_block frame order s }"
    "buddy_page_state s (unat f) \<noteq> BUDDY_PAGE_STATE_ALLOCATED \<Longrightarrow> buddy_free_pages p n s = Some s"
proof -
  have P: "unat BUDDY_PAGE_SIZE = 4096" by (simp add: BUDDY_PAGE_SIZE_def)
  have d: "unat (p div BUDDY_PAGE_SIZE) = unat p div 4096" by (simp add: unat_div P)
  show uf: "unat f = unat p div 4096"
    using assms(4) d unfolding f by (simp add: unsigned_ucast_eq take_bit_nat_eq_self)
  have m: "p mod BUDDY_PAGE_SIZE = 0" using assms(3) by (metis P unat_eq_zero unat_mod)
  have inv: "p \<noteq> BUDDY_INVALID_ADDRESS"
  proof
    assume "p = BUDDY_INVALID_ADDRESS"
    then have "unat p = 18446744073709551615" by (simp add: BUDDY_INVALID_ADDRESS_def unsigned_minus_1_eq_mask mask_eq_exp_minus_1)
    then show False using assms(4) by simp
  qed
  have "\<not> ucast f \<ge> BUDDY_MAX_PAGES" using uf assms(4) by (simp add: word_le_nat_alt NPAGES_is_max_pages)
  moreover have "get_state f s = Some (buddy_page_state s (unat f))" using uf assms(4) by (simp add: get_state_def c_eval)
  ultimately show "buddy_page_state s (unat f) = BUDDY_PAGE_STATE_ALLOCATED \<Longrightarrow> buddy_free_pages p n s =
       do { (frame, order, s) \<leftarrow> coalesce_loop f (buddy_order_from_pages n) s; buddy_add_free_block frame order s }"
    "buddy_page_state s (unat f) \<noteq> BUDDY_PAGE_STATE_ALLOCATED \<Longrightarrow> buddy_free_pages p n s = Some s"
    using assms(1,2) m inv unfolding buddy_free_pages_def f [symmetric] Let_def by simp_all
qed

text \<open>The caller's obligation: the address and the count of a block that is in use.\<close>

definition freeable :: "u64 \<Rightarrow> u64 \<Rightarrow> buddy_state \<Rightarrow> bool" where
  "freeable p n s \<longleftrightarrow> p \<noteq> 0 \<and> n \<noteq> 0 \<and> unat p mod 4096 = 0 \<and> page_span n dvd unat p div 4096 \<and>
     frames_of (page_span n) p \<subseteq> allocated_set s"

lemma freeable_block:
  assumes "freeable p n s" "f = (ucast (p div BUDDY_PAGE_SIZE) :: u32)"
  shows "unat f = unat p div 4096" "block_ok (f, unat (buddy_order_from_pages n))"
    "blk (f, unat (buddy_order_from_pages n)) \<subseteq> allocated_set s" "frames_of (page_span n) p = blk (f, unat (buddy_order_from_pages n))"
    "buddy_free_pages p n s =
       do { (frame, order, s) \<leftarrow> coalesce_loop f (buddy_order_from_pages n) s; buddy_add_free_block frame order s }"
proof -
  have "unat p div 4096 \<in> frames_of (page_span n) p" by (simp add: frames_of_def page_span_def)
  then have a: "unat p div 4096 \<in> allocated_set s" using assms(1) by (auto simp: freeable_def)
  then have N: "unat p div 4096 < NPAGES" by (simp add: allocated_set_def)
  note ev = free_pages_eval [OF _ _ _ N assms(2)]
  show u: "unat f = unat p div 4096" using ev(1) assms(1) by (auto simp: freeable_def)
  show fr: "frames_of (page_span n) p = blk (f, unat (buddy_order_from_pages n))"
    by (rule frames_of_block) (simp add: u)
  show al: "blk (f, unat (buddy_order_from_pages n)) \<subseteq> allocated_set s" using assms(1) fr by (simp add: freeable_def)
  obtain m where "(2::nat) ^ unat (buddy_order_from_pages n) = Suc m" using not0_implies_Suc [of "2 ^ unat (buddy_order_from_pages n)"] by auto
  then have "unat f + 2 ^ unat (buddy_order_from_pages n) - 1 \<in> blk (f, unat (buddy_order_from_pages n))"
    by (simp add: block_def)
  then have "unat f + 2 ^ unat (buddy_order_from_pages n) - 1 < NPAGES" using al by (auto simp: allocated_set_def)
  then show "block_ok (f, unat (buddy_order_from_pages n))"
    using assms(1) u order_from_pages_bound [of n] by (auto simp: freeable_def page_span_def)
  show "buddy_free_pages p n s =
       do { (frame, order, s) \<leftarrow> coalesce_loop f (buddy_order_from_pages n) s; buddy_add_free_block frame order s }"
    using ev(2) assms(1) a u by (auto simp: freeable_def allocated_set_def)
qed

lemma free_pages_correct:
  assumes "buddy_wf s" "freeable p n s"
  shows "\<exists>s'. buddy_free_pages p n s = Some s' \<and> buddy_wf s' \<and>
    free_set s' = free_set s \<union> frames_of (page_span n) p \<and>
    allocated_set s' = allocated_set s - frames_of (page_span n) p \<and> reserved_set s' = reserved_set s"
proof -
  obtain L where inv: "buddy_inv {} L s" using assms(1) by (auto simp: buddy_wf_def)
  note f = freeable_block [OF assms(2) refl]
  obtain f' order' s1 s' where "coalesce_loop (ucast (p div BUDDY_PAGE_SIZE)) (buddy_order_from_pages n) s = Some (f', order', s1)"
    "buddy_add_free_block f' order' s1 = Some s'"
    "released_block (unat (buddy_order_from_pages n)) (ucast (p div BUDDY_PAGE_SIZE)) s s'"
    using release_block_correct [OF inv f(2,3)] by blast
  then show ?thesis using f(5) unfolding f(4) released_block_def by auto
qed

section \<open>Coalescing\<close>

definition buddy_coalesced :: "buddy_state \<Rightarrow> bool" where
  "buddy_coalesced s \<longleftrightarrow> coalesced (free_blocks s)"

lemma coalesced_kept:
  assumes "buddy_wf s" "buddy_coalesced s"
  shows coalesced_alloc: "buddy_alloc_pages n s = Some (p, s') \<Longrightarrow> buddy_coalesced s'"
    and coalesced_free: "freeable p n s \<Longrightarrow> buddy_free_pages p n s = Some s' \<Longrightarrow> buddy_coalesced s'"
proof -
  obtain L where inv: "buddy_inv {} L s" using assms(1) by (auto simp: buddy_wf_def)
  have B: "blocks_ok (heads L)" "coalesced (heads L)"
    using inv assms(2) inv_heads [OF inv] by (auto simp: buddy_inv_def buddy_coalesced_def)
  show "buddy_coalesced s'" if a: "buddy_alloc_pages n s = Some (p, s')"
  proof (cases rule: alloc_pages_cases [OF inv, of n, case_names fail ok])
    case fail
    then show ?thesis using a assms(2) by simp
  next
    case (ok f K L' s1)
    then have "free_blocks s' = heads L - {(f, K)} \<union> halves f (unat (buddy_order_from_pages n)) K"
      using a inv_heads [OF ok(7)] by simp
    then show ?thesis
      unfolding buddy_coalesced_def using coalesced_split [OF B(1) ok(4) B(2)] by simp
  qed
  show "buddy_coalesced s'" if fr: "freeable p n s" "buddy_free_pages p n s = Some s'"
  proof -
    note f = freeable_block [OF fr(1) refl]
    obtain f' order' L' s1 s2 where r: "coalesce_loop (ucast (p div BUDDY_PAGE_SIZE)) (buddy_order_from_pages n) s = Some (f', order', s1)"
      "buddy_add_free_block f' order' s1 = Some s2" "buddy_inv {} (L'(unat order' := f' # L' (unat order'))) s2"
      "heads L' \<subseteq> heads L" "block_ok (f', unat order')" "unat order' < 18 \<longrightarrow> (f' XOR 2 ^ unat order', unat order') \<notin> heads L'"
      using release_block_correct [OF inv f(2,3)] by blast
    have k: "unat order' < NORDERS" using r(5) by simp
    have "s2 = s'" using r(1,2) fr(2) f(5) by simp
    then have "free_blocks s' = insert (f', unat order') (heads L')"
      using inv_heads [OF r(3)] heads_Cons [OF k] by simp
    then show ?thesis unfolding buddy_coalesced_def using coalesced_insert [OF B(2) r(4,6) k] by simp
  qed
qed

lemma alloc_pages_complete:
  assumes "buddy_wf s" "buddy_coalesced s" "0 < n" "n \<le> 2 ^ 18"
    and "block_ok (f, unat (buddy_order_from_pages n))" "blk (f, unat (buddy_order_from_pages n)) \<subseteq> free_set s"
  shows "\<exists>p s'. buddy_alloc_pages n s = Some (p, s') \<and> p \<noteq> BUDDY_INVALID_ADDRESS"
proof -
  obtain L where inv: "buddy_inv {} L s" using assms(1) by (auto simp: buddy_wf_def)
  have B: "blocks_ok (heads L)" "coalesced (heads L)"
    using inv assms(2) inv_heads [OF inv] by (auto simp: buddy_inv_def buddy_coalesced_def)
  obtain g j where g: "(g, j) \<in> heads L" "unat (buddy_order_from_pages n) \<le> j"
    using coalesced_cover [OF B assms(5)] assms(6) inv_free_set [OF inv] by blast
  show ?thesis
  proof (cases rule: alloc_pages_cases [OF inv, of n, case_names fail ok])
    case fail
    then show ?thesis using assms(3,4) g by (force simp: heads_def word_le_nat_alt word_gt_0)
  next
    case (ok f K L' s1)
    then show ?thesis using frame_address(2) by blast
  qed
qed

text \<open>A single page is there as long as any frame is free.\<close>

lemma alloc_page_available:
  assumes "buddy_wf s" "free_set s \<noteq> {}"
  shows "\<exists>p s'. buddy_alloc_pages 1 s = Some (p, s') \<and> p \<noteq> BUDDY_INVALID_ADDRESS"
proof -
  obtain L where inv: "buddy_inv {} L s" using assms(1) by (auto simp: buddy_wf_def)
  have o: "unat (buddy_order_from_pages 1) = 0" by simp
  obtain g j where g: "(g, j) \<in> heads L" using assms(2) inv_free_set [OF inv] by (auto simp: pages_of_def)
  show ?thesis
  proof (cases rule: alloc_pages_cases [OF inv, of 1, case_names fail ok])
    case fail
    then show ?thesis using g o by (force simp: heads_def word_le_nat_alt)
  next
    case (ok f K L' s1)
    then show ?thesis using frame_address(2) by blast
  qed
qed

lemma alloc_free_restores:
  assumes "buddy_wf s" "buddy_coalesced s" "buddy_alloc_pages n s = Some (p, s1)"
    and "p \<noteq> BUDDY_INVALID_ADDRESS" "p \<noteq> 0"
  shows "\<exists>s2. buddy_free_pages p n s1 = Some s2 \<and> buddy_wf s2 \<and>
    (\<forall>i. i < NPAGES \<longrightarrow> buddy_page_state s2 i = buddy_page_state s i)"
proof -
  obtain L where inv: "buddy_inv {} L s" using assms(1) by (auto simp: buddy_wf_def)
  have B: "blocks_ok (heads L)" "coalesced (heads L)"
    using inv assms(2) inv_heads [OF inv] by (auto simp: buddy_inv_def buddy_coalesced_def)
  note snd = alloc_pages_sound [OF assms(1,3,4)]
  have fr: "freeable p n s1" using snd assms(5) by (auto simp: freeable_def)
  note fb = freeable_block [OF fr refl]
  show ?thesis
  proof (cases rule: alloc_pages_cases [OF inv, of n, case_names fail ok])
    case fail
    then show ?thesis using assms(3,4) by simp
  next
    case (ok f K L1 s')
    let ?k = "buddy_order_from_pages n"
    have p: "p = ucast f * BUDDY_PAGE_SIZE" "s' = s1" using ok(1) assms(3) by auto
    have f: "ucast (p div BUDDY_PAGE_SIZE) = f" using fb(1) frame_address(3) [OF ok(6)] p by (metis unat_inj_iff)
    have inv1: "buddy_inv {} L1 s1" using ok(7) p by simp
    have okK: "block_ok (f, K)" using B(1) ok(4) blocks_ok_member by blast
    have "blk (f, unat ?k) \<inter> pages_of (heads L1) = {}"
      using inv_free_set [OF inv1] snd fb(4) unfolding f by auto
    then have inv2: "buddy_inv (blk (f, unat ?k)) L1 s1" using inv_weaken [OF inv1] by blast
    have nb: "K < 18 \<longrightarrow> (f XOR 2 ^ K, K) \<notin> heads L1"
      using coalescedD [OF B(2) ok(4)] unfolding ok(9) by auto
    have sub: "halves f (unat ?k) K \<subseteq> heads L1" unfolding ok(9) by blast
    obtain order' L2 s2 where c: "coalesce_loop f ?k s1 = Some (f, order', s2)" "unat order' = K"
      "buddy_inv (blk (f, K)) L2 s2" "heads L2 = heads L1 - halves f (unat ?k) K" "buddy_page_state s2 = buddy_page_state s1"
      using coalesce_halves [OF inv2 okK ok(5) sub nb] by blast
    let ?s3 = "linked f K s2" and ?L3 = "L2(K := f # L2 K)"
    have add: "buddy_add_free_block f order' s2 = Some ?s3"
      using add_free_block_eval [OF c(3), of f order'] okK unfolding c(2) by simp
    have ev: "buddy_free_pages p n s1 = Some ?s3" using fb(5) c(1) add unfolding f by simp
    have inv3: "buddy_inv {} ?L3 ?s3"
      using inv_linked [OF c(3) okK] c(3) by (auto simp: buddy_inv_def)
    have "(f + 2 ^ j, j) \<notin> heads L" if "unat ?k \<le> j" "j < K" for j
    proof
      assume m: "(f + 2 ^ j, j) \<in> heads L"
      have "block_ok (f, Suc j)" using shrink_block [OF okK, of "Suc j"] that by simp
      then have "blk (f + 2 ^ j, j) \<subseteq> blk (f, K)"
        using split_geometry(3) shrink_block [OF okK, of "Suc j"] that by auto
      moreover have "(f + 2 ^ j, j) \<noteq> (f, K)" using that by simp
      then have "blk (f + 2 ^ j, j) \<inter> blk (f, K) = {}"
        using B(1) m ok(4) unfolding blocks_ok_def pairwise_def disjnt_def by blast
      ultimately show False using block_nonempty [of "unat (f + 2 ^ j)" j] by (metis blk.simps empty_iff inf.absorb_iff1)
    qed
    then have "heads L2 = heads L - {(f, K)}" unfolding c(4) ok(9) by blast
    then have "heads ?L3 = heads L" using heads_Cons [of K L2 f] okK ok(4) by auto
    then have fbs: "free_blocks ?s3 = free_blocks s" using inv_heads [OF inv3] inv_heads [OF inv] by simp
    obtain s4 where "buddy_free_pages p n s1 = Some s4" "allocated_set s4 = allocated_set s1 - frames_of (page_span n) p"
      using free_pages_correct [of s1 p n] snd fr by blast
    then have "allocated_set ?s3 = allocated_set s"
      using ev snd by (auto simp: free_set_def allocated_set_def in_use_def)
    then show ?thesis
      using ev inv3 page_state_determined [OF inv inv3 fbs] by (auto simp: buddy_wf_def)
  qed
qed

lemma free_pages_twice:
  assumes "buddy_wf s" "freeable p n s" "buddy_free_pages p n s = Some s'" "m \<noteq> 0"
  shows "buddy_free_pages p m s' = Some s'"
proof -
  have p: "p \<noteq> 0" "unat p mod 4096 = 0" "unat p div 4096 \<in> frames_of (page_span n) p"
    using assms(2) by (auto simp: freeable_def frames_of_def page_span_def)
  then have a: "unat p div 4096 \<in> allocated_set s" using assms(2) by (auto simp: freeable_def)
  then have N: "unat p div 4096 < NPAGES" by (simp add: allocated_set_def)
  have "unat p div 4096 \<notin> allocated_set s'" using free_pages_correct [OF assms(1,2)] assms(3) p(3) by auto
  then show ?thesis
    using free_pages_eval(1,3) [OF p(1) assms(4) p(2) N refl] N by (simp add: allocated_set_def)
qed

section \<open>The buddy allocator meets the allocator contract\<close>

interpretation buddy: block_allocator buddy_wf free_set allocated_set buddy_alloc_pages buddy_free_pages
  page_span NPAGES BUDDY_INVALID_ADDRESS
proof
  show "\<exists>p s'. buddy_alloc_pages n s = Some (p, s') \<and> buddy_wf s' \<and> (p = BUDDY_INVALID_ADDRESS \<longrightarrow> s' = s)"
    if "buddy_wf s" for s n using alloc_pages_returns [OF that] .
  show "n \<noteq> 0 \<and> unat n \<le> page_span n \<and> unat p mod 4096 = 0 \<and> page_span n dvd unat p div 4096 \<and>
      frames_of (page_span n) p \<subseteq> free_set s \<and> free_set s' = free_set s - frames_of (page_span n) p \<and>
      allocated_set s' = allocated_set s \<union> frames_of (page_span n) p"
    if "buddy_wf s" "buddy_alloc_pages n s = Some (p, s')" "p \<noteq> BUDDY_INVALID_ADDRESS" for s n p s'
    using alloc_pages_sound [OF that] by blast
  show "\<exists>s'. buddy_free_pages p n s = Some s' \<and> buddy_wf s' \<and> free_set s' = free_set s \<union> frames_of (page_span n) p \<and>
      allocated_set s' = allocated_set s - frames_of (page_span n) p"
    if "buddy_wf s" "p \<noteq> 0" "n \<noteq> 0" "unat p mod 4096 = 0" "page_span n dvd unat p div 4096"
      "frames_of (page_span n) p \<subseteq> allocated_set s" for s p n
    using free_pages_correct [of s p n] that by (auto simp: freeable_def)
  show "free_set s \<subseteq> {..<NPAGES}" for s by (auto simp: free_set_def)
  show "free_set s \<inter> allocated_set s = {}" for s by (auto simp: page_sets in_use_def)
  show "page_span 1 = 1" by (simp add: page_span_def)
qed

section \<open>Runs of the allocator\<close>

text \<open>
  A run interleaves allocations and releases in any order; \<open>live\<close> holds the address and the page
  count of every block handed out and not yet given back.  Clients only release what they hold.
\<close>

type_synonym run_state = "buddy_state \<times> (u64 \<times> u64) list"

inductive buddy_step :: "run_state \<Rightarrow> run_state \<Rightarrow> bool" where
  alloc_ok: "buddy_alloc_pages n s = Some (p, s') \<Longrightarrow> p \<noteq> BUDDY_INVALID_ADDRESS \<Longrightarrow>
     buddy_step (s, live) (s', (p, n) # live)"
| alloc_fail: "buddy_alloc_pages n s = Some (BUDDY_INVALID_ADDRESS, s') \<Longrightarrow> buddy_step (s, live) (s', live)"
| free_live: "(p, n) \<in> set live \<Longrightarrow> buddy_free_pages p n s = Some s' \<Longrightarrow>
     buddy_step (s, live) (s', remove1 (p, n) live)"

inductive_cases buddy_stepE: "buddy_step (s, live) t"

inductive buddy_reach :: "buddy_state \<Rightarrow> run_state \<Rightarrow> bool" for s0 where
  start: "buddy_reach s0 (s0, [])"
| step: "buddy_reach s0 t \<Longrightarrow> buddy_step t u \<Longrightarrow> buddy_reach s0 u"

definition held :: "u64 \<times> u64 \<Rightarrow> nat set" where
  "held b = frames_of (page_span (snd b)) (fst b)"

definition live_block :: "buddy_state \<Rightarrow> u64 \<times> u64 \<Rightarrow> bool" where
  "live_block s b \<longleftrightarrow> snd b \<noteq> 0 \<and> unat (fst b) mod 4096 = 0 \<and> page_span (snd b) dvd unat (fst b) div 4096 \<and>
     held b \<subseteq> allocated_set s"

definition live_ok :: "buddy_state \<Rightarrow> (u64 \<times> u64) list \<Rightarrow> bool" where
  "live_ok s live \<longleftrightarrow> (\<forall>b\<in>set live. live_block s b) \<and> sorted_wrt (\<lambda>a b. held a \<inter> held b = {}) live"

lemma sorted_wrt_remove1: "sorted_wrt P xs \<Longrightarrow> sorted_wrt P (remove1 x xs)"
  by (induction xs) (auto dest: set_remove1_subset [THEN subsetD])

lemma sorted_wrt_apart:
  "sorted_wrt (\<lambda>a b. R a \<inter> R b = {}) xs \<Longrightarrow> x \<in> set xs \<Longrightarrow> y \<in> set (remove1 x xs) \<Longrightarrow> R x \<inter> R y = {}"
  by (induction xs) (auto split: if_splits)

definition run_inv :: "run_state \<Rightarrow> bool" where
  "run_inv t \<longleftrightarrow> buddy_wf (fst t) \<and> live_ok (fst t) (snd t)"

lemma run_inv_step: "buddy_step t u \<Longrightarrow> run_inv t \<Longrightarrow> run_inv u"
proof (induction rule: buddy_step.induct)
  case (alloc_ok n s p s' live)
  then have wf: "buddy_wf s" "live_ok s live" by (auto simp: run_inv_def)
  note a = alloc_pages_sound [OF wf(1) alloc_ok(1,2)] and new = buddy.alloc_new [OF wf(1) alloc_ok(1,2)]
  have "held (p, n) \<inter> held b = {}" if "b \<in> set live" for b
    using wf(2) that new(1) by (auto simp: live_ok_def live_block_def held_def)
  moreover have "live_block s' b" if "b \<in> set live" for b
    using wf(2) that a by (auto simp: live_ok_def live_block_def)
  moreover have "live_block s' (p, n)" using a by (auto simp: live_block_def held_def)
  ultimately show ?case using a wf(2) by (simp add: run_inv_def live_ok_def)
next
  case (alloc_fail n s s' live)
  then have "s' = s" using alloc_pages_returns [of s n] by (auto simp: run_inv_def)
  with alloc_fail show ?case by simp
next
  case (free_live p n live s s')
  then have wf: "buddy_wf s" "live_ok s live" by (auto simp: run_inv_def)
  have keep: "sorted_wrt (\<lambda>a b. held a \<inter> held b = {}) (remove1 (p, n) live)"
    by (rule sorted_wrt_remove1) (use wf(2) in \<open>simp add: live_ok_def\<close>)
  have old: "live_block s b" if "b \<in> set (remove1 (p, n) live)" for b
    using wf(2) that set_remove1_subset [of "(p, n)" live] by (auto simp: live_ok_def)
  have lb: "live_block s (p, n)" using wf(2) free_live(1) by (simp add: live_ok_def)
  show ?case
  proof (cases "p = 0")
    case True
    then have "s' = s" using free_live(2) by (simp add: buddy_free_pages_def)
    then show ?thesis using wf keep old by (simp add: run_inv_def live_ok_def)
  next
    case False
    then have fr: "freeable p n s" using lb by (simp add: freeable_def live_block_def held_def)
    have s': "buddy_wf s'" "allocated_set s' = allocated_set s - held (p, n)"
      using free_pages_correct [OF wf(1) fr] free_live(2) by (auto simp: held_def)
    have "live_block s' b" if "b \<in> set (remove1 (p, n) live)" for b
    proof -
      have "held (p, n) \<inter> held b = {}"
        by (rule sorted_wrt_apart [OF _ free_live(1) that]) (use wf(2) in \<open>simp add: live_ok_def\<close>)
      then show ?thesis using old [OF that] s'(2) by (auto simp: live_block_def)
    qed
    then show ?thesis using s'(1) keep by (simp add: run_inv_def live_ok_def)
  qed
qed

lemma reach_run_inv: "buddy_reach s0 t \<Longrightarrow> buddy_wf s0 \<Longrightarrow> run_inv t"
proof (induction rule: buddy_reach.induct)
  case start
  then show ?case by (simp add: run_inv_def live_ok_def)
next
  case (step t u)
  then show ?case using run_inv_step by blast
qed

end
