(* ===== verification/Buddy_Properties.thy ===== *)
theory Buddy_Properties
  imports Buddy_API
begin

text \<open>
  The properties of the page allocator, each with a witness on a small concrete machine: four
  free pages at 1 MiB (\<open>demo_state\<close>), the same after one allocation (\<open>demo_one\<close>) and after a
  second (\<open>demo_two\<close>), and a machine whose only free frame is frame 0 (\<open>demo_low\<close>).
\<close>

section \<open>A small machine\<close>

text \<open>Four free pages at 1 MiB, in one block of order 2; everything else is reserved.\<close>

definition demo_state :: buddy_state where
  "demo_state = \<lparr>
     buddy_page_state = (\<lambda>i. if i = 256 then 2 else if i < 260 \<and> 256 < i then 0xFD else 0xFF),
     buddy_free_list = (\<lambda>k. if k = 2 then 256 else UINT32_MAX),
     buddy_free_next = (\<lambda>_. UINT32_MAX), buddy_free_prev = (\<lambda>_. UINT32_MAX)\<rparr>"

definition demo_lists :: free_lists where
  "demo_lists k = (if k = 2 then [256] else [])"

lemma demo_heads: "heads demo_lists = {(256, 2)}"
  by (auto simp: heads_def demo_lists_def split: if_splits)

lemma demo_inv: "buddy_inv {} demo_lists demo_state"
proof -
  have "links_ok demo_lists demo_state"
    by (simp add: links_ok_def demo_lists_def demo_state_def)
  moreover have "blocks_ok {(256, 2)}" by (simp add: blocks_ok_def)
  moreover have "marks_ok {} {(256, 2)} (buddy_page_state demo_state)"
    by (auto simp: marks_ok_def pages_of_def demo_state_def block_def buddy_consts in_use_def)
  ultimately show ?thesis by (simp add: buddy_inv_def demo_heads)
qed

lemma demo_wf: "buddy_wf demo_state"
  using demo_inv by (auto simp: buddy_wf_def)

lemma demo_coalesced: "buddy_coalesced demo_state"
  unfolding buddy_coalesced_def inv_heads [OF demo_inv, symmetric] demo_heads by (simp add: coalesced_def)

lemmas buddy_run = buddy_alloc_pages_def buddy_allocate_block_def allocate_loop.simps split_loop.simps
  buddy_pop_free_block_def buddy_add_free_block_def buddy_mark_block_free_def buddy_mark_block_allocated_def
  mark_loop.simps buddy_order_from_pages_def order_loop.simps buddy_free_pages_def coalesce_loop.simps
  buddy_remove_free_block_def buddy_access arr_get_def arr_set_def c_shl32_def buddy_consts

definition demo_one :: buddy_state where
  "demo_one = snd (the (buddy_alloc_pages 1 demo_state))"

lemma demo_alloc: "buddy_alloc_pages 1 demo_state = Some (0x100000, demo_one)"
  by (simp add: demo_one_def buddy_run demo_state_def)

lemma demo_valid: "0x100000 \<noteq> BUDDY_INVALID_ADDRESS"
  by (simp add: BUDDY_INVALID_ADDRESS_def)

lemma demo_one_wf: "buddy_wf demo_one" "freeable 0x100000 1 demo_one"
  using alloc_pages_sound [OF demo_wf demo_alloc demo_valid] by (auto simp: freeable_def)

definition demo_back :: buddy_state where
  "demo_back = the (buddy_free_pages 0x100000 1 demo_one)"

lemma demo_release: "buddy_free_pages 0x100000 1 demo_one = Some demo_back"
  using free_pages_correct [OF demo_one_wf] by (auto simp: demo_back_def)

section \<open>Properties\<close>

text \<open>
  C9. A successful \<open>buddy_alloc_pages\<close> hands out a page-aligned block of \<open>2 ^ order\<close> frames, at
  least as many as asked for, naturally aligned, all of which were free; exactly these frames
  move from free to allocated, the reserved ones stay, and the allocator's lists and page table
  remain consistent.
\<close>

theorem buddy_alloc_fresh:
  assumes "buddy_wf s" "buddy_alloc_pages n s = Some (p, s')" "p \<noteq> BUDDY_INVALID_ADDRESS"
  shows "n \<noteq> 0 \<and> unat n \<le> page_span n \<and> unat p mod 4096 = 0 \<and> page_span n dvd unat p div 4096 \<and>
    frames_of (page_span n) p \<subseteq> free_set s \<and> buddy_wf s' \<and>
    free_set s' = free_set s - frames_of (page_span n) p \<and>
    allocated_set s' = allocated_set s \<union> frames_of (page_span n) p \<and> reserved_set s' = reserved_set s"
  using alloc_pages_sound [OF assms] .

theorem buddy_alloc_fresh_witness:
  "buddy_alloc_pages 1 demo_state = Some (0x100000, demo_one) \<and> frames_of (page_span 1) 0x100000 = {256} \<and>
   256 \<in> free_set demo_state \<and> 256 \<in> allocated_set demo_one \<and> buddy_wf demo_one"
  using buddy_alloc_fresh [OF demo_wf demo_alloc demo_valid] demo_alloc
  by (auto simp: frames_of_def page_span_def)

text \<open>
  On a consistent state \<open>buddy_alloc_pages\<close> always returns, without leaving its arrays and
  whatever the request, and a request that fails (\<open>BUDDY_INVALID_ADDRESS\<close>) leaves the state as it
  was.
\<close>

lemma buddy_alloc_total:
  assumes "buddy_wf s"
  shows "\<exists>p s'. buddy_alloc_pages n s = Some (p, s') \<and> buddy_wf s' \<and> (p = BUDDY_INVALID_ADDRESS \<longrightarrow> s' = s)"
  using alloc_pages_returns [OF assms] .

text \<open>
  C10. When no two buddies are free at the same time, a request for \<open>n\<close> pages succeeds as soon as
  some naturally aligned run of \<open>2 ^ order\<close> free frames exists: the allocator fails only
  for lack of such a run.
\<close>

theorem buddy_alloc_complete:
  assumes "buddy_wf s" "buddy_coalesced s" "0 < n" "n \<le> 2 ^ 18"
    and "block_ok (f, unat (buddy_order_from_pages n))" "blk (f, unat (buddy_order_from_pages n)) \<subseteq> free_set s"
  shows "\<exists>p s'. buddy_alloc_pages n s = Some (p, s') \<and> p \<noteq> BUDDY_INVALID_ADDRESS"
  using alloc_pages_complete [OF assms] .

theorem buddy_alloc_complete_witness:
  "block_ok (258, 1) \<and> blk (258, 1) \<subseteq> free_set demo_state \<and>
   (\<exists>p s'. buddy_alloc_pages 2 demo_state = Some (p, s') \<and> p \<noteq> BUDDY_INVALID_ADDRESS)"
proof -
  have o: "unat (buddy_order_from_pages 2) = 1" by (simp add: buddy_run)
  have b: "block_ok (258, 1)" by simp
  have f: "blk (258, 1) \<subseteq> free_set demo_state"
    by (auto simp: block_def free_set_def demo_state_def in_use_def buddy_consts)
  then show ?thesis using buddy_alloc_complete [OF demo_wf demo_coalesced, of 2 258] b unfolding o by simp
qed

text \<open>
  C11. Releasing a block that is in use returns, makes exactly its frames free, leaves every other
  frame as it was, and keeps the allocator consistent.
\<close>

theorem buddy_free_releases:
  assumes "buddy_wf s" "freeable p n s"
  shows "\<exists>s'. buddy_free_pages p n s = Some s' \<and> buddy_wf s' \<and>
    free_set s' = free_set s \<union> frames_of (page_span n) p \<and>
    allocated_set s' = allocated_set s - frames_of (page_span n) p \<and> reserved_set s' = reserved_set s"
  using free_pages_correct [OF assms] .

theorem buddy_free_releases_witness:
  "buddy_wf demo_back \<and> 256 \<in> allocated_set demo_one \<and> 256 \<in> free_set demo_back \<and> 256 \<notin> allocated_set demo_back"
  using buddy_free_releases [OF demo_one_wf] demo_release demo_one_wf(2)
  by (auto simp: frames_of_def page_span_def freeable_def)

text \<open>
  C12. Both operations keep the free blocks coalesced: if no two buddies are free at the same time
  before, none are after an allocation or after the release of a block in use (other than the one
  at address 0).
\<close>

theorem buddy_keeps_coalesced:
  assumes "buddy_wf s" "buddy_coalesced s"
  shows "(\<forall>n p s'. buddy_alloc_pages n s = Some (p, s') \<longrightarrow> buddy_coalesced s') \<and>
    (\<forall>p n s'. freeable p n s \<and> buddy_free_pages p n s = Some s' \<longrightarrow> buddy_coalesced s')"
  using coalesced_alloc [OF assms] coalesced_free [OF assms] by blast

theorem buddy_keeps_coalesced_witness: "buddy_coalesced demo_one \<and> buddy_coalesced demo_back"
proof -
  have "buddy_coalesced demo_one" using buddy_keeps_coalesced [OF demo_wf demo_coalesced] demo_alloc by blast
  then show ?thesis using buddy_keeps_coalesced [OF demo_one_wf(1)] demo_one_wf(2) demo_release by blast
qed

text \<open>
  C13. In a state without two free buddies, releasing a block right after its allocation restores
  the page table entry by entry: all the splits of the allocation are merged back, however many
  there were.  The block at address 0 is the exception: \<open>buddy_free_pages\<close> takes 0 for an invalid
  address and changes nothing.
\<close>

theorem buddy_alloc_free_roundtrip:
  assumes "buddy_wf s" "buddy_coalesced s" "buddy_alloc_pages n s = Some (p, s1)"
    and "p \<noteq> BUDDY_INVALID_ADDRESS"
  shows "\<exists>s2. buddy_free_pages p n s1 = Some s2 \<and> buddy_wf s2 \<and>
    (if p = 0 then s2 = s1 else \<forall>i. i < NPAGES \<longrightarrow> buddy_page_state s2 i = buddy_page_state s i)"
proof (cases "p = 0")
  case True
  then show ?thesis using buddy.alloc_new(3) [OF assms(1,3,4)] by (simp add: buddy_free_pages_def)
next
  case False
  then show ?thesis using alloc_free_restores [OF assms] by simp
qed

theorem buddy_alloc_free_roundtrip_witness:
  "buddy_page_state demo_one 256 = BUDDY_PAGE_STATE_ALLOCATED \<and> buddy_page_state demo_one 258 = 1 \<and>
   buddy_page_state demo_back 256 = 2 \<and> buddy_page_state demo_back 258 = BUDDY_PAGE_STATE_FREE_BODY"
proof -
  have "buddy_page_state demo_back 256 = buddy_page_state demo_state 256"
    "buddy_page_state demo_back 258 = buddy_page_state demo_state 258"
    using buddy_alloc_free_roundtrip [OF demo_wf demo_coalesced demo_alloc demo_valid] demo_release by auto
  moreover have "buddy_page_state demo_one 256 = 0xFE" "buddy_page_state demo_one 258 = 1"
    by (simp_all add: demo_one_def buddy_run demo_state_def)
  ultimately show ?thesis by (simp add: demo_state_def buddy_consts)
qed

text \<open>
  C14. \<open>buddy_init\<close> on a memory map as the boot protocol promises it (no entry passes the end of the
  address space, usable entries do not overlap) returns a consistent allocator in which exactly
  the frames lying wholly inside a usable entry and below 1 GiB are free, nothing is allocated, and
  everything else is reserved.
\<close>

theorem buddy_init_frees_usable:
  assumes "memmap_ok es" "unat n = length es"
  shows "\<exists>s'. buddy_init (Some \<lparr>entry_count = n, entries = Some es\<rparr>) s = Some s' \<and> buddy_wf s' \<and>
    free_set s' = usable_frames es \<and> allocated_set s' = {} \<and> reserved_set s' = {..<NPAGES} - usable_frames es"
  using buddy_init_correct [OF assms, of s] by (auto simp: buddy_wf_def)

definition demo_map :: "limine_memmap_entry option list" where
  "demo_map = [Some \<lparr>mm_base = 0x1234, mm_length = 0x2000, mm_type = 0\<rparr>, None,
     Some \<lparr>mm_base = 0x8000, mm_length = 0x4000, mm_type = 1\<rparr>,
     Some \<lparr>mm_base = 0x100000, mm_length = 0x4FFF, mm_type = 0\<rparr>]"

lemma demo_map_frames: "usable_frames demo_map = {2, 256, 257, 258, 259}" "memmap_ok demo_map"
  unfolding demo_map_def
  by (auto simp: usable_frames_def entry_frames_def frames_interval LIMINE_MEMMAP_USABLE_def entry_ok_def)

theorem buddy_init_frees_usable_witness:
  "\<exists>s'. buddy_init (Some \<lparr>entry_count = 4, entries = Some demo_map\<rparr>) demo_one = Some s' \<and> buddy_wf s' \<and>
    free_set s' = {2, 256, 257, 258, 259} \<and> allocated_set s' = {}"
  using buddy_init_frees_usable [OF demo_map_frames(2), of 4 demo_one]
  unfolding demo_map_frames(1) by (auto simp: demo_map_def)

text \<open>
  C15. In every run of the allocator, any interleaving of allocations and releases by clients that
  release only what they hold, any two blocks handed out and not yet released are disjoint, and
  all their frames are marked allocated.
\<close>

theorem buddy_live_disjoint:
  assumes "buddy_wf s0" "buddy_reach s0 (s, live)" "i < j" "j < length live"
  shows "held (live ! i) \<inter> held (live ! j) = {} \<and> held (live ! i) \<union> held (live ! j) \<subseteq> allocated_set s"
  using reach_run_inv [OF assms(2,1)] assms(3,4)
  by (auto simp: run_inv_def live_ok_def live_block_def sorted_wrt_iff_nth_less)

definition demo_two :: buddy_state where
  "demo_two = snd (the (buddy_alloc_pages 2 demo_one))"

lemma demo_alloc_two: "buddy_alloc_pages 2 demo_one = Some (0x102000, demo_two)"
  by (simp add: demo_two_def demo_one_def buddy_run demo_state_def)

lemma demo_reach: "buddy_reach demo_state (demo_two, [(0x102000, 2), (0x100000, 1)])"
proof -
  have "0x102000 \<noteq> BUDDY_INVALID_ADDRESS" by (simp add: BUDDY_INVALID_ADDRESS_def)
  then show ?thesis
    using buddy_reach.step [OF buddy_reach.step [OF buddy_reach.start alloc_ok [OF demo_alloc demo_valid]]
        alloc_ok [OF demo_alloc_two]] by blast
qed

theorem buddy_live_disjoint_witness:
  "held (0x102000, 2) = {258, 259} \<and> held (0x100000, 1) = {256} \<and> held (0x102000, 2) \<subseteq> allocated_set demo_two"
proof -
  have "unat (buddy_order_from_pages 2) = 1" by (simp add: buddy_run)
  then have "held (0x102000, 2) = {258, 259}" "held (0x100000, 1) = {256}"
    by (auto simp: held_def frames_of_def page_span_def)
  then show ?thesis using buddy_live_disjoint [OF demo_wf demo_reach, of 0 1] by simp
qed

text \<open>
  No run gets stuck: in every reachable state each further request returns, and each block
  held can be released, so no sequence of such calls leaves the arrays or loops for ever.
\<close>

lemma buddy_run_progress:
  assumes "buddy_wf s0" "buddy_reach s0 (s, live)"
  shows "(\<exists>p s'. buddy_alloc_pages n s = Some (p, s')) \<and>
    (\<forall>b\<in>set live. \<exists>s'. buddy_free_pages (fst b) (snd b) s = Some s')"
proof -
  note inv = reach_run_inv [OF assms(2,1)]
  have "\<exists>s'. buddy_free_pages (fst b) (snd b) s = Some s'" if "b \<in> set live" for b
  proof (cases "fst b = 0")
    case True
    then show ?thesis by (simp add: buddy_free_pages_def)
  next
    case False
    then have "freeable (fst b) (snd b) s"
      using inv that by (auto simp: run_inv_def live_ok_def live_block_def freeable_def held_def)
    then show ?thesis using free_pages_correct [of s "fst b" "snd b"] inv by (auto simp: run_inv_def)
  qed
  then show ?thesis using alloc_pages_returns [of s n] inv by (auto simp: run_inv_def)
qed

text \<open>
  \<open>buddy_order_from_pages\<close> is the least order whose block holds the requested pages, for every
  request the allocator accepts.
\<close>

lemma buddy_order_least:
  assumes "unat n \<le> 2 ^ 18"
  shows "unat (buddy_order_from_pages n) = (LEAST k. unat n \<le> 2 ^ k)"
  using order_from_pages_correct [OF assms]
  by (intro Least_equality [symmetric]) (simp, metis linorder_not_less)

text \<open>
  C16. A second release of the same address, with any page count, is ignored: the first frame is
  no longer marked allocated.
\<close>

theorem buddy_double_free_ignored:
  assumes "buddy_wf s" "freeable p n s" "buddy_free_pages p n s = Some s'"
  shows "buddy_free_pages p m s' = Some s'"
  using free_pages_twice [OF assms] by (cases "m = 0") (simp_all add: buddy_free_pages_def)

theorem buddy_double_free_ignored_witness: "buddy_free_pages 0x100000 7 demo_back = Some demo_back"
  using buddy_double_free_ignored [OF demo_one_wf demo_release] .

text \<open>
  Address 0 doubles as the null address: once the block at frame 0 has been handed out, no
  release gives it back, since \<open>buddy_free_pages\<close> ignores address 0.
\<close>

lemma buddy_frame_zero_leaks:
  assumes "buddy_wf s" "buddy_alloc_pages n s = Some (0, s1)"
  shows "0 \<in> free_set s \<and> 0 \<in> allocated_set s1 \<and> (\<forall>m. buddy_free_pages 0 m s1 = Some s1)"
  using alloc_pages_sound [OF assms]
  by (auto simp: BUDDY_INVALID_ADDRESS_def frames_of_def page_span_def buddy_free_pages_def)

definition demo_low :: buddy_state where
  "demo_low = \<lparr> buddy_page_state = (\<lambda>i. if i = 0 then 0 else 0xFF),
     buddy_free_list = (\<lambda>k. if k = 0 then 0 else UINT32_MAX),
     buddy_free_next = (\<lambda>_. UINT32_MAX), buddy_free_prev = (\<lambda>_. UINT32_MAX)\<rparr>"

lemma demo_low_wf: "buddy_wf demo_low"
proof -
  have h: "heads (\<lambda>k. if k = 0 then [0] else []) = {(0, 0)}" by (auto simp: heads_def split: if_splits)
  have "marks_ok {} {(0, 0)} (buddy_page_state demo_low)"
    by (auto simp: marks_ok_def pages_of_def demo_low_def block_def buddy_consts in_use_def)
  moreover have "links_ok (\<lambda>k. if k = 0 then [0] else []) demo_low" by (simp add: links_ok_def demo_low_def)
  ultimately have "buddy_inv {} (\<lambda>k. if k = 0 then [0] else []) demo_low"
    by (simp add: buddy_inv_def h blocks_ok_def)
  then show ?thesis by (auto simp: buddy_wf_def)
qed

lemma buddy_frame_zero_leaks_demo:
  "\<exists>s1. buddy_alloc_pages 1 demo_low = Some (0, s1) \<and> 0 \<in> allocated_set s1 \<and> buddy_free_pages 0 1 s1 = Some s1"
proof -
  have "\<exists>s1. buddy_alloc_pages 1 demo_low = Some (0, s1)" by (simp add: buddy_run demo_low_def)
  then show ?thesis using buddy_frame_zero_leaks [OF demo_low_wf, of 1] by blast
qed

text \<open>
  The frame number is cut to 32 bits before it is checked against the end of the tables, so a
  release of an address 2^44 above a block in use frees that block.
\<close>

lemma buddy_free_aliases:
  assumes "p \<noteq> 0" "unat p div 4096 < NPAGES" "unat p mod 4096 = 0"
  shows "buddy_free_pages (p + 2 ^ 44) n s = buddy_free_pages p n s"
proof -
  have P: "unat BUDDY_PAGE_SIZE = 4096" by (simp add: BUDDY_PAGE_SIZE_def)
  have "unat p < NPAGES * 4096" using assms(2) by linarith
  then have u: "unat (p + 2 ^ 44) = unat p + 2 ^ 44" by (simp add: unat_plus_if')
  have d: "unat (p div BUDDY_PAGE_SIZE) = unat p div 4096" by (simp add: unat_div P)
  have q: "unat ((p + 2 ^ 44) div BUDDY_PAGE_SIZE) = unat p div 4096 + 2 ^ 32" unfolding unat_div P u by simp
  have "unat (ucast ((p + 2 ^ 44) div BUDDY_PAGE_SIZE) :: u32) = unat (ucast (p div BUDDY_PAGE_SIZE) :: u32)"
    unfolding unsigned_ucast_eq q d by (simp add: take_bit_eq_mod)
  then have f: "(ucast ((p + 2 ^ 44) div BUDDY_PAGE_SIZE) :: u32) = ucast (p div BUDDY_PAGE_SIZE)" by simp
  have "unat (p + 2 ^ 44) = unat p + 4096 * 4294967296" unfolding u by simp
  then have mm: "unat (p + 2 ^ 44) mod 4096 = 0" using assms(3) by (simp only: mod_mult_self2)
  have m: "(p + 2 ^ 44) mod BUDDY_PAGE_SIZE = 0" "p mod BUDDY_PAGE_SIZE = 0"
    using mm assms(3) by (metis P unat_eq_zero unat_mod)+
  have z: "p + 2 ^ 44 \<noteq> 0" using u by (metis add_is_0 power_not_zero unat_0 zero_neq_numeral)
  have U: "unat BUDDY_INVALID_ADDRESS = 18446744073709551615"
    by (simp add: BUDDY_INVALID_ADDRESS_def unsigned_minus_1_eq_mask mask_eq_exp_minus_1)
  have i: "p + 2 ^ 44 \<noteq> BUDDY_INVALID_ADDRESS" "p \<noteq> BUDDY_INVALID_ADDRESS"
    using u U \<open>unat p < NPAGES * 4096\<close> by auto
  show ?thesis using m z i assms(1) unfolding buddy_free_pages_def f by simp
qed

lemma buddy_free_aliases_demo: "buddy_free_pages 0x100000100000 1 demo_one = Some demo_back"
proof -
  have "buddy_free_pages (0x100000 + 2 ^ 44) 1 demo_one = buddy_free_pages 0x100000 1 demo_one"
    by (rule buddy_free_aliases) simp_all
  then show ?thesis using demo_release by simp
qed

end
