(* ===== verification/Byte_Memory.thy ===== *)
theory Byte_Memory
  imports Yoix_Prelude
begin

text \<open>
  Memory as the kernel sees it: a function from 64-bit addresses to bytes, with little-endian
  accesses of 2, 4 and 8 bytes.  \<open>mem_access\<close> is the contract of a typed access, interpreted for
  each width: a load returns what was stored, a store changes its region only, a load depends on
  its region only.  Every structure the kernel keeps in memory (page tables, slab pages, ACPI
  tables, device registers) is read and written through these accesses.
\<close>

section \<open>Regions of the address space\<close>

type_synonym memory = "u64 \<Rightarrow> u8"

definition region :: "u64 \<Rightarrow> nat \<Rightarrow> u64 set" where
  "region a n = {x. unat (x - a) < n}"

lemma region_nonempty: "0 < n \<Longrightarrow> a \<in> region a n"
  by (simp add: region_def)

lemma region_mono: "m \<le> n \<Longrightarrow> region a m \<subseteq> region a n"
  by (auto simp: region_def)

lemma region_empty [simp]: "region a 0 = {}"
  by (simp add: region_def)

lemma region_offset: "unat k + m \<le> n \<Longrightarrow> n \<le> 2 ^ 64 \<Longrightarrow> region (a + k) m \<subseteq> region a n"
proof
  fix x assume k: "unat k + m \<le> n" "n \<le> 2 ^ 64" and "x \<in> region (a + k) m"
  then have x: "unat (x - (a + k)) < m" by (simp add: region_def)
  have e: "x - a = (x - (a + k)) + k" by simp
  have "unat (x - a) = unat (x - (a + k)) + unat k"
    unfolding e by (rule unat_add_less) (use x k in simp)
  then show "x \<in> region a n" using x k by (simp add: region_def)
qed

lemma region_bounds:
  assumes "x \<in> region a n" "unat a + n \<le> 2 ^ 64"
  shows "unat a \<le> unat x" "unat x < unat a + n"
proof -
  have "unat (x - a + a) = unat (x - a) + unat a" using assms by (intro unat_add_less) (simp add: region_def)
  then show "unat a \<le> unat x" "unat x < unat a + n" using assms(1) by (simp_all add: region_def)
qed

lemma region_disjoint_offsets:
  assumes "unat i + n \<le> unat j" "unat j + m \<le> 2 ^ 64"
  shows "region (a + i) n \<inter> region (a + j) m = {}"
proof (rule ccontr)
  assume "region (a + i) n \<inter> region (a + j) m \<noteq> {}"
  then obtain x where x: "unat (x - (a + i)) < n" "unat (x - (a + j)) < m" by (auto simp: region_def)
  have "unat (x - a) = unat (x - (a + i)) + unat i"
    using unat_add_less [of "x - (a + i)" i] x assms by simp
  moreover have "unat (x - a) = unat (x - (a + j)) + unat j"
    using unat_add_less [of "x - (a + j)" j] x assms by simp
  ultimately show False using x assms by linarith
qed

lemma unat_of_nat64: "k < 2 ^ 64 \<Longrightarrow> unat (of_nat k :: u64) = k"
  by (simp add: unat_of_nat)

section \<open>Little-endian accesses\<close>

fun load_le :: "nat \<Rightarrow> u64 \<Rightarrow> memory \<Rightarrow> 'a::len word" where
  "load_le 0 a m = 0"
| "load_le (Suc n) a m = ucast (m a) OR push_bit 8 (load_le n (a + 1) m)"

definition store_le :: "nat \<Rightarrow> 'a::len word \<Rightarrow> u64 \<Rightarrow> memory \<Rightarrow> memory" where
  "store_le n v a m = (\<lambda>x. if unat (x - a) < n then ucast (drop_bit (8 * unat (x - a)) v) else m x)"

lemma bit_load_le:
  "bit (load_le n a m :: 'a::len word) i \<longleftrightarrow> i < LENGTH('a) \<and> i < 8 * n \<and> bit (m (a + of_nat (i div 8))) (i mod 8)"
proof (induction n arbitrary: a i)
  case (Suc n)
  show ?case
  proof (cases "i < 8")
    case True
    then show ?thesis by (auto simp: bit_simps)
  next
    case False
    then have "i div 8 = Suc ((i - 8) div 8)" "i mod 8 = (i - 8) mod 8" by (auto simp: le_div_geq le_mod_geq)
    then show ?thesis using False Suc.IH [of "a + 1" "i - 8"] bit_imp_le_length [of "m a" i]
      by (auto simp: bit_simps ac_simps)
  qed
qed simp

lemma load_le_cong: "(\<And>x. x \<in> region a n \<Longrightarrow> m x = m' x) \<Longrightarrow> n \<le> 2 ^ 64 \<Longrightarrow>
  (load_le n a m :: 'a::len word) = load_le n a m'"
proof (rule bit_word_eqI)
  fix i assume eq: "\<And>x. x \<in> region a n \<Longrightarrow> m x = m' x" and n: "n \<le> 2 ^ 64"
  show "bit (load_le n a m :: 'a word) i = bit (load_le n a m' :: 'a word) i"
  proof (cases "i < 8 * n")
    case True
    then have d: "i div 8 < n" by simp
    then have "unat (of_nat (i div 8) :: u64) = i div 8" using n by (simp add: unat_of_nat64)
    then have "a + of_nat (i div 8) \<in> region a n" using d by (simp add: region_def)
    then show ?thesis using eq by (simp add: bit_load_le)
  qed (simp add: bit_load_le)
qed

lemma store_le_outside: "x \<notin> region a n \<Longrightarrow> store_le n v a m x = m x"
  by (simp add: store_le_def region_def)

lemma load_le_store_le:
  fixes v :: "'a::len word"
  assumes "LENGTH('a) = 8 * n" "n \<le> 2 ^ 64"
  shows "load_le n a (store_le n v a m) = v"
proof (rule bit_word_eqI)
  fix i assume i: "i < LENGTH('a)"
  then have d: "i div 8 < n" using assms by simp
  then have u: "unat (of_nat (i div 8) :: u64) = i div 8" using assms by (simp add: unat_of_nat64)
  show "bit (load_le n a (store_le n v a m) :: 'a word) i = bit v i"
    using i d u assms by (simp add: bit_load_le store_le_def bit_simps)
qed

text \<open>The contract of a typed access, whatever its width.\<close>

locale mem_access =
  fixes load :: "u64 \<Rightarrow> memory \<Rightarrow> 'v" and store :: "'v \<Rightarrow> u64 \<Rightarrow> memory \<Rightarrow> memory" and width :: nat
  assumes load_store: "load a (store v a m) = v"
    and store_outside: "x \<notin> region a width \<Longrightarrow> store v a m x = m x"
    and load_region: "(\<And>x. x \<in> region a width \<Longrightarrow> m x = m' x) \<Longrightarrow> load a m = load a m'"
begin

lemma load_store_apart: "region a width \<inter> region b width = {} \<Longrightarrow> load a (store v b m) = load a m"
  by (rule load_region) (auto intro: store_outside)

lemma load_unchanged: "(\<And>x. x \<notin> R \<Longrightarrow> m' x = m x) \<Longrightarrow> region a width \<inter> R = {} \<Longrightarrow> load a m' = load a m"
  by (rule load_region) auto

lemma store_in: "region a width \<subseteq> R \<Longrightarrow> x \<notin> R \<Longrightarrow> store v a m x = m x"
  by (rule store_outside) auto

end

definition load16 :: "u64 \<Rightarrow> memory \<Rightarrow> u16" where "load16 = load_le 2"
definition load32 :: "u64 \<Rightarrow> memory \<Rightarrow> u32" where "load32 = load_le 4"
definition load64 :: "u64 \<Rightarrow> memory \<Rightarrow> u64" where "load64 = load_le 8"
definition store16 :: "u16 \<Rightarrow> u64 \<Rightarrow> memory \<Rightarrow> memory" where "store16 = store_le 2"
definition store32 :: "u32 \<Rightarrow> u64 \<Rightarrow> memory \<Rightarrow> memory" where "store32 = store_le 4"
definition store64 :: "u64 \<Rightarrow> u64 \<Rightarrow> memory \<Rightarrow> memory" where "store64 = store_le 8"

lemmas access_defs = load16_def load32_def load64_def store16_def store32_def store64_def

interpretation m16: mem_access load16 store16 2
  by unfold_locales (auto simp: access_defs load_le_store_le store_le_outside intro: load_le_cong)

interpretation m32: mem_access load32 store32 4
  by unfold_locales (auto simp: access_defs load_le_store_le store_le_outside intro: load_le_cong)

interpretation m64: mem_access load64 store64 8
  by unfold_locales (auto simp: access_defs load_le_store_le store_le_outside intro: load_le_cong)

end
