(* ===== verification/Mem_Functions.thy ===== *)
theory Mem_Functions
  imports Byte_Memory
begin

text \<open>
  The memory functions of \<open>src/kernel/src/main.c\<close> (\<open>memcpy\<close>, \<open>memset\<close>, \<open>memmove\<close>, \<open>memcmp\<close>), which
  the compiler may call on its own, with the copies and fills they perform.
\<close>

section \<open>The memory functions of the kernel\<close>

text \<open>
  Each loop counts a \<open>size_t\<close>, as in the source.  A null pointer may be passed when nothing is
  accessed; dereferencing it is undefined.
\<close>

function memcpy_loop :: "u64 \<Rightarrow> u64 \<Rightarrow> u64 \<Rightarrow> u64 \<Rightarrow> memory \<Rightarrow> memory option" where
  "memcpy_loop i n pdest psrc m =
     (if i < n
      then if pdest = NULL \<or> psrc = NULL then None
           else memcpy_loop (i + 1) n pdest psrc (m(pdest + i := m (psrc + i)))
      else Some m)"
  by pat_completeness auto
termination
  by (relation "measure (\<lambda>(i, n, _). unat n - unat i)") (auto simp: unat_Suc_less word_less_nat_alt)

declare memcpy_loop.simps [simp del]

definition memcpy :: "u64 \<Rightarrow> u64 \<Rightarrow> u64 \<Rightarrow> memory \<Rightarrow> (u64 \<times> memory) option" where
  "memcpy dest src n m = do { m \<leftarrow> memcpy_loop 0 n dest src m; Some (dest, m) }"

function memset_loop :: "u64 \<Rightarrow> u64 \<Rightarrow> u64 \<Rightarrow> u32 \<Rightarrow> memory \<Rightarrow> memory option" where
  "memset_loop i n p c m =
     (if i < n
      then if p = NULL then None else memset_loop (i + 1) n p c (m(p + i := ucast c))
      else Some m)"
  by pat_completeness auto
termination
  by (relation "measure (\<lambda>(i, n, _). unat n - unat i)") (auto simp: unat_Suc_less word_less_nat_alt)

declare memset_loop.simps [simp del]

definition memset :: "u64 \<Rightarrow> u32 \<Rightarrow> u64 \<Rightarrow> memory \<Rightarrow> (u64 \<times> memory) option" where
  "memset s c n m = do { m \<leftarrow> memset_loop 0 n s c m; Some (s, m) }"

function memmove_down :: "u64 \<Rightarrow> u64 \<Rightarrow> u64 \<Rightarrow> memory \<Rightarrow> memory option" where
  "memmove_down i pdest psrc m =
     (if i > 0
      then if pdest = NULL \<or> psrc = NULL then None
           else memmove_down (i - 1) pdest psrc (m(pdest + (i - 1) := m (psrc + (i - 1))))
      else Some m)"
  by pat_completeness auto
termination
  by (relation "measure (\<lambda>(i, _). unat i)") (auto simp: measure_unat word_gt_0)

declare memmove_down.simps [simp del]

definition memmove :: "u64 \<Rightarrow> u64 \<Rightarrow> u64 \<Rightarrow> memory \<Rightarrow> (u64 \<times> memory) option" where
  "memmove dest src n m =
     do { m \<leftarrow> (if src > dest then memcpy_loop 0 n dest src m
                 else if src < dest then memmove_down n dest src m
                 else Some m);
          Some (dest, m) }"

function memcmp_loop :: "u64 \<Rightarrow> u64 \<Rightarrow> u64 \<Rightarrow> u64 \<Rightarrow> memory \<Rightarrow> int option" where
  "memcmp_loop i n p1 p2 m =
     (if i < n
      then if p1 = NULL \<or> p2 = NULL then None
           else if m (p1 + i) \<noteq> m (p2 + i) then Some (if m (p1 + i) < m (p2 + i) then - 1 else 1)
           else memcmp_loop (i + 1) n p1 p2 m
      else Some 0)"
  by pat_completeness auto
termination
  by (relation "measure (\<lambda>(i, n, _). unat n - unat i)") (auto simp: unat_Suc_less word_less_nat_alt)

declare memcmp_loop.simps [simp del]

definition memcmp :: "u64 \<Rightarrow> u64 \<Rightarrow> u64 \<Rightarrow> memory \<Rightarrow> int option" where
  "memcmp s1 s2 n m = memcmp_loop 0 n s1 s2 m"


section \<open>What they do\<close>

definition copy_region :: "u64 \<Rightarrow> u64 \<Rightarrow> nat \<Rightarrow> memory \<Rightarrow> memory" where
  "copy_region dest src n m = (\<lambda>x. if x \<in> region dest n then m (src + (x - dest)) else m x)"

text \<open>An upward copy must not overwrite what it has still to read, nor a downward copy.\<close>

definition upward_safe :: "u64 \<Rightarrow> u64 \<Rightarrow> nat \<Rightarrow> bool" where
  "upward_safe dest src n \<longleftrightarrow> (\<forall>i j. unat i < unat j \<and> unat j < n \<longrightarrow> src + j \<noteq> dest + i)"

definition downward_safe :: "u64 \<Rightarrow> u64 \<Rightarrow> nat \<Rightarrow> bool" where
  "downward_safe dest src n \<longleftrightarrow> (\<forall>i j. unat j < unat i \<and> unat i < n \<longrightarrow> src + j \<noteq> dest + i)"

lemma memcpy_loop_correct:
  assumes "dest \<noteq> NULL" "src \<noteq> NULL" "upward_safe dest src (unat n)"
  shows "memcpy_loop i n dest src m =
    Some (\<lambda>x. if unat i \<le> unat (x - dest) \<and> unat (x - dest) < unat n then m (src + (x - dest)) else m x)"
  using assms
proof (induction i n dest src m rule: memcpy_loop.induct)
  case (1 i n dest src m)
  show ?case
  proof (cases "i < n")
    case False
    then show ?thesis by (subst memcpy_loop.simps) (auto simp: word_less_nat_alt fun_eq_iff)
  next
    case True
    note Suc = unat_Suc_less [OF True]
    let ?m = "m(dest + i := m (src + i))"
    have "memcpy_loop i n dest src m = memcpy_loop (i + 1) n dest src ?m"
      using True "1.prems" by (subst memcpy_loop.simps) simp
    also have "\<dots> = Some (\<lambda>x. if unat (i + 1) \<le> unat (x - dest) \<and> unat (x - dest) < unat n then ?m (src + (x - dest)) else ?m x)"
      by (rule "1.IH") (use True "1.prems" in auto)
    also have "\<dots> = Some (\<lambda>x. if unat i \<le> unat (x - dest) \<and> unat (x - dest) < unat n then m (src + (x - dest)) else m x)"
    proof (intro arg_cong [where f = Some] ext)
      fix x
      have eq: "x = dest + i \<longleftrightarrow> unat (x - dest) = unat i" by (auto simp: algebra_simps)
      have ne: "src + (x - dest) \<noteq> dest + i" if "unat i < unat (x - dest)" "unat (x - dest) < unat n"
        using "1.prems"(3) that by (auto simp: upward_safe_def)
      show "(if unat (i + 1) \<le> unat (x - dest) \<and> unat (x - dest) < unat n then ?m (src + (x - dest)) else ?m x) =
            (if unat i \<le> unat (x - dest) \<and> unat (x - dest) < unat n then m (src + (x - dest)) else m x)"
        using ne eq True Suc by (cases "x = dest + i") (auto simp: word_less_nat_alt simp del: unat_inj_iff)
    qed
    finally show ?thesis .
  qed
qed

lemma memmove_down_correct:
  assumes "dest \<noteq> NULL" "src \<noteq> NULL" "downward_safe dest src (unat i)"
  shows "memmove_down i dest src m = Some (copy_region dest src (unat i) m)"
  using assms
proof (induction i dest src m rule: memmove_down.induct)
  case (1 i dest src m)
  show ?case
  proof (cases "i > 0")
    case False
    then show ?thesis by (subst memmove_down.simps) (simp add: copy_region_def word_gt_0 region_def)
  next
    case True
    then have u: "unat i = Suc (unat (i - 1))" by (metis Suc_pred' unat_gt_0 unat_minus_one word_gt_0)
    let ?k = "i - 1"
    let ?m = "m(dest + ?k := m (src + ?k))"
    have safe: "downward_safe dest src (unat ?k)" using "1.prems"(3) u by (auto simp: downward_safe_def)
    have "memmove_down i dest src m = memmove_down ?k dest src ?m"
      using True "1.prems" by (subst memmove_down.simps) simp
    also have "\<dots> = Some (copy_region dest src (unat ?k) ?m)"
      by (rule "1.IH") (use True "1.prems" safe in auto)
    also have "copy_region dest src (unat ?k) ?m = copy_region dest src (unat i) m"
    proof
      fix x
      have eq: "x = dest + ?k \<longleftrightarrow> unat (x - dest) = unat ?k" by (auto simp: algebra_simps)
      have ne: "src + (x - dest) \<noteq> dest + ?k" if "unat (x - dest) < unat ?k"
        using "1.prems"(3) that u by (auto simp: downward_safe_def)
      show "copy_region dest src (unat ?k) ?m x = copy_region dest src (unat i) m x"
        using ne eq u by (cases "x = dest + ?k") (auto simp: copy_region_def region_def simp del: unat_inj_iff)
    qed
    finally show ?thesis .
  qed
qed

lemma memset_loop_correct:
  assumes "p \<noteq> NULL"
  shows "memset_loop i n p c m =
    Some (\<lambda>x. if unat i \<le> unat (x - p) \<and> unat (x - p) < unat n then ucast c else m x)"
  using assms
proof (induction i n p c m rule: memset_loop.induct)
  case (1 i n p c m)
  show ?case
  proof (cases "i < n")
    case False
    then show ?thesis by (subst memset_loop.simps) (auto simp: word_less_nat_alt fun_eq_iff)
  next
    case True
    note Suc = unat_Suc_less [OF True]
    have "memset_loop i n p c m = memset_loop (i + 1) n p c (m(p + i := ucast c))"
      using True "1.prems" by (subst memset_loop.simps) simp
    also have "\<dots> = Some (\<lambda>x. if unat (i + 1) \<le> unat (x - p) \<and> unat (x - p) < unat n then ucast c
        else (m(p + i := ucast c)) x)"
      by (rule "1.IH") (use True "1.prems" in auto)
    also have "\<dots> = Some (\<lambda>x. if unat i \<le> unat (x - p) \<and> unat (x - p) < unat n then ucast c else m x)"
    proof (intro arg_cong [where f = Some] ext)
      fix x
      have eq: "x = p + i \<longleftrightarrow> unat (x - p) = unat i" by (auto simp: algebra_simps)
      show "(if unat (i + 1) \<le> unat (x - p) \<and> unat (x - p) < unat n then ucast c else (m(p + i := ucast c)) x) =
            (if unat i \<le> unat (x - p) \<and> unat (x - p) < unat n then ucast c else m x)"
        using eq True Suc by (cases "x = p + i") (auto simp: word_less_nat_alt simp del: unat_inj_iff)
    qed
    finally show ?thesis .
  qed
qed

lemma memcmp_loop_correct:
  assumes "p1 \<noteq> NULL" "p2 \<noteq> NULL"
  shows "(\<forall>j. i \<le> j \<and> j < n \<longrightarrow> m (p1 + j) = m (p2 + j)) \<and> memcmp_loop i n p1 p2 m = Some 0 \<or>
    (\<exists>k. i \<le> k \<and> k < n \<and> (\<forall>j. i \<le> j \<and> j < k \<longrightarrow> m (p1 + j) = m (p2 + j)) \<and> m (p1 + k) \<noteq> m (p2 + k) \<and>
       memcmp_loop i n p1 p2 m = Some (if m (p1 + k) < m (p2 + k) then - 1 else 1))"
  using assms
proof (induction i n p1 p2 m rule: memcmp_loop.induct)
  case (1 i n p1 p2 m)
  show ?case
  proof (cases "i < n")
    case False
    then show ?thesis by (subst memcmp_loop.simps) auto
  next
    case True
    show ?thesis
    proof (cases "m (p1 + i) = m (p2 + i)")
      case False
      then have "memcmp_loop i n p1 p2 m = Some (if m (p1 + i) < m (p2 + i) then - 1 else 1)"
        using True "1.prems" by (subst memcmp_loop.simps) simp
      then show ?thesis using True False by (intro disjI2 exI [of _ i]) auto
    next
      case eq: True
      have step: "memcmp_loop i n p1 p2 m = memcmp_loop (i + 1) n p1 p2 m"
        using True eq "1.prems" by (subst memcmp_loop.simps) simp
      have le: "i \<le> j \<longleftrightarrow> j = i \<or> i + 1 \<le> j" for j
        using unat_Suc_less [OF True] by (auto simp: word_le_nat_alt le_eq_less_or_eq Suc_le_eq)
      show ?thesis
        using "1.IH" [OF True _ _ ] "1.prems" eq unfolding step le by fastforce
    qed
  qed
qed


lemma copy_region_loop:
  "(\<lambda>x. if unat (0::u64) \<le> unat (x - dest) \<and> unat (x - dest) < n then m (src + (x - dest)) else m x) =
   copy_region dest src n m"
  by (simp add: copy_region_def region_def)

lemma upward_safe_above:
  assumes "dest < src" "unat src + n \<le> 2 ^ 64"
  shows "upward_safe dest src n"
  unfolding upward_safe_def
proof (intro allI impI notI)
  fix i j assume ij: "unat i < unat j \<and> unat j < n" and eq: "src + j = dest + i"
  have "unat (src + j) = unat src + unat j" using ij assms by (intro unat_add_less) simp
  moreover have "unat (dest + i) = unat dest + unat i"
    using ij assms by (intro unat_add_less) (simp add: word_less_nat_alt)
  ultimately show False using eq ij assms(1) by (simp add: word_less_nat_alt)
qed

lemma downward_safe_below:
  assumes "src < dest" "unat dest + n \<le> 2 ^ 64"
  shows "downward_safe dest src n"
  unfolding downward_safe_def
proof (intro allI impI notI)
  fix i j assume ij: "unat j < unat i \<and> unat i < n" and eq: "src + j = dest + i"
  have "unat (dest + i) = unat dest + unat i" using ij assms by (intro unat_add_less) simp
  moreover have "unat (src + j) = unat src + unat j"
    using ij assms by (intro unat_add_less) (simp add: word_less_nat_alt)
  ultimately show False using eq ij assms(1) by (simp add: word_less_nat_alt)
qed

lemma upward_safe_apart:
  assumes "region dest n \<inter> region src n = {}"
  shows "upward_safe dest src n"
  unfolding upward_safe_def
proof (intro allI impI notI)
  fix i j assume ij: "unat i < unat j \<and> unat j < n" and eq: "src + j = dest + i"
  have "src + j \<in> region src n" "dest + i \<in> region dest n" using ij by (auto simp: region_def)
  then show False using assms eq by auto
qed

section \<open>Properties\<close>

text \<open>
  C17. \<open>memmove\<close> copies as if through a temporary buffer, however source and destination overlap:
  each destination byte gets what the corresponding source byte held before the call, every other
  byte is kept, and the destination is returned.
\<close>

theorem memmove_copies:
  assumes "dest \<noteq> NULL" "src \<noteq> NULL" "unat dest + unat n \<le> 2 ^ 64" "unat src + unat n \<le> 2 ^ 64"
  shows "memmove dest src n m = Some (dest, copy_region dest src (unat n) m)"
proof -
  consider "dest < src" | "src < dest" | "src = dest" by (metis linorder_neqE)
  then show ?thesis
  proof cases
    case 1
    then show ?thesis
      using memcpy_loop_correct [OF assms(1,2) upward_safe_above [OF 1 assms(4)], of 0 m]
      unfolding copy_region_loop by (simp add: memmove_def)
  next
    case 2
    then show ?thesis
      using memmove_down_correct [OF assms(1,2) downward_safe_below [OF 2 assms(3)], of m]
      by (auto simp: memmove_def)
  next
    case 3
    then show ?thesis by (simp add: memmove_def copy_region_def fun_eq_iff)
  qed
qed

theorem memmove_copies_witness:
  "\<exists>m. memmove 0x1002 0x1000 4 ucast = Some (0x1002, m) \<and>
     m 0x1001 = 1 \<and> m 0x1002 = 0 \<and> m 0x1003 = 1 \<and> m 0x1004 = 2 \<and> m 0x1005 = 3 \<and> m 0x1006 = 6"
proof -
  have "memmove 0x1002 0x1000 4 ucast = Some (0x1002, copy_region 0x1002 0x1000 4 ucast)"
    using memmove_copies [of "0x1002" "0x1000" 4 ucast] by simp
  then show ?thesis by (simp add: copy_region_def region_def unsigned_minus_1_eq_mask mask_eq_exp_minus_1)
qed

text \<open>
  C18. \<open>memcpy\<close> of regions that do not overlap copies every byte and \<open>memset\<close> stores the low byte
  of its argument in every byte of its region; both keep all other bytes and return the
  destination.
\<close>

theorem memcpy_memset_fill:
  assumes "dest \<noteq> NULL" "src \<noteq> NULL" "region dest (unat n) \<inter> region src (unat n) = {}"
  shows "memcpy dest src n m = Some (dest, copy_region dest src (unat n) m) \<and>
    memset dest c n m = Some (dest, \<lambda>x. if x \<in> region dest (unat n) then ucast c else m x)"
proof
  show "memcpy dest src n m = Some (dest, copy_region dest src (unat n) m)"
    using memcpy_loop_correct [OF assms(1,2) upward_safe_apart [OF assms(3)], of 0 m]
    unfolding copy_region_loop by (simp add: memcpy_def)
  show "memset dest c n m = Some (dest, \<lambda>x. if x \<in> region dest (unat n) then ucast c else m x)"
    using memset_loop_correct [OF assms(1), of 0 n c m] by (simp add: memset_def region_def)
qed

theorem memcpy_memset_fill_witness:
  "\<exists>m m'. memcpy 0x2000 0x1000 2 ucast = Some (0x2000, m) \<and> m 0x2001 = 1 \<and>
     memset 0x2000 0x1FF 2 ucast = Some (0x2000, m') \<and> m' 0x2001 = 0xFF \<and> m' 0x2002 = 2"
proof -
  have "region 0x2000 (unat (2::u64)) \<inter> region 0x1000 (unat (2::u64)) = {}"
    using region_disjoint_offsets [of "0x1000" 2 "0x2000" 2 0] by (simp add: Int_commute)
  then have "memcpy 0x2000 0x1000 2 ucast = Some (0x2000, copy_region 0x2000 0x1000 2 ucast) \<and>
    memset 0x2000 0x1FF 2 ucast = Some (0x2000, \<lambda>x. if x \<in> region 0x2000 2 then ucast (0x1FF :: u32) else ucast x)"
    using memcpy_memset_fill [of "0x2000" "0x1000" 2 ucast "0x1FF"] by simp
  then show ?thesis by (simp add: copy_region_def region_def)
qed

text \<open>
  C19. \<open>memcmp\<close> of two regions that are not at \<open>NULL\<close> returns, with 0 exactly when they agree, with -1
  exactly when the first of the bytes that differ is smaller in the first region, and with 1
  exactly when it is larger there; there is no other value.
\<close>

theorem memcmp_first_difference:
  assumes "s1 \<noteq> NULL" "s2 \<noteq> NULL"
  shows "\<exists>r. memcmp s1 s2 n m = Some r \<and>
    (r = 0 \<longleftrightarrow> (\<forall>j<n. m (s1 + j) = m (s2 + j))) \<and>
    (r = - 1 \<longleftrightarrow> (\<exists>k<n. (\<forall>j<k. m (s1 + j) = m (s2 + j)) \<and> m (s1 + k) < m (s2 + k))) \<and>
    (r = 1 \<longleftrightarrow> (\<exists>k<n. (\<forall>j<k. m (s1 + j) = m (s2 + j)) \<and> m (s2 + k) < m (s1 + k))) \<and> r \<in> {- 1, 0, 1}"
proof -
  have *: "(\<forall>j. j < n \<longrightarrow> m (s1 + j) = m (s2 + j)) \<and> memcmp s1 s2 n m = Some 0 \<or>
    (\<exists>k<n. (\<forall>j<k. m (s1 + j) = m (s2 + j)) \<and> m (s1 + k) \<noteq> m (s2 + k) \<and>
       memcmp s1 s2 n m = Some (if m (s1 + k) < m (s2 + k) then - 1 else 1))"
    using memcmp_loop_correct [OF assms, of 0 n m] by (simp add: memcmp_def)
  then consider "\<forall>j<n. m (s1 + j) = m (s2 + j)" "memcmp s1 s2 n m = Some 0"
    | k where "k < n" "\<forall>j<k. m (s1 + j) = m (s2 + j)" "m (s1 + k) \<noteq> m (s2 + k)"
      "memcmp s1 s2 n m = Some (if m (s1 + k) < m (s2 + k) then - 1 else 1)" by blast
  then show ?thesis
  proof cases
    case 1
    then show ?thesis by force
  next
    case k: (2 k)
    have "k' = k" if "\<forall>j<k'. m (s1 + j) = m (s2 + j)" "m (s1 + k') \<noteq> m (s2 + k')" for k'
      using that k(2,3) by (metis linorder_neqE)
    then have u: "(\<exists>k'<n. (\<forall>j<k'. m (s1 + j) = m (s2 + j)) \<and> m (s1 + k') < m (s2 + k')) \<longleftrightarrow> m (s1 + k) < m (s2 + k)"
        "(\<exists>k'<n. (\<forall>j<k'. m (s1 + j) = m (s2 + j)) \<and> m (s2 + k') < m (s1 + k')) \<longleftrightarrow> m (s2 + k) < m (s1 + k)"
      using k(1,2) by (metis less_irrefl)+
    show ?thesis unfolding u using k(1,3,4) by (cases "m (s1 + k) < m (s2 + k)") auto
  qed
qed

theorem memcmp_first_difference_witness:
  "memcmp 0x1000 0x1001 3 ucast = Some (- 1) \<and> memcmp 0x1001 0x1000 3 ucast = Some 1"
proof -
  have k: "\<exists>k<3. (\<forall>j<k. (ucast (0x1000 + j :: u64) :: u8) = ucast (0x1001 + j :: u64)) \<and>
      (ucast (0x1000 + k :: u64) :: u8) < ucast (0x1001 + k :: u64)"
    by (rule exI [of _ 0]) simp
  then have k': "\<exists>k<3. (\<forall>j<k. (ucast (0x1001 + j :: u64) :: u8) = ucast (0x1000 + j :: u64)) \<and>
      (ucast (0x1000 + k :: u64) :: u8) < ucast (0x1001 + k :: u64)"
    by metis
  show ?thesis using memcmp_first_difference [of "0x1000" "0x1001" 3 ucast] k
      memcmp_first_difference [of "0x1001" "0x1000" 3 ucast] k' by auto
qed

end
