(* ===== verification/Machine.thy ===== *)
theory Machine
  imports Buddy_API Byte_Memory
begin

text \<open>
  The state the memory subsystems share: the page allocator, memory, the direct map and the
  registers of the paging unit.  Components with more state extend the record; their functions
  take any extension of it (\<open>'a machine_scheme\<close>), so that one can call the other.
\<close>

section \<open>The machine\<close>

text \<open>
  \<open>hhdm\<close> is the boot loader's answer to \<open>hhdm_request\<close>: the offset of the direct map, or no answer.
  \<open>mem\<close> is memory at the addresses the kernel uses, \<open>tlb_flushed\<close> the addresses given to \<open>invlpg\<close>.
\<close>

record machine =
  buddy :: buddy_state
  mem :: memory
  hhdm :: "u64 option"
  cr3 :: u64
  tlb_flushed :: "u64 list"

definition machine_alloc_page :: "'a machine_scheme \<Rightarrow> (u64 \<times> 'a machine_scheme) option" where
  "machine_alloc_page s = do { (p, b) \<leftarrow> buddy_alloc_page (buddy s); Some (p, s\<lparr>buddy := b\<rparr>) }"

definition machine_alloc_pages :: "u64 \<Rightarrow> 'a machine_scheme \<Rightarrow> (u64 \<times> 'a machine_scheme) option" where
  "machine_alloc_pages n s = do { (p, b) \<leftarrow> buddy_alloc_pages n (buddy s); Some (p, s\<lparr>buddy := b\<rparr>) }"

definition machine_free_page :: "u64 \<Rightarrow> 'a machine_scheme \<Rightarrow> 'a machine_scheme option" where
  "machine_free_page p s = do { b \<leftarrow> buddy_free_page p (buddy s); Some (s\<lparr>buddy := b\<rparr>) }"

definition machine_free_pages :: "u64 \<Rightarrow> u64 \<Rightarrow> 'a machine_scheme \<Rightarrow> 'a machine_scheme option" where
  "machine_free_pages p n s = do { b \<leftarrow> buddy_free_pages p n (buddy s); Some (s\<lparr>buddy := b\<rparr>) }"

text \<open>Accesses \<open>p[i]\<close> and \<open>p->field\<close> through a pointer: undefined when the pointer is \<open>NULL\<close>.\<close>

definition read8 :: "u64 \<Rightarrow> u64 \<Rightarrow> 'a machine_scheme \<Rightarrow> u8 option" where
  "read8 p off s = (if p = NULL then None else Some (mem s (p + off)))"
definition read16 :: "u64 \<Rightarrow> u64 \<Rightarrow> 'a machine_scheme \<Rightarrow> u16 option" where
  "read16 p off s = (if p = NULL then None else Some (load16 (p + off) (mem s)))"
definition read32 :: "u64 \<Rightarrow> u64 \<Rightarrow> 'a machine_scheme \<Rightarrow> u32 option" where
  "read32 p off s = (if p = NULL then None else Some (load32 (p + off) (mem s)))"
definition read64 :: "u64 \<Rightarrow> u64 \<Rightarrow> 'a machine_scheme \<Rightarrow> u64 option" where
  "read64 p off s = (if p = NULL then None else Some (load64 (p + off) (mem s)))"

definition write16 :: "u64 \<Rightarrow> u64 \<Rightarrow> u16 \<Rightarrow> 'a machine_scheme \<Rightarrow> 'a machine_scheme option" where
  "write16 p off v s = (if p = NULL then None else Some (s\<lparr>mem := store16 v (p + off) (mem s)\<rparr>))"
definition write32 :: "u64 \<Rightarrow> u64 \<Rightarrow> u32 \<Rightarrow> 'a machine_scheme \<Rightarrow> 'a machine_scheme option" where
  "write32 p off v s = (if p = NULL then None else Some (s\<lparr>mem := store32 v (p + off) (mem s)\<rparr>))"
definition write64 :: "u64 \<Rightarrow> u64 \<Rightarrow> u64 \<Rightarrow> 'a machine_scheme \<Rightarrow> 'a machine_scheme option" where
  "write64 p off v s = (if p = NULL then None else Some (s\<lparr>mem := store64 v (p + off) (mem s)\<rparr>))"

lemmas pointer_access = read8_def read16_def read32_def read64_def write16_def write32_def write64_def

end
