(* ===== verification/VMM_Model.thy ===== *)
theory VMM_Model
  imports Machine
begin

text \<open>
  The paging code, \<open>src/kernel/src/memory/vmm.c\<close> and \<open>vmm.h\<close>, function by function: the four-level walk
  through memory, tables made on demand by \<open>Make_Page\<close>, and the three public operations.
\<close>

section \<open>Constants and indices\<close>

definition PAGE_PRESENT :: u64 where "PAGE_PRESENT = push_bit 0 1"
definition PAGE_WRITABLE :: u64 where "PAGE_WRITABLE = push_bit 1 1"
definition PAGE_USER :: u64 where "PAGE_USER = push_bit 2 1"
definition PAGE_ADDR_MASK :: u64 where "PAGE_ADDR_MASK = 0x000FFFFFFFFFF000"
definition PAGE_PWT :: u64 where "PAGE_PWT = push_bit 3 1"
definition PAGE_PCD :: u64 where "PAGE_PCD = push_bit 4 1"

definition PML4_INDEX :: "u64 \<Rightarrow> u64" where "PML4_INDEX addr = drop_bit 39 addr AND 0x1FF"
definition PDPT_INDEX :: "u64 \<Rightarrow> u64" where "PDPT_INDEX addr = drop_bit 30 addr AND 0x1FF"
definition PD_INDEX :: "u64 \<Rightarrow> u64" where "PD_INDEX addr = drop_bit 21 addr AND 0x1FF"
definition PT_INDEX :: "u64 \<Rightarrow> u64" where "PT_INDEX addr = drop_bit 12 addr AND 0x1FF"

section \<open>Operations\<close>

definition phy_to_virt :: "u64 \<Rightarrow> 'a machine_scheme \<Rightarrow> u64" where
  "phy_to_virt phys s = (case hhdm s of None \<Rightarrow> NULL | Some off \<Rightarrow> phys + off)"

definition read_cr3 :: "'a machine_scheme \<Rightarrow> u64" where
  "read_cr3 s = cr3 s"

definition invlpg_tlb :: "u64 \<Rightarrow> 'a machine_scheme \<Rightarrow> 'a machine_scheme" where
  "invlpg_tlb addr s = s\<lparr>tlb_flushed := tlb_flushed s @ [addr]\<rparr>"

function zero_loop :: "nat \<Rightarrow> u64 \<Rightarrow> 'a machine_scheme \<Rightarrow> 'a machine_scheme option" where
  "zero_loop i page_virt s =
     (if i < 512
      then do { s \<leftarrow> write64 page_virt (8 * of_nat i) 0 s; zero_loop (i + 1) page_virt s }
      else Some s)"
  by pat_completeness auto
termination
  by (relation "measure (\<lambda>(i, _). 512 - i)") auto

declare zero_loop.simps [simp del]

definition Make_Page :: "'a machine_scheme \<Rightarrow> (u64 \<times> 'a machine_scheme) option" where
  "Make_Page s =
     do { (page_phy, s) \<leftarrow> machine_alloc_page s;
          if page_phy = BUDDY_INVALID_ADDRESS then Some (BUDDY_INVALID_ADDRESS, s)
          else do { s \<leftarrow> zero_loop 0 (phy_to_virt page_phy s) s; Some (page_phy, s) } }"

definition vmm_get_next_level :: "u64 \<Rightarrow> u64 \<Rightarrow> 'a machine_scheme \<Rightarrow> (u64 \<times> 'a machine_scheme) option" where
  "vmm_get_next_level table index s =
     do { entry \<leftarrow> read64 table (8 * index) s;
          if entry AND PAGE_PRESENT = 0
          then do { (new_table_phys, s) \<leftarrow> Make_Page s;
                    if new_table_phys = BUDDY_INVALID_ADDRESS then Some (NULL, s)
                    else do { s \<leftarrow> write64 table (8 * index) (new_table_phys OR PAGE_PRESENT OR PAGE_WRITABLE) s;
                              Some (phy_to_virt new_table_phys s, s) } }
          else Some (phy_to_virt (entry AND PAGE_ADDR_MASK) s, s) }"

definition vmm_get_existing_level :: "u64 \<Rightarrow> u64 \<Rightarrow> 'a machine_scheme \<Rightarrow> u64 option" where
  "vmm_get_existing_level table index s =
     do { entry \<leftarrow> read64 table (8 * index) s;
          if entry AND PAGE_PRESENT = 0 then Some NULL
          else Some (phy_to_virt (entry AND PAGE_ADDR_MASK) s) }"

definition vmm_map :: "u64 \<Rightarrow> u64 \<Rightarrow> u64 \<Rightarrow> 'a machine_scheme \<Rightarrow> (bool \<times> 'a machine_scheme) option" where
  "vmm_map virt_addr phys_addr flags s =
     (let pml4_index = PML4_INDEX virt_addr; pdpt_index = PDPT_INDEX virt_addr;
          pd_index = PD_INDEX virt_addr; pt_index = PT_INDEX virt_addr;
          pml4 = phy_to_virt (read_cr3 s AND PAGE_ADDR_MASK) s in
      if pml4 = NULL then Some (False, s)
      else do { (pdpt, s) \<leftarrow> vmm_get_next_level pml4 pml4_index s;
      if pdpt = NULL then Some (False, s)
      else do { (pd, s) \<leftarrow> vmm_get_next_level pdpt pdpt_index s;
      if pd = NULL then Some (False, s)
      else do { (pt, s) \<leftarrow> vmm_get_next_level pd pd_index s;
      if pt = NULL then Some (False, s)
      else do { s \<leftarrow> write64 pt (8 * pt_index) ((phys_addr AND PAGE_ADDR_MASK) OR flags) s;
                Some (True, invlpg_tlb virt_addr s) } } } })"

definition vmm_unmap :: "u64 \<Rightarrow> 'a machine_scheme \<Rightarrow> (bool \<times> 'a machine_scheme) option" where
  "vmm_unmap virt_addr s =
     (let pml4_index = PML4_INDEX virt_addr; pdpt_index = PDPT_INDEX virt_addr;
          pd_index = PD_INDEX virt_addr; pt_index = PT_INDEX virt_addr;
          pml4 = phy_to_virt (read_cr3 s AND PAGE_ADDR_MASK) s in
      if pml4 = NULL then Some (False, s)
      else do { pdpt \<leftarrow> vmm_get_existing_level pml4 pml4_index s;
      if pdpt = NULL then Some (False, s)
      else do { pd \<leftarrow> vmm_get_existing_level pdpt pdpt_index s;
      if pd = NULL then Some (False, s)
      else do { pt \<leftarrow> vmm_get_existing_level pd pd_index s;
      if pt = NULL then Some (False, s)
      else do { old_entry \<leftarrow> read64 pt (8 * pt_index) s;
      if old_entry AND PAGE_PRESENT = 0 then Some (False, s)
      else do { s \<leftarrow> write64 pt (8 * pt_index) 0 s;
                s \<leftarrow> machine_free_page (old_entry AND PAGE_ADDR_MASK) (invlpg_tlb virt_addr s);
                Some (True, s) } } } } })"

definition vmm_get_phys :: "u64 \<Rightarrow> 'a machine_scheme \<Rightarrow> u64 option" where
  "vmm_get_phys virt_addr s =
     (let pml4_index = PML4_INDEX virt_addr; pdpt_index = PDPT_INDEX virt_addr;
          pd_index = PD_INDEX virt_addr; pt_index = PT_INDEX virt_addr;
          pml4 = phy_to_virt (read_cr3 s AND PAGE_ADDR_MASK) s in
      if pml4 = NULL then Some BUDDY_INVALID_ADDRESS
      else do { pdpt \<leftarrow> vmm_get_existing_level pml4 pml4_index s;
      if pdpt = NULL then Some BUDDY_INVALID_ADDRESS
      else do { pd \<leftarrow> vmm_get_existing_level pdpt pdpt_index s;
      if pd = NULL then Some BUDDY_INVALID_ADDRESS
      else do { pt \<leftarrow> vmm_get_existing_level pd pd_index s;
      if pt = NULL then Some BUDDY_INVALID_ADDRESS
      else do { entry \<leftarrow> read64 pt (8 * pt_index) s;
      if entry AND PAGE_PRESENT = 0 then Some BUDDY_INVALID_ADDRESS
      else Some ((entry AND PAGE_ADDR_MASK) OR (virt_addr AND 0xFFF)) } } } })"

end
