(* ===== verification/Page_Tables.thy ===== *)
theory Page_Tables
  imports VMM_Model "HOL-Library.Sublist"
begin

text \<open>
  Page tables in memory.  \<open>walk\<close> follows a path of indices through the tables; \<open>pt_tree\<close> says that the
  tables reached from a set of slots of the top table form a tree outside the free frames.  Storing
  an entry changes the walks through that entry only, and linking a cleared frame adds one table
  and no translation.  \<open>paging_ok\<close> is the invariant of the paging code, \<open>vm_step\<close> what every step of
  it keeps, and \<open>next_level_correct\<close> one level of \<open>vmm_map\<close>.
\<close>

section \<open>Pages and entries in memory\<close>

abbreviation aligned :: "u64 \<Rightarrow> bool" where "aligned t \<equiv> 4096 dvd unat t"

lemma page_end: "aligned t \<Longrightarrow> unat t + 4096 \<le> 2 ^ 64"
proof -
  assume "aligned t"
  then obtain q where q: "unat t = 4096 * q" by (auto elim: dvdE)
  then have "4096 * q < 4096 * 2 ^ 52" using unat_less_2p [of t] by simp
  then have "q + 1 \<le> 2 ^ 52" by simp
  then have "4096 * (q + 1) \<le> 4096 * 2 ^ 52" using mult_le_mono2 by blast
  then show ?thesis using q by simp
qed

lemma pages_apart:
  assumes "aligned t" "aligned u" "t \<noteq> u"
  shows "region (t + h) 4096 \<inter> region (u + h) 4096 = {}"
proof -
  have lt: "region (a + h) 4096 \<inter> region (b + h) 4096 = {}"
    if "aligned a" "aligned b" "unat a < unat b" for a b
  proof -
    have "unat a + 4096 \<le> unat b" using that by (auto elim!: dvdE)
    then show ?thesis
      using region_disjoint_offsets [of a 4096 b 4096 h] page_end [OF that(2)] by (simp add: add.commute)
  qed
  have "unat t < unat u \<or> unat u < unat t" using assms(3) by (metis linorder_neqE_nat unat_inj_iff)
  then show ?thesis using lt assms(1,2) by (metis Int_commute)
qed

lemma unat_index: "i < 512 \<Longrightarrow> unat (8 * i :: u64) = 8 * unat i"
  by (simp add: word_less_nat_alt unat_word_ariths)

lemma entry_in_page: "i < 512 \<Longrightarrow> region (t + h + 8 * i) 8 \<subseteq> region (t + h) 4096"
  by (rule region_offset) (simp_all add: unat_index word_less_nat_alt)

lemma entries_apart:
  assumes "i < 512" "j < 512" "i \<noteq> j"
  shows "region (t + h + 8 * i) 8 \<inter> region (t + h + 8 * j) 8 = {}"
proof -
  have lt: "region (t + h + 8 * a) 8 \<inter> region (t + h + 8 * b) 8 = {}"
    if "a < 512" "b < 512" "unat a < unat b" for a b
    using that by (intro region_disjoint_offsets) (simp_all add: unat_index word_less_nat_alt)
  have "unat i < unat j \<or> unat j < unat i" using assms(3) by (metis linorder_neqE_nat unat_inj_iff)
  then show ?thesis using lt assms(1,2) by (metis Int_commute)
qed

definition entry_at :: "u64 \<Rightarrow> memory \<Rightarrow> u64 \<Rightarrow> u64 \<Rightarrow> u64" where
  "entry_at h m t i = load64 (t + h + 8 * i) m"

text \<open>Storing one entry, and what it leaves alone.\<close>

lemma entry_at_store:
  assumes "aligned t" "aligned u" "i < 512" "j < 512"
  shows "entry_at h (store64 v (t + h + 8 * i) m) u j = (if u = t \<and> j = i then v else entry_at h m u j)"
proof (cases "u = t \<and> j = i")
  case True
  then show ?thesis by (simp add: entry_at_def m64.load_store)
next
  case False
  have "region (u + h + 8 * j) 8 \<inter> region (t + h + 8 * i) 8 = {}"
  proof (cases "u = t")
    case True
    then show ?thesis using entries_apart assms False by blast
  next
    case False
    then show ?thesis
      using pages_apart [OF assms(2,1) False, of h] entry_in_page [OF assms(3), of t h] entry_in_page [OF assms(4), of u h]
      by blast
  qed
  then show ?thesis unfolding entry_at_def using m64.load_store_apart by (simp add: False)
qed

lemma entry_at_other_page:
  assumes "aligned t" "aligned u" "u \<noteq> t" "i < 512" "\<And>x. x \<notin> region (t + h) 4096 \<Longrightarrow> m' x = m x"
  shows "entry_at h m' u i = entry_at h m u i"
  unfolding entry_at_def
proof (rule m64.load_unchanged)
  show "region (u + h + 8 * i) 8 \<inter> region (t + h) 4096 = {}"
    using pages_apart [OF assms(2,1,3), of h] entry_in_page [OF assms(4), of u h] by blast
qed (rule assms(5))

section \<open>Clearing a new table\<close>

lemma zero_loop_correct:
  assumes "page \<noteq> NULL"
  shows "\<exists>m'. zero_loop i page s = Some (s\<lparr>mem := m'\<rparr>) \<and>
    (\<forall>x. x \<notin> region page 4096 \<longrightarrow> m' x = mem s x) \<and>
    (\<forall>j. unat j < 512 \<longrightarrow> load64 (page + 8 * j) m' = (if i \<le> unat j then 0 else load64 (page + 8 * j) (mem s)))"
  using assms
proof (induction i page s rule: zero_loop.induct)
  case (1 i page s)
  show ?case
  proof (cases "i < 512")
    case False
    then show ?thesis by (subst zero_loop.simps) (auto intro!: exI [of _ "mem s"])
  next
    case True
    let ?k = "of_nat i :: u64"
    let ?s = "s\<lparr>mem := store64 0 (page + 8 * ?k) (mem s)\<rparr>"
    have k: "unat ?k = i" "?k < 512" using True by (simp_all add: unat_of_nat64 word_less_nat_alt)
    have w: "write64 page (8 * ?k) 0 s = Some ?s" using "1.prems" by (simp add: write64_def)
    obtain m' where m': "zero_loop (i + 1) page ?s = Some (?s\<lparr>mem := m'\<rparr>)"
      "\<forall>x. x \<notin> region page 4096 \<longrightarrow> m' x = mem ?s x"
      "\<forall>j. unat j < 512 \<longrightarrow> load64 (page + 8 * j) m' = (if i + 1 \<le> unat j then 0 else load64 (page + 8 * j) (mem ?s))"
      using "1.IH" [OF True w "1.prems"] by blast
    have "zero_loop i page s = Some (s\<lparr>mem := m'\<rparr>)"
      using True w m'(1) by (subst zero_loop.simps) simp
    moreover have "m' x = mem s x" if "x \<notin> region page 4096" for x
      using m'(2) that m64.store_in [OF entry_in_page [OF k(2), of page 0], of x] by simp
    moreover have "load64 (page + 8 * j) m' = (if i \<le> unat j then 0 else load64 (page + 8 * j) (mem s))"
      if j: "unat j < 512" for j
    proof (cases "j = ?k")
      case True
      then show ?thesis using m'(3) j k by (simp add: m64.load_store)
    next
      case False
      then have "unat j \<noteq> i" using k(1) by auto
      have "j < 512" using j by (simp add: word_less_nat_alt)
      then have "load64 (page + 8 * j) (mem ?s) = load64 (page + 8 * j) (mem s)"
        using m64.load_store_apart entries_apart [of j ?k page 0] k(2) False by simp
      then show ?thesis using m'(3) j \<open>unat j \<noteq> i\<close> by auto
    qed
    ultimately show ?thesis by blast
  qed
qed


section \<open>The walk\<close>

lemma PAGE_ADDR_MASK_bits: "bit PAGE_ADDR_MASK i \<longleftrightarrow> 12 \<le> i \<and> i < 52"
proof -
  have eq: "PAGE_ADDR_MASK = push_bit 12 (mask 40)" by (simp add: PAGE_ADDR_MASK_def mask_eq_exp_minus_1 push_bit_eq_mult)
  show ?thesis unfolding eq by (auto simp: bit_push_bit_iff bit_mask_iff)
qed

lemma PAGE_flag_bits: "bit PAGE_PRESENT i \<longleftrightarrow> i = 0" "bit PAGE_WRITABLE i \<longleftrightarrow> i = 1"
  unfolding PAGE_PRESENT_def PAGE_WRITABLE_def by (auto simp only: bit_push_bit_iff bit_1_iff) auto

lemma aligned_iff: "aligned t \<longleftrightarrow> (\<forall>i<12. \<not> bit t i)"
proof -
  have "aligned t \<longleftrightarrow> unat (take_bit 12 t) = 0" unfolding unsigned_take_bit_eq by (simp add: take_bit_eq_mod dvd_eq_mod_eq_0)
  also have "\<dots> \<longleftrightarrow> take_bit 12 t = 0" by (simp add: unat_eq_zero)
  also have "\<dots> \<longleftrightarrow> (\<forall>i<12. \<not> bit t i)" by (auto simp: bit_eq_iff bit_simps dest: bit_imp_le_length)
  finally show ?thesis .
qed

lemma aligned_mask [simp]: "aligned (e AND PAGE_ADDR_MASK)"
  by (simp add: aligned_iff bit_and_iff PAGE_ADDR_MASK_bits)

lemma high_bits: "unat (p :: u64) < 2 ^ n \<Longrightarrow> bit p i \<Longrightarrow> i < n"
proof (rule ccontr)
  assume p: "unat p < 2 ^ n" "bit p i" and "\<not> i < n"
  then have "(2::nat) ^ n \<le> 2 ^ i" by (intro power_increasing) auto
  then have "unat p < 2 ^ i" using p(1) by linarith
  moreover have "bit (unat p) i" using p(2) by (simp add: bit_unsigned_iff)
  ultimately show False by (metis bit_iff_odd div_less even_zero)
qed

lemma table_entry:
  assumes "aligned p" "unat p < 2 ^ 52"
  shows "(p OR PAGE_PRESENT OR PAGE_WRITABLE) AND PAGE_ADDR_MASK = p"
    "(p OR PAGE_PRESENT OR PAGE_WRITABLE) AND PAGE_PRESENT \<noteq> 0"
proof -
  show "(p OR PAGE_PRESENT OR PAGE_WRITABLE) AND PAGE_ADDR_MASK = p"
    using assms high_bits [OF assms(2)]
    by (intro bit_word_eqI) (auto simp: aligned_iff bit_and_iff bit_or_iff PAGE_ADDR_MASK_bits PAGE_flag_bits not_less)
  show "(p OR PAGE_PRESENT OR PAGE_WRITABLE) AND PAGE_PRESENT \<noteq> 0"
  proof
    assume "(p OR PAGE_PRESENT OR PAGE_WRITABLE) AND PAGE_PRESENT = 0"
    then have "\<not> bit ((p OR PAGE_PRESENT OR PAGE_WRITABLE) AND PAGE_PRESENT) 0" by simp
    then show False by (simp add: bit_and_iff bit_or_iff PAGE_flag_bits)
  qed
qed

fun walk :: "u64 \<Rightarrow> memory \<Rightarrow> u64 \<Rightarrow> u64 list \<Rightarrow> u64 option" where
  "walk h m t [] = Some t"
| "walk h m t (i # is) =
     (let e = entry_at h m t i in if e AND PAGE_PRESENT = 0 then None else walk h m (e AND PAGE_ADDR_MASK) is)"

lemma walk_append: "walk h m t (p @ q) = Option.bind (walk h m t p) (\<lambda>u. walk h m u q)"
  by (induction p arbitrary: t) (auto simp: Let_def)

lemma walk_aligned: "walk h m r p = Some t \<Longrightarrow> aligned r \<Longrightarrow> aligned t"
  by (induction p arbitrary: r) (auto simp: Let_def split: if_splits)

lemma walk_frame:
  assumes "\<And>p' j t. prefix (p' @ [j]) p \<Longrightarrow> walk h m r p' = Some t \<Longrightarrow> entry_at h m' t j = entry_at h m t j"
  shows "walk h m' r p = walk h m r p"
  using assms
proof (induction p rule: rev_induct)
  case (snoc j p)
  have "walk h m' r p = walk h m r p"
    using snoc by (meson prefix_append prefix_order.trans prefixI)
  moreover have "walk h m r p = Some t \<Longrightarrow> entry_at h m' t j = entry_at h m t j" for t
    using snoc.prems [of p j t] by simp
  ultimately show ?case by (cases "walk h m r p") (auto simp: walk_append Let_def)
qed simp

text \<open>Paths of at most \<open>n\<close> indices, starting at the slots \<open>I\<close> of the top table.\<close>

definition paths :: "nat \<Rightarrow> u64 set \<Rightarrow> u64 list set" where
  "paths n I = {p. length p \<le> n \<and> (\<forall>i\<in>set p. i < 512) \<and> (p \<noteq> [] \<longrightarrow> hd p \<in> I)}"

lemma paths_prefix: "p \<in> paths n I \<Longrightarrow> prefix q p \<Longrightarrow> q \<in> paths n I"
  by (auto simp: paths_def prefix_def)

lemma paths_step: "q \<in> paths 4 I \<Longrightarrow> prefix (p @ [j]) q \<Longrightarrow> p \<in> paths 3 I \<and> j < 512"
proof -
  assume q: "q \<in> paths 4 I" "prefix (p @ [j]) q"
  then have "p @ [j] \<in> paths 4 I" by (rule paths_prefix)
  then show ?thesis by (auto simp: paths_def hd_append)
qed

lemma paths_mono: "p \<in> paths n I \<Longrightarrow> n \<le> k \<Longrightarrow> p \<in> paths k I"
  by (auto simp: paths_def)

text \<open>
  The tables reached from the slots \<open>I\<close> form a tree: no table is reached along two paths.  None
  of them lies in a free frame, and none sits at the null address of the direct map.
\<close>

definition pt_tree :: "u64 set \<Rightarrow> u64 \<Rightarrow> u64 \<Rightarrow> memory \<Rightarrow> nat set \<Rightarrow> bool" where
  "pt_tree I h r m F \<longleftrightarrow> aligned r \<and>
     (\<forall>p\<in>paths 3 I. \<forall>q\<in>paths 3 I. \<forall>t. walk h m r p = Some t \<and> walk h m r q = Some t \<longrightarrow> p = q) \<and>
     (\<forall>p\<in>paths 3 I. \<forall>t. walk h m r p = Some t \<longrightarrow> t + h \<noteq> NULL \<and> unat t div 4096 \<notin> F)"

lemma pt_tree_inj:
  "pt_tree I h r m F \<Longrightarrow> p \<in> paths 3 I \<Longrightarrow> q \<in> paths 3 I \<Longrightarrow> walk h m r p = Some t \<Longrightarrow> walk h m r q = Some t \<Longrightarrow> p = q"
  by (auto simp: pt_tree_def)

lemma pt_tree_table:
  assumes "pt_tree I h r m F" "p \<in> paths 3 I" "walk h m r p = Some t"
  shows "aligned t" "t + h \<noteq> NULL" "unat t div 4096 \<notin> F"
  using assms walk_aligned by (auto simp: pt_tree_def)

lemma walk_set_entry:
  assumes tree: "pt_tree I h r m F" and p: "p \<in> paths 3 I" "walk h m r p = Some t" "i < 512" and q: "q \<in> paths 4 I"
  shows "\<not> prefix (p @ [i]) q \<Longrightarrow> walk h (store64 v (t + h + 8 * i) m) r q = walk h m r q"
    and "q = p @ i # q' \<Longrightarrow> walk h (store64 v (t + h + 8 * i) m) r q =
      (if v AND PAGE_PRESENT = 0 then None else walk h (store64 v (t + h + 8 * i) m) (v AND PAGE_ADDR_MASK) q')"
proof -
  let ?m = "store64 v (t + h + 8 * i) m"
  have keep: "walk h ?m r q = walk h m r q" if "q \<in> paths 4 I" "\<not> prefix (p @ [i]) q" for q
  proof (rule walk_frame)
    fix p' j t' assume pj: "prefix (p' @ [j]) q" "walk h m r p' = Some t'"
    have p': "p' \<in> paths 3 I" "j < 512" using paths_step [OF that(1) pj(1)] by auto
    have "\<not> (t' = t \<and> j = i)" using pt_tree_inj [OF tree p'(1) p(1)] pj p(2) that(2) by auto
    then show "entry_at h ?m t' j = entry_at h m t' j"
      using entry_at_store [of t t' i j h v m] pt_tree_table(1) [OF tree] p p' pj(2) by auto
  qed
  show "\<not> prefix (p @ [i]) q \<Longrightarrow> walk h ?m r q = walk h m r q" by (rule keep [OF q])
  assume e: "q = p @ i # q'"
  have "p \<in> paths 4 I" using paths_mono [OF p(1)] by simp
  moreover have "\<not> prefix (p @ [i]) p" using prefix_length_le by fastforce
  ultimately have "walk h ?m r p = Some t" using keep p(2) by simp
  moreover have "entry_at h ?m t i = v" using entry_at_store [of t t i i h v m] pt_tree_table(1) [OF tree p(1,2)] p(3) by simp
  ultimately show "walk h ?m r q = (if v AND PAGE_PRESENT = 0 then None else walk h ?m (v AND PAGE_ADDR_MASK) q')"
    unfolding e by (simp add: walk_append Let_def)
qed


text \<open>
  Linking a new table: a free frame is cleared and entered at a slot that was not present.  The
  only walk that changes is the one that ends at the new table, and the tree property is kept.
\<close>

lemma walk_link_table:
  assumes tree: "pt_tree I h r m F" and p: "p \<in> paths 3 I" "walk h m r p = Some t" "i < 512"
    and abs: "entry_at h m t i AND PAGE_PRESENT = 0" and pi: "p @ [i] \<in> paths 3 I"
    and u: "aligned u" "unat u < 2 ^ 52" "unat u div 4096 \<in> F" "u + h \<noteq> NULL"
    and m1: "\<forall>x. x \<notin> region (u + h) 4096 \<longrightarrow> m1 x = m x" "\<forall>j<512. entry_at h m1 u j = 0"
    and m2: "m2 = store64 (u OR PAGE_PRESENT OR PAGE_WRITABLE) (t + h + 8 * i) m1"
  shows "q \<in> paths 4 I \<Longrightarrow> walk h m2 r q = (if q = p @ [i] then Some u else walk h m r q)"
    and "pt_tree I h r m2 (F - {unat u div 4096})"
proof -
  have same: "walk h m1 r q = walk h m r q" if "q \<in> paths 4 I" for q
  proof (rule walk_frame)
    fix p' j t' assume "prefix (p' @ [j]) q" "walk h m r p' = Some t'"
    then have t': "aligned t'" "unat t' div 4096 \<notin> F" "j < 512"
      using paths_step [OF that] pt_tree_table [OF tree] by blast+
    then have "t' \<noteq> u" using u(3) by auto
    then show "entry_at h m1 t' j = entry_at h m t' j"
      using entry_at_other_page [of u t' j h m1 m] t' u(1) m1(1) by blast
  qed
  have up: "q \<in> paths 4 I" if "q \<in> paths 3 I" for q using paths_mono [OF that] by simp
  have tree1: "pt_tree I h r m1 F" using tree same up unfolding pt_tree_def by simp
  have p1: "walk h m1 r p = Some t" using same up p(1,2) by simp
  have ut: "u \<noteq> t" using pt_tree_table(3) [OF tree p(1,2)] u(3) by auto
  have z: "entry_at h m2 u j = 0" if "j < 512" for j
    unfolding m2 using entry_at_store [of t u i j] pt_tree_table(1) [OF tree p(1,2)] u(1) p(3) that ut m1(2) by simp
  show w: "walk h m2 r q = (if q = p @ [i] then Some u else walk h m r q)" if q: "q \<in> paths 4 I" for q
  proof (cases "prefix (p @ [i]) q")
    case False
    then show ?thesis
      using walk_set_entry(1) [OF tree1 p(1) p1 p(3) q False] same [OF q] by (auto simp: m2)
  next
    case True
    then obtain q' where q': "q = p @ i # q'" by (auto simp: prefix_def)
    have "walk h m2 r q = walk h m2 u q'"
      using walk_set_entry(2) [OF tree1 p(1) p1 p(3) q q'] table_entry [OF u(1,2)] by (simp add: m2)
    moreover have "walk h m r q = None" using abs p(2) by (simp add: q' walk_append Let_def)
    moreover have "j < 512" if "q' = j # js" for j js using q that by (auto simp: q' paths_def)
    ultimately show ?thesis using z by (cases q') (auto simp: q' Let_def)
  qed
  have tb: "(q = p @ [i] \<and> t' = u) \<or> (q \<noteq> p @ [i] \<and> walk h m r q = Some t' \<and> t' \<noteq> u)"
    if "q \<in> paths 3 I" "walk h m2 r q = Some t'" for q t'
    using w [OF up [OF that(1)]] that pt_tree_table(3) [OF tree that(1)] u(3) by (auto split: if_splits)
  show "pt_tree I h r m2 (F - {unat u div 4096})"
    unfolding pt_tree_def
  proof (intro conjI ballI allI impI)
    show "aligned r" using tree by (simp add: pt_tree_def)
    show "q = q'" if "q \<in> paths 3 I" "q' \<in> paths 3 I" "walk h m2 r q = Some t' \<and> walk h m2 r q' = Some t'" for q q' t'
      using tb [OF that(1)] tb [OF that(2)] that pt_tree_inj [OF tree that(1,2)] by blast
    show "t' + h \<noteq> NULL" "unat t' div 4096 \<notin> F - {unat u div 4096}" if "q \<in> paths 3 I" "walk h m2 r q = Some t'" for q t'
      using tb [OF that] pt_tree_table [OF tree that(1), of t'] u(4) by auto
  qed
qed


section \<open>Paging state\<close>

text \<open>The direct map starts above address 0 and covers the memory of the page allocator.\<close>

definition hhdm_ok :: "u64 \<Rightarrow> bool" where
  "hhdm_ok h \<longleftrightarrow> h \<noteq> 0 \<and> unat h + 2 ^ 30 \<le> 2 ^ 64"

definition pt_root :: "'a machine_scheme \<Rightarrow> u64" where
  "pt_root s = cr3 s AND PAGE_ADDR_MASK"

definition paging_ok :: "u64 set \<Rightarrow> 'a machine_scheme \<Rightarrow> bool" where
  "paging_ok I s \<longleftrightarrow> buddy_wf (buddy s) \<and>
     (\<exists>h. hhdm s = Some h \<and> hhdm_ok h \<and> pt_tree I h (pt_root s) (mem s) (free_set (buddy s)))"

definition lookup :: "'a machine_scheme \<Rightarrow> u64 list \<Rightarrow> u64 option" where
  "lookup s p = (case hhdm s of None \<Rightarrow> None | Some h \<Rightarrow> walk h (mem s) (pt_root s) p)"

text \<open>The memory the paging code may change: the tables and the free frames.\<close>

definition vm_area :: "u64 set \<Rightarrow> 'a machine_scheme \<Rightarrow> u64 set" where
  "vm_area I s = {x. \<exists>h u. hhdm s = Some h \<and> aligned u \<and> x \<in> region (u + h) 4096 \<and>
     (unat u div 4096 \<in> free_set (buddy s) \<or> (\<exists>p\<in>paths 3 I. lookup s p = Some u))}"

definition vm_step :: "u64 set \<Rightarrow> 'a machine_scheme \<Rightarrow> 'a machine_scheme \<Rightarrow> bool" where
  "vm_step I s s' \<longleftrightarrow> paging_ok I s' \<and> hhdm s' = hhdm s \<and> cr3 s' = cr3 s \<and> machine.more s' = machine.more s \<and>
     tlb_flushed s' = tlb_flushed s \<and> allocated_set (buddy s) \<subseteq> allocated_set (buddy s') \<and>
     free_set (buddy s') \<subseteq> free_set (buddy s) \<and>
     vm_area I s' \<subseteq> vm_area I s \<and> (\<forall>x. x \<notin> vm_area I s \<longrightarrow> mem s' x = mem s x)"

lemma vm_step_refl: "paging_ok I s \<Longrightarrow> vm_step I s s"
  by (simp add: vm_step_def)

lemma vm_step_trans: "vm_step I s s1 \<Longrightarrow> vm_step I s1 s2 \<Longrightarrow> vm_step I s s2"
  unfolding vm_step_def by (auto dest: subsetD)

text \<open>Of memory, only what the page tables and the free frames have may change, and no more is added to it.\<close>

definition vm_confined :: "u64 set \<Rightarrow> 'a machine_scheme \<Rightarrow> 'a machine_scheme \<Rightarrow> bool" where
  "vm_confined I s s' \<longleftrightarrow> vm_area I s' \<subseteq> vm_area I s \<and> (\<forall>x. x \<notin> vm_area I s \<longrightarrow> mem s' x = mem s x)"

lemma vm_confined_refl [simp]: "vm_confined I s s"
  by (simp add: vm_confined_def)

lemma vm_confined_trans: "vm_confined I s s1 \<Longrightarrow> vm_confined I s1 s2 \<Longrightarrow> vm_confined I s s2"
  unfolding vm_confined_def by (auto dest: subsetD)

lemma vm_step_confined: "vm_step I s s' \<Longrightarrow> vm_confined I s s'"
  by (simp add: vm_step_def vm_confined_def)

lemma direct_map_not_null:
  assumes "hhdm_ok h" "unat u < 2 ^ 30"
  shows "u + h \<noteq> NULL"
proof -
  have "unat (u + h) = unat u + unat h" using assms by (intro unat_add_less) (simp add: hhdm_ok_def)
  moreover have "unat h \<noteq> 0" using assms by (simp add: hhdm_ok_def unat_eq_zero)
  ultimately show ?thesis by (metis add_is_0 unat_0)
qed

text \<open>\<open>Make_Page\<close>: either nothing happens, or a free frame is taken and cleared.\<close>

lemma Make_Page_cases:
  assumes "buddy_wf (buddy s)" "hhdm s = Some h" "hhdm_ok h"
  obtains (none) "Make_Page s = Some (BUDDY_INVALID_ADDRESS, s)" "free_set (buddy s) = {}"
    | (new) u b m1 where "Make_Page s = Some (u, s\<lparr>buddy := b, mem := m1\<rparr>)" "u \<noteq> BUDDY_INVALID_ADDRESS"
      "aligned u" "unat u < 2 ^ 30" "unat u div 4096 \<in> free_set (buddy s)" "buddy_wf b"
      "free_set b = free_set (buddy s) - {unat u div 4096}"
      "allocated_set b = insert (unat u div 4096) (allocated_set (buddy s))"
      "\<forall>x. x \<notin> region (u + h) 4096 \<longrightarrow> m1 x = mem s x" "\<forall>j<512. entry_at h m1 u j = 0"
proof -
  obtain u b where a: "buddy_alloc_pages 1 (buddy s) = Some (u, b)" "buddy_wf b" "u = BUDDY_INVALID_ADDRESS \<longrightarrow> b = buddy s"
    using buddy.single.alloc1_returns [OF assms(1)] by blast
  show thesis
  proof (cases "u = BUDDY_INVALID_ADDRESS")
    case True
    then have "free_set (buddy s) = {}" using a(1) alloc_page_available [OF assms(1)] by auto
    then show thesis using True a none by (simp add: Make_Page_def machine_alloc_page_def buddy_alloc_page_def)
  next
    case False
    note f = buddy.single.alloc1_fresh [OF assms(1) a(1) False] and n = buddy.single.alloc1_new [OF assms(1) a(1) False]
    have "unat u < (unat u div 4096 + 1) * 4096" by simp
    also have "\<dots> \<le> NPAGES * 4096" using n(2) by (intro mult_le_mono1) simp
    finally have u: "unat u < 2 ^ 30" by simp
    have nn: "u + h \<noteq> NULL" using direct_map_not_null assms(3) u by blast
    obtain m1 where m1: "zero_loop 0 (u + h) (s\<lparr>buddy := b\<rparr>) = Some (s\<lparr>buddy := b, mem := m1\<rparr>)"
      "\<forall>x. x \<notin> region (u + h) 4096 \<longrightarrow> m1 x = mem s x" "\<forall>j. unat j < 512 \<longrightarrow> load64 (u + h + 8 * j) m1 = 0"
      using zero_loop_correct [OF nn, of 0 "s\<lparr>buddy := b\<rparr>"] by auto
    have "Make_Page s = Some (u, s\<lparr>buddy := b, mem := m1\<rparr>)"
      using a(1) False m1(1) assms(2)
      by (simp add: Make_Page_def machine_alloc_page_def buddy_alloc_page_def phy_to_virt_def)
    then show thesis
      using new [of u m1 b] False u a(2) f n(3) m1(2,3)
      by (simp add: dvd_eq_mod_eq_0 entry_at_def word_less_nat_alt)
  qed
qed


lemma paging_okD:
  assumes "paging_ok I s" "hhdm s = Some h"
  shows "buddy_wf (buddy s)" "hhdm_ok h" "pt_tree I h (pt_root s) (mem s) (free_set (buddy s))"
    "lookup s p = walk h (mem s) (pt_root s) p"
  using assms by (auto simp: paging_ok_def lookup_def)

lemma lookup_step:
  assumes "hhdm s = Some h" "lookup s p = Some t"
  shows "lookup s (p @ [i]) = (if entry_at h (mem s) t i AND PAGE_PRESENT = 0 then None
    else Some (entry_at h (mem s) t i AND PAGE_ADDR_MASK))"
  using assms by (simp add: lookup_def walk_append Let_def)

lemma vm_area_table: "hhdm s = Some h \<Longrightarrow> aligned u \<Longrightarrow> p \<in> paths 3 I \<Longrightarrow> lookup s p = Some u \<Longrightarrow> region (u + h) 4096 \<subseteq> vm_area I s"
  by (auto simp: vm_area_def)

lemma vm_area_free: "hhdm s = Some h \<Longrightarrow> aligned u \<Longrightarrow> unat u div 4096 \<in> free_set (buddy s) \<Longrightarrow> region (u + h) 4096 \<subseteq> vm_area I s"
  by (auto simp: vm_area_def)

text \<open>One level of \<open>vmm_map\<close>: the table is found or made, and no complete walk changes.\<close>

lemma next_level_correct:
  assumes ok: "paging_ok I s" and h: "hhdm s = Some h"
    and pi: "p @ [i] \<in> paths 3 I" and t: "lookup s p = Some t"
  obtains (none) "vmm_get_next_level (t + h) i s = Some (NULL, s)" "free_set (buddy s) = {}"
    | (found) u s' where "vmm_get_next_level (t + h) i s = Some (u + h, s')" "u + h \<noteq> NULL"
      "lookup s' (p @ [i]) = Some u" "vm_step I s s'"
      "\<And>q. q \<in> paths 4 I \<Longrightarrow> q \<noteq> p @ [i] \<Longrightarrow> lookup s' q = lookup s q"
      "card (free_set (buddy s)) \<le> Suc (card (free_set (buddy s')))"
proof -
  note D = paging_okD [OF ok h]
  have p: "p \<in> paths 3 I" "i < 512" using pi by (auto simp: paths_def hd_append)
  have wt: "walk h (mem s) (pt_root s) p = Some t" using D(4) t by simp
  have tn: "t + h \<noteq> NULL" "aligned t" using pt_tree_table [OF D(3) p(1) wt] by auto
  have e: "read64 (t + h) (8 * i) s = Some (entry_at h (mem s) t i)" using tn by (simp add: read64_def entry_at_def)
  show thesis
  proof (cases "entry_at h (mem s) t i AND PAGE_PRESENT = 0")
    case False
    let ?u = "entry_at h (mem s) t i AND PAGE_ADDR_MASK"
    have lu: "lookup s (p @ [i]) = Some ?u" using lookup_step [OF h t, of i] False by simp
    then have "?u + h \<noteq> NULL" using pt_tree_table(2) [OF D(3) pi] D(4) by simp
    then show thesis
      using found [of ?u s] False e h lu vm_step_refl [OF ok] by (simp add: vmm_get_next_level_def phy_to_virt_def)
  next
    case True
    from D(1) h D(2) show thesis
    proof (cases rule: Make_Page_cases [case_names none new])
      case none
      then show thesis using that(1) True e by (simp add: vmm_get_next_level_def)
    next
      case (new u b m1)
      let ?m2 = "store64 (u OR PAGE_PRESENT OR PAGE_WRITABLE) (t + h + 8 * i) m1"
      let ?s = "s\<lparr>buddy := b, mem := ?m2\<rparr>"
      have un: "u + h \<noteq> NULL" "unat u < 2 ^ 52" using direct_map_not_null [OF D(2) new(4)] new(4) by auto
      note link = walk_link_table [OF D(3) p(1) wt p(2) True pi new(3) un(2) new(5) un(1) new(9,10) refl]
      have ev: "vmm_get_next_level (t + h) i s = Some (u + h, ?s)"
        using True e new(1,2) h tn by (simp add: vmm_get_next_level_def write64_def phy_to_virt_def)
      have lk: "lookup ?s q = (if q = p @ [i] then Some u else lookup s q)" if "q \<in> paths 4 I" for q
        using link(1) [OF that] h by (simp add: lookup_def pt_root_def)
      have pi4: "p @ [i] \<in> paths 4 I" using paths_mono [OF pi] by simp
      have ok': "paging_ok I ?s"
        using link(2) h D(2) new(6,7) by (auto simp: paging_ok_def pt_root_def)
      have area: "vm_area I ?s \<subseteq> vm_area I s"
      proof
        fix x assume "x \<in> vm_area I ?s"
        then obtain v where v: "aligned v" "x \<in> region (v + h) 4096"
          "unat v div 4096 \<in> free_set b \<or> (\<exists>q\<in>paths 3 I. lookup ?s q = Some v)" using h by (auto simp: vm_area_def)
        have "unat v div 4096 \<in> free_set (buddy s) \<or> (\<exists>q\<in>paths 3 I. lookup s q = Some v)"
          using v(3) lk paths_mono [of _ 3 I 4] new(5,7) by (auto split: if_splits)
        then show "x \<in> vm_area I s" using v h by (auto simp: vm_area_def)
      qed
      have mm: "?m2 x = mem s x" if "x \<notin> vm_area I s" for x
      proof -
        have "x \<notin> region (u + h) 4096" "x \<notin> region (t + h) 4096"
          using that vm_area_free [OF h new(3,5)] vm_area_table [OF h tn(2) p(1) t] by blast+
        then show ?thesis using new(9) m64.store_in [OF entry_in_page [OF p(2), of t h]] by simp
      qed
      have "vm_step I s ?s" using ok' area mm new(7,8) by (auto simp: vm_step_def)
      moreover have "card (free_set (buddy s)) \<le> Suc (card (free_set b))"
        unfolding new(7) using card_Suc_Diff1 [of "free_set (buddy s)"] new(5) by (cases "finite (free_set (buddy s))") auto
      ultimately show thesis using that(2) [OF ev un(1)] lk [OF pi4] lk by simp
    qed
  qed
qed

end
