(* ===== verification/VMM.thy ===== *)
theory VMM
  imports Page_Tables
begin

text \<open>
  The public operations of \<open>src/kernel/src/memory/vmm.c\<close> over the walks of \<open>Page_Tables\<close>: \<open>vmm_get_phys\<close>
  computes \<open>translate\<close>, \<open>vmm_map\<close> sets one translation (or none, when a table cannot be allocated)
  and \<open>vmm_unmap\<close> clears one and gives its frame back.
\<close>

section \<open>Virtual addresses\<close>

definition va_path :: "u64 \<Rightarrow> u64 list" where
  "va_path v = [PML4_INDEX v, PDPT_INDEX v, PD_INDEX v, PT_INDEX v]"

lemma take_bit_9: "(x :: u64) AND 0x1FF = take_bit 9 x"
  by (simp add: take_bit_eq_mask mask_eq_exp_minus_1)

lemma index_bound: "(x :: u64) AND 0x1FF < 512"
proof -
  have "x AND 0x1FF \<le> 0x1FF" by (rule word_and_le1)
  then show ?thesis by (simp add: word_le_nat_alt word_less_nat_alt)
qed

lemma va_path_paths: "PML4_INDEX v \<in> I \<Longrightarrow> va_path v \<in> paths 4 I"
  by (simp add: va_path_def paths_def PML4_INDEX_def PDPT_INDEX_def PD_INDEX_def PT_INDEX_def index_bound)

lemma va_path_prefixes:
  assumes "PML4_INDEX v \<in> I"
  shows "[PML4_INDEX v] \<in> paths 3 I" "[PML4_INDEX v, PDPT_INDEX v] \<in> paths 3 I"
    "[PML4_INDEX v, PDPT_INDEX v, PD_INDEX v] \<in> paths 3 I" "[] \<in> paths 3 I" "PT_INDEX v < 512"
  using assms by (simp_all add: paths_def PML4_INDEX_def PDPT_INDEX_def PD_INDEX_def PT_INDEX_def index_bound)

definition translate :: "'a machine_scheme \<Rightarrow> u64 \<Rightarrow> u64 option" where
  "translate s v = map_option (\<lambda>b. b OR (v AND 0xFFF)) (lookup s (va_path v))"

section \<open>Existing levels\<close>

lemma existing_level:
  assumes "paging_ok I s" "hhdm s = Some h" "p @ [i] \<in> paths 3 I" "lookup s p = Some t"
  shows "vmm_get_existing_level (t + h) i s = Some (case lookup s (p @ [i]) of None \<Rightarrow> NULL | Some u \<Rightarrow> u + h)"
    "lookup s (p @ [i]) = Some u \<Longrightarrow> u + h \<noteq> NULL"
proof -
  note D = paging_okD [OF assms(1,2)]
  have p: "p \<in> paths 3 I" using assms(3) by (auto simp: paths_def hd_append)
  have "t + h \<noteq> NULL" using pt_tree_table(2) [OF D(3) p] D(4) assms(4) by simp
  then show "vmm_get_existing_level (t + h) i s = Some (case lookup s (p @ [i]) of None \<Rightarrow> NULL | Some u \<Rightarrow> u + h)"
    using lookup_step [OF assms(2,4), of i] assms(2)
    by (simp add: vmm_get_existing_level_def read64_def entry_at_def phy_to_virt_def)
  show "lookup s (p @ [i]) = Some u \<Longrightarrow> u + h \<noteq> NULL"
    using pt_tree_table(2) [OF D(3) assms(3)] D(4) by simp
qed

lemma lookup_Nil: "hhdm s = Some h \<Longrightarrow> lookup s [] = Some (cr3 s AND PAGE_ADDR_MASK)"
  by (simp add: lookup_def pt_root_def)

lemma lookup_None: "lookup s p = None \<Longrightarrow> lookup s (p @ q) = None"
  by (auto simp: lookup_def walk_append split: option.splits)

text \<open>The walk of \<open>vmm_unmap\<close> and \<open>vmm_get_phys\<close> down to the last table.\<close>

lemma walk_levels:
  assumes ok: "paging_ok I s" and h: "hhdm s = Some h" and v: "PML4_INDEX v \<in> I"
  shows "phy_to_virt (read_cr3 s AND PAGE_ADDR_MASK) s \<noteq> NULL"
    "(do { pdpt \<leftarrow> vmm_get_existing_level (phy_to_virt (read_cr3 s AND PAGE_ADDR_MASK) s) (PML4_INDEX v) s;
       if pdpt = NULL then Some x
       else do { pd \<leftarrow> vmm_get_existing_level pdpt (PDPT_INDEX v) s;
       if pd = NULL then Some x
       else do { pt \<leftarrow> vmm_get_existing_level pd (PD_INDEX v) s;
       if pt = NULL then Some x else f pt } } }) =
     (case lookup s [PML4_INDEX v, PDPT_INDEX v, PD_INDEX v] of None \<Rightarrow> Some x | Some t \<Rightarrow> f (t + h))"
proof -
  let ?r = "cr3 s AND PAGE_ADDR_MASK"
  note P = va_path_prefixes [OF v] and D = paging_okD [OF ok h]
  have r: "phy_to_virt (read_cr3 s AND PAGE_ADDR_MASK) s = ?r + h" using h by (simp add: phy_to_virt_def read_cr3_def)
  have l0: "lookup s [] = Some ?r" using lookup_Nil [OF h] .
  show "phy_to_virt (read_cr3 s AND PAGE_ADDR_MASK) s \<noteq> NULL"
    unfolding r using pt_tree_table(2) [OF D(3) P(4)] D(4) l0 by simp
  note e1 = existing_level [OF ok h, of "[]" "PML4_INDEX v" ?r, simplified, OF P(1) l0]
  show "(do { pdpt \<leftarrow> vmm_get_existing_level (phy_to_virt (read_cr3 s AND PAGE_ADDR_MASK) s) (PML4_INDEX v) s;
       if pdpt = NULL then Some x
       else do { pd \<leftarrow> vmm_get_existing_level pdpt (PDPT_INDEX v) s;
       if pd = NULL then Some x
       else do { pt \<leftarrow> vmm_get_existing_level pd (PD_INDEX v) s;
       if pt = NULL then Some x else f pt } } }) =
     (case lookup s [PML4_INDEX v, PDPT_INDEX v, PD_INDEX v] of None \<Rightarrow> Some x | Some t \<Rightarrow> f (t + h))"
  proof (cases "lookup s [PML4_INDEX v]")
    case None
    then show ?thesis using e1(1) lookup_None [OF None, of "[PDPT_INDEX v, PD_INDEX v]"] by (simp add: r)
  next
    case (Some t1)
    note e2 = existing_level [OF ok h, of "[PML4_INDEX v]" "PDPT_INDEX v" t1, simplified, OF P(2) Some]
    show ?thesis
    proof (cases "lookup s [PML4_INDEX v, PDPT_INDEX v]")
      case None
      then show ?thesis using e1 Some e2(1) lookup_None [OF None, of "[PD_INDEX v]"] by (simp add: r)
    next
      case t2: (Some t2)
      note e3 = existing_level [OF ok h, of "[PML4_INDEX v, PDPT_INDEX v]" "PD_INDEX v" t2, simplified, OF P(3) t2]
      show ?thesis using e1 Some e2 t2 e3 by (auto simp: r split: option.splits)
    qed
  qed
qed

lemma get_phys_translate:
  assumes ok: "paging_ok I s" and v: "PML4_INDEX v \<in> I"
  shows "vmm_get_phys v s = Some (case translate s v of None \<Rightarrow> BUDDY_INVALID_ADDRESS | Some p \<Rightarrow> p)"
proof -
  obtain h where h: "hhdm s = Some h" using ok by (auto simp: paging_ok_def)
  note W = walk_levels [OF ok h v] and D = paging_okD [OF ok h] and P = va_path_prefixes [OF v]
  let ?p = "[PML4_INDEX v, PDPT_INDEX v, PD_INDEX v]"
  have vp: "va_path v = ?p @ [PT_INDEX v]" by (simp add: va_path_def)
  have ev: "vmm_get_phys v s = (case lookup s ?p of None \<Rightarrow> Some BUDDY_INVALID_ADDRESS
    | Some t \<Rightarrow> do { entry \<leftarrow> read64 (t + h) (8 * PT_INDEX v) s;
        if entry AND PAGE_PRESENT = 0 then Some BUDDY_INVALID_ADDRESS
        else Some ((entry AND PAGE_ADDR_MASK) OR (v AND 0xFFF)) })"
    unfolding vmm_get_phys_def Let_def W(2) using W(1) by simp
  show ?thesis
  proof (cases "lookup s ?p")
    case None
    then show ?thesis using ev lookup_None [OF None, of "[PT_INDEX v]"]
      unfolding translate_def vp by simp
  next
    case (Some t)
    have "t + h \<noteq> NULL" using pt_tree_table(2) [OF D(3) P(3)] D(4) Some by simp
    then show ?thesis using ev Some lookup_step [OF h Some, of "PT_INDEX v"]
      unfolding translate_def vp by (simp add: read64_def entry_at_def)
  qed
qed


section \<open>Mapping\<close>

text \<open>Writing the entry of a last-level table changes one translation and no table.\<close>

lemma set_leaf:
  assumes ok: "paging_ok I s" and h: "hhdm s = Some h" and v: "PML4_INDEX v \<in> I"
    and t: "lookup s [PML4_INDEX v, PDPT_INDEX v, PD_INDEX v] = Some t"
    and s': "s' = s\<lparr>mem := store64 e (t + h + 8 * PT_INDEX v) (mem s)\<rparr>"
  shows "vm_step I s s'"
    "lookup s' (va_path v) = (if e AND PAGE_PRESENT = 0 then None else Some (e AND PAGE_ADDR_MASK))"
    "q \<in> paths 4 I \<Longrightarrow> q \<noteq> va_path v \<Longrightarrow> lookup s' q = lookup s q"
proof -
  let ?p = "[PML4_INDEX v, PDPT_INDEX v, PD_INDEX v]"
  note D = paging_okD [OF ok h] and P = va_path_prefixes [OF v]
  have vp: "va_path v = ?p @ PT_INDEX v # []" by (simp add: va_path_def)
  have wt: "walk h (mem s) (pt_root s) ?p = Some t" using D(4) t by simp
  note W = walk_set_entry [OF D(3) P(3) wt P(5)]
  have lk: "lookup s' q = walk h (store64 e (t + h + 8 * PT_INDEX v) (mem s)) (pt_root s) q" for q
    using h by (simp add: s' lookup_def pt_root_def)
  show "lookup s' (va_path v) = (if e AND PAGE_PRESENT = 0 then None else Some (e AND PAGE_ADDR_MASK))"
    unfolding lk using W(2) [OF va_path_paths [OF v] vp] by simp
  show keep: "lookup s' q = lookup s q" if "q \<in> paths 4 I" "q \<noteq> va_path v" for q
  proof -
    have "length q \<le> 4" using that(1) by (simp add: paths_def)
    then have "\<not> prefix (?p @ [PT_INDEX v]) q" using that(2) vp by (auto simp: prefix_def)
    then show ?thesis unfolding lk using W(1) [OF that(1)] D(4) by simp
  qed
  have k3: "lookup s' q = lookup s q" if "q \<in> paths 3 I" for q
  proof -
    have "q \<noteq> va_path v" using that by (auto simp: paths_def va_path_def)
    then show ?thesis using keep [OF paths_mono [OF that]] by simp
  qed
  then have eq3: "walk h (mem s') (pt_root s') q = walk h (mem s) (pt_root s) q" if "q \<in> paths 3 I" for q
    using that h by (simp add: lookup_def s')
  have root: "pt_root s' = pt_root s" by (simp add: s' pt_root_def)
  have "pt_tree I h (pt_root s') (mem s') (free_set (buddy s'))"
    using D(3) eq3 root by (simp add: pt_tree_def s')
  then have ok': "paging_ok I s'" using D h by (auto simp: paging_ok_def s')
  have "mem s' x = mem s x" if "x \<notin> vm_area I s" for x
  proof -
    have "x \<notin> region (t + h) 4096"
      using that vm_area_table [OF h _ P(3) t] pt_tree_table(1) [OF D(3) P(3) wt] by blast
    then show ?thesis using m64.store_in [OF entry_in_page [OF P(5), of t h]] by (simp add: s')
  qed
  moreover have "vm_area I s' \<subseteq> vm_area I s" using k3 h by (auto simp: vm_area_def s')
  ultimately show "vm_step I s s'" using ok' by (auto simp: vm_step_def s')
qed

definition same_walks :: "u64 set \<Rightarrow> 'a machine_scheme \<Rightarrow> 'a machine_scheme \<Rightarrow> bool" where
  "same_walks I s s' \<longleftrightarrow> (\<forall>q\<in>paths 4 I. length q = 4 \<longrightarrow> lookup s' q = lookup s q)"

lemma same_walks_trans: "same_walks I s s1 \<Longrightarrow> same_walks I s1 s2 \<Longrightarrow> same_walks I s s2"
  by (simp add: same_walks_def)

lemma same_walks_refl: "same_walks I s s"
  by (simp add: same_walks_def)

lemma map_level:
  assumes "paging_ok I s" "hhdm s = Some h" "p @ [i] \<in> paths 3 I" "lookup s p = Some t"
  obtains (none) "vmm_get_next_level (t + h) i s = Some (NULL, s)" "free_set (buddy s) = {}"
    | (found) u s' where "vmm_get_next_level (t + h) i s = Some (u + h, s')" "u + h \<noteq> NULL"
      "lookup s' (p @ [i]) = Some u" "vm_step I s s'" "same_walks I s s'" "paging_ok I s'" "hhdm s' = Some h"
      "card (free_set (buddy s)) \<le> Suc (card (free_set (buddy s')))"
  using assms
proof (cases rule: next_level_correct [case_names none found])
  case none
  then show thesis by (rule that(1))
next
  case (found u s')
  have "q \<noteq> p @ [i]" if "length q = 4" for q using assms(3) that by (auto simp: paths_def)
  then have "same_walks I s s'" using found(5) by (simp add: same_walks_def)
  then show thesis using that(2) found assms(2) by (auto simp: vm_step_def)
qed

lemma vmm_map_cases:
  assumes ok: "paging_ok I s" and v: "PML4_INDEX v \<in> I"
  obtains (fail) s' where "vmm_map v p f s = Some (False, s')" "vm_step I s s'" "same_walks I s s'"
      "card (free_set (buddy s)) < 3"
    | (mapped) s' where "vmm_map v p f s = Some (True, invlpg_tlb v s')" "vm_step I s s'"
      "lookup s' (va_path v) = (let e = (p AND PAGE_ADDR_MASK) OR f in if e AND PAGE_PRESENT = 0 then None else Some (e AND PAGE_ADDR_MASK))"
      "\<And>w. PML4_INDEX w \<in> I \<Longrightarrow> va_path w \<noteq> va_path v \<Longrightarrow> lookup s' (va_path w) = lookup s (va_path w)"
      "card (free_set (buddy s)) \<le> card (free_set (buddy s')) + 3"
proof -
  obtain h where h: "hhdm s = Some h" using ok by (auto simp: paging_ok_def)
  let ?r = "cr3 s AND PAGE_ADDR_MASK"
  note P = va_path_prefixes [OF v] and D = paging_okD [OF ok h]
  have r: "phy_to_virt (read_cr3 s AND PAGE_ADDR_MASK) s = ?r + h" using h by (simp add: phy_to_virt_def read_cr3_def)
  have l0: "lookup s [] = Some ?r" using lookup_Nil [OF h] .
  have rn: "?r + h \<noteq> NULL" using pt_tree_table(2) [OF D(3) P(4)] D(4) l0 by simp
  have p1: "[] @ [PML4_INDEX v] \<in> paths 3 I" using P(1) by simp
  from ok h p1 l0 show thesis
  proof (cases rule: map_level [case_names none found])
    case none
    then show thesis using fail [of s] vm_step_refl [OF ok] same_walks_refl [of I s] rn r by (simp add: vmm_map_def Let_def)
  next
    case l1: (found u1 s1)
    have p2: "[PML4_INDEX v] @ [PDPT_INDEX v] \<in> paths 3 I" "lookup s1 [PML4_INDEX v] = Some u1" using P(2) l1(3) by simp_all
    from l1(6,7) p2 show thesis
    proof (cases rule: map_level [case_names none found])
      case none
      then show thesis using fail [of s1] l1 rn r by (simp add: vmm_map_def Let_def)
    next
      case l2: (found u2 s2)
      have p3: "[PML4_INDEX v, PDPT_INDEX v] @ [PD_INDEX v] \<in> paths 3 I" "lookup s2 [PML4_INDEX v, PDPT_INDEX v] = Some u2"
        using P(3) l2(3) by simp_all
      note s2 = vm_step_trans [OF l1(4) l2(4)] same_walks_trans [OF l1(5) l2(5)]
      from l2(6,7) p3 show thesis
      proof (cases rule: map_level [case_names none found])
        case none
        then show thesis using fail [of s2] l1 l2 s2 rn r by (simp add: vmm_map_def Let_def)
      next
        case l3: (found u3 s3)
        note s3 = vm_step_trans [OF s2(1) l3(4)] same_walks_trans [OF s2(2) l3(5)]
        have t: "lookup s3 [PML4_INDEX v, PDPT_INDEX v, PD_INDEX v] = Some u3" using l3(3) by simp
        note L = set_leaf [OF l3(6,7) v t refl, where e = "(p AND PAGE_ADDR_MASK) OR f"]
        let ?s4 = "s3\<lparr>mem := store64 ((p AND PAGE_ADDR_MASK) OR f) (u3 + h + 8 * PT_INDEX v) (mem s3)\<rparr>"
        have ev: "vmm_map v p f s = Some (True, invlpg_tlb v ?s4)"
          using l1(1,2) l2(1,2) l3(1,2) rn r by (simp add: vmm_map_def Let_def write64_def)
        show thesis
        proof (rule that(2) [OF ev vm_step_trans [OF s3(1) L(1)]])
          show "lookup ?s4 (va_path v) = (let e = (p AND PAGE_ADDR_MASK) OR f in if e AND PAGE_PRESENT = 0 then None else Some (e AND PAGE_ADDR_MASK))"
            using L(2) by (simp add: Let_def)
          show "lookup ?s4 (va_path w) = lookup s (va_path w)" if "PML4_INDEX w \<in> I" "va_path w \<noteq> va_path v" for w
            using L(3) [OF va_path_paths [OF that(1)] that(2)] s3(2) va_path_paths [OF that(1)]
            by (simp add: same_walks_def va_path_def)
          show "card (free_set (buddy s)) \<le> card (free_set (buddy ?s4)) + 3" using l1(8) l2(8) l3(8) by simp
        qed
      qed
    qed
  qed
qed


text \<open>What the paging code depends on.\<close>

lemma paging_cong:
  "buddy s' = buddy s \<Longrightarrow> mem s' = mem s \<Longrightarrow> hhdm s' = hhdm s \<Longrightarrow> cr3 s' = cr3 s \<Longrightarrow> paging_ok I s' \<longleftrightarrow> paging_ok I s"
  by (simp add: paging_ok_def pt_root_def)

lemma get_phys_cong:
  "mem s' = mem s \<Longrightarrow> hhdm s' = hhdm s \<Longrightarrow> cr3 s' = cr3 s \<Longrightarrow> vmm_get_phys v s' = vmm_get_phys v s"
  by (simp add: vmm_get_phys_def vmm_get_existing_level_def read64_def phy_to_virt_def read_cr3_def Let_def cong: option.case_cong)

lemma paging_alloc:
  assumes "paging_ok I s" "buddy_wf b" "free_set b \<subseteq> free_set (buddy s)"
  shows "paging_ok I (s\<lparr>buddy := b\<rparr>)"
proof -
  have "pt_tree I h r m (free_set b)" if "pt_tree I h r m (free_set (buddy s))" for h r m
    using that assms(3) unfolding pt_tree_def by blast
  then show ?thesis using assms(1,2) by (auto simp: paging_ok_def pt_root_def)
qed

lemma lookup_cong: "mem s' = mem s \<Longrightarrow> hhdm s' = hhdm s \<Longrightarrow> cr3 s' = cr3 s \<Longrightarrow> lookup s' q = lookup s q"
  by (cases "hhdm s") (simp_all add: lookup_def pt_root_def)

lemma vm_area_cong:
  "buddy s' = buddy s \<Longrightarrow> mem s' = mem s \<Longrightarrow> hhdm s' = hhdm s \<Longrightarrow> cr3 s' = cr3 s \<Longrightarrow> vm_area I s' = vm_area I s"
  using lookup_cong [of s' s] by (simp add: vm_area_def)

lemma vm_confined_alloc:
  assumes "mem s' = mem s" "hhdm s' = hhdm s" "cr3 s' = cr3 s" "free_set (buddy s') \<subseteq> free_set (buddy s)"
  shows "vm_confined I s s'"
  using assms lookup_cong [OF assms(1-3)] by (auto simp: vm_confined_def vm_area_def)

lemma paging_ok_invlpg [simp]: "paging_ok I (invlpg_tlb v s) \<longleftrightarrow> paging_ok I s"
  by (simp add: paging_ok_def invlpg_tlb_def pt_root_def)

lemma lookup_invlpg [simp]: "lookup (invlpg_tlb v s) q = lookup s q"
  by (simp add: lookup_def invlpg_tlb_def pt_root_def split: option.splits)

section \<open>Unmapping\<close>

text \<open>
  \<open>buddy_free_page\<close> on any address: nothing happens, or one frame that was in use becomes free.
\<close>

lemma free_page_any:
  assumes wf: "buddy_wf b" and p: "aligned p" "unat p < 2 ^ 44"
  shows "\<exists>b'. buddy_free_page p b = Some b' \<and> buddy_wf b' \<and>
    (if p \<noteq> 0 \<and> unat p div 4096 \<in> allocated_set b
     then free_set b' = insert (unat p div 4096) (free_set b) \<and> allocated_set b' = allocated_set b - {unat p div 4096}
     else b' = b)"
proof (cases "p \<noteq> 0 \<and> unat p div 4096 \<in> allocated_set b")
  case True
  then show ?thesis
    using buddy.single.release1_gives_back [OF wf, of p] p(1) by (auto simp: buddy_free_page_def dvd_eq_mod_eq_0)
next
  case False
  have m: "unat p mod 4096 = 0" using p(1) by (simp add: dvd_eq_mod_eq_0)
  have "buddy_free_pages p 1 b = Some b"
  proof (cases "p = 0")
    case True
    then show ?thesis by (simp add: buddy_free_pages_def)
  next
    case p0: False
    show ?thesis
    proof (cases "unat p div 4096 < NPAGES")
      case True
      then show ?thesis using free_pages_eval(1,3) [OF p0 _ m True refl, of 1] False p0 by (simp add: allocated_set_def)
    next
      case big: False
      have "unat p div 4096 < 2 ^ 32" using p(2) by (simp add: less_mult_imp_div_less)
      then have "unat (ucast (p div BUDDY_PAGE_SIZE) :: u32) = unat p div 4096"
        by (simp add: unsigned_ucast_eq BUDDY_PAGE_SIZE_def unat_div take_bit_nat_eq_self)
      then have "\<not> ucast (ucast (p div BUDDY_PAGE_SIZE) :: u32) < BUDDY_MAX_PAGES"
        using big by (simp add: word_less_nat_alt NPAGES_is_max_pages)
      then show ?thesis by (auto simp: buddy_free_pages_def not_less)
    qed
  qed
  then show ?thesis using wf False by (auto simp: buddy_free_page_def)
qed

lemma vmm_unmap_absent:
  assumes ok: "paging_ok I s" and v: "PML4_INDEX v \<in> I" and none: "lookup s (va_path v) = None"
  shows "vmm_unmap v s = Some (False, s)"
proof -
  obtain h where h: "hhdm s = Some h" using ok by (auto simp: paging_ok_def)
  let ?p = "[PML4_INDEX v, PDPT_INDEX v, PD_INDEX v]"
  note W = walk_levels [OF ok h v] and D = paging_okD [OF ok h] and P = va_path_prefixes [OF v]
  have vp: "va_path v = ?p @ [PT_INDEX v]" by (simp add: va_path_def)
  show ?thesis
  proof (cases "lookup s ?p")
    case None
    then show ?thesis unfolding vmm_unmap_def Let_def W(2) using W(1) by simp
  next
    case (Some t)
    have "t + h \<noteq> NULL" using pt_tree_table(2) [OF D(3) P(3)] D(4) Some by simp
    then show ?thesis unfolding vmm_unmap_def Let_def W(2)
      using W(1) Some lookup_step [OF h Some, of "PT_INDEX v"] none
      unfolding vp by (simp add: read64_def entry_at_def split: if_splits)
  qed
qed

lemma vmm_unmap_present:
  assumes ok: "paging_ok I s" and v: "PML4_INDEX v \<in> I" and f: "lookup s (va_path v) = Some f"
    and low: "unat f < 2 ^ 44" and nt: "\<forall>q\<in>paths 3 I. lookup s q \<noteq> Some f"
  shows "\<exists>s'. vmm_unmap v s = Some (True, s') \<and> paging_ok I s' \<and> tlb_flushed s' = tlb_flushed s @ [v] \<and>
    lookup s' (va_path v) = None \<and>
    (\<forall>q\<in>paths 4 I. q \<noteq> va_path v \<longrightarrow> lookup s' q = lookup s q) \<and>
    buddy_free_page f (buddy s) = Some (buddy s')"
proof -
  obtain h where h: "hhdm s = Some h" using ok by (auto simp: paging_ok_def)
  let ?p = "[PML4_INDEX v, PDPT_INDEX v, PD_INDEX v]"
  note W = walk_levels [OF ok h v] and D = paging_okD [OF ok h] and P = va_path_prefixes [OF v]
  have vp: "va_path v = ?p @ [PT_INDEX v]" by (simp add: va_path_def)
  obtain t where t: "lookup s ?p = Some t" using f lookup_None unfolding vp by fastforce
  have tn: "t + h \<noteq> NULL" using pt_tree_table(2) [OF D(3) P(3)] D(4) t by simp
  let ?e = "entry_at h (mem s) t (PT_INDEX v)"
  have e: "?e AND PAGE_PRESENT \<noteq> 0" "?e AND PAGE_ADDR_MASK = f"
    using lookup_step [OF h t, of "PT_INDEX v"] f unfolding vp by (auto split: if_splits)
  have af: "aligned f" unfolding e(2) [symmetric] by simp
  let ?s1 = "s\<lparr>mem := store64 0 (t + h + 8 * PT_INDEX v) (mem s)\<rparr>"
  note L = set_leaf [OF ok h v t refl, where e = 0]
  obtain b where b: "buddy_free_page f (buddy s) = Some b" "buddy_wf b"
    "if f \<noteq> 0 \<and> unat f div 4096 \<in> allocated_set (buddy s)
     then free_set b = insert (unat f div 4096) (free_set (buddy s)) \<and> allocated_set b = allocated_set (buddy s) - {unat f div 4096}
     else b = buddy s"
    using free_page_any [OF D(1) af low] by blast
  let ?s2 = "(invlpg_tlb v ?s1)\<lparr>buddy := b\<rparr>"
  have ev: "vmm_unmap v s = Some (True, ?s2)"
    unfolding vmm_unmap_def Let_def W(2) using W(1) t tn e b(1)
    by (simp add: read64_def write64_def entry_at_def machine_free_page_def invlpg_tlb_def)
  have lk: "lookup ?s2 q = lookup ?s1 q" for q by (simp add: lookup_def invlpg_tlb_def pt_root_def split: option.splits)
  have ok1: "paging_ok I ?s1" using L(1) by (simp add: vm_step_def)
  have h1: "hhdm ?s1 = Some h" using h by simp
  note D1 = paging_okD [OF ok1 h1]
  have k: "lookup ?s1 q = lookup s q" if "q \<in> paths 3 I" for q
  proof -
    have "q \<noteq> va_path v" using that by (auto simp: paths_def va_path_def)
    then show ?thesis using L(3) [OF paths_mono [OF that]] by simp
  qed
  have out: "unat t' div 4096 \<notin> free_set b" if "q \<in> paths 3 I" "walk h (mem ?s1) (pt_root ?s1) q = Some t'" for q t'
  proof -
    have al: "aligned t'" and nf: "unat t' div 4096 \<notin> free_set (buddy s)"
      using pt_tree_table [OF D1(3) that] by simp_all
    have "t' \<noteq> f" using that k D1(4) nt by metis
    then have "unat t' div 4096 \<noteq> unat f div 4096" using al af by (metis dvd_div_mult_self unat_inj_iff)
    then show ?thesis using b(3) nf by (auto split: if_splits)
  qed
  have "pt_tree I h (pt_root ?s1) (mem ?s1) (free_set b)"
    using D1(3) out unfolding pt_tree_def by blast
  then have "paging_ok I ?s2" using b(2) h D(2) by (auto simp: paging_ok_def invlpg_tlb_def pt_root_def)
  then show ?thesis using ev L(2,3) b(1) lk by (intro exI [of _ ?s2]) (simp add: invlpg_tlb_def)
qed

end
