(* ===== verification/Address_Space.thy ===== *)
theory Address_Space
  imports VMM
begin

text \<open>
  The contract of an address space towards its clients, as a locale, and the paging code as an
  instance of it: mapping sets one page's translation and leaves all others alone.
\<close>

section \<open>Mapping below tables that exist\<close>

lemma next_level_existing:
  assumes ok: "paging_ok I s" and h: "hhdm s = Some h" and pi: "p @ [i] \<in> paths 3 I"
    and t: "lookup s p = Some t" and u: "lookup s (p @ [i]) = Some u"
  shows "vmm_get_next_level (t + h) i s = Some (u + h, s)" "u + h \<noteq> NULL"
proof -
  note D = paging_okD [OF ok h]
  have p: "p \<in> paths 3 I" using pi by (auto simp: paths_def hd_append)
  have "t + h \<noteq> NULL" using pt_tree_table(2) [OF D(3) p] D(4) t by simp
  then show "vmm_get_next_level (t + h) i s = Some (u + h, s)"
    using lookup_step [OF h t, of i] u h
    by (auto simp: vmm_get_next_level_def read64_def entry_at_def phy_to_virt_def split: if_splits)
  show "u + h \<noteq> NULL" using pt_tree_table(2) [OF D(3) pi] D(4) u by simp
qed

lemma vmm_map_existing:
  assumes ok: "paging_ok I s" and h: "hhdm s = Some h" and v: "PML4_INDEX v \<in> I"
    and t: "lookup s [PML4_INDEX v, PDPT_INDEX v, PD_INDEX v] = Some t"
  shows "vmm_map v p f s =
    Some (True, invlpg_tlb v (s\<lparr>mem := store64 ((p AND PAGE_ADDR_MASK) OR f) (t + h + 8 * PT_INDEX v) (mem s)\<rparr>))"
proof -
  let ?r = "cr3 s AND PAGE_ADDR_MASK"
  note P = va_path_prefixes [OF v] and D = paging_okD [OF ok h]
  have r: "phy_to_virt (read_cr3 s AND PAGE_ADDR_MASK) s = ?r + h" using h by (simp add: phy_to_virt_def read_cr3_def)
  have l0: "lookup s [] = Some ?r" using lookup_Nil [OF h] .
  have rn: "?r + h \<noteq> NULL" using pt_tree_table(2) [OF D(3) P(4)] D(4) l0 by simp
  obtain t1 where t1: "lookup s [PML4_INDEX v] = Some t1"
    using t lookup_None [of s "[PML4_INDEX v]" "[PDPT_INDEX v, PD_INDEX v]"] by fastforce
  obtain t2 where t2: "lookup s [PML4_INDEX v, PDPT_INDEX v] = Some t2"
    using t lookup_None [of s "[PML4_INDEX v, PDPT_INDEX v]" "[PD_INDEX v]"] by fastforce
  note e1 = next_level_existing [OF ok h, of "[]" "PML4_INDEX v", simplified, OF P(1) l0 t1]
    and e2 = next_level_existing [OF ok h, of "[PML4_INDEX v]" "PDPT_INDEX v", simplified, OF P(2) t1 t2]
    and e3 = next_level_existing [OF ok h, of "[PML4_INDEX v, PDPT_INDEX v]" "PD_INDEX v", simplified, OF P(3) t2 t]
  show ?thesis using e1 e2 e3 rn r by (simp add: vmm_map_def Let_def write64_def)
qed

section \<open>Address spaces\<close>

text \<open>
  The contract of an address space towards its clients: mapping a page sets the translation of
  the addresses in that page and of no other address, and a mapping that fails sets none.
\<close>

locale address_space =
  fixes inv :: "'s \<Rightarrow> bool" and area :: "u64 set" and page_of :: "u64 \<Rightarrow> 'k"
    and get :: "u64 \<Rightarrow> 's \<Rightarrow> u64 option" and map_page :: "u64 \<Rightarrow> u64 \<Rightarrow> u64 \<Rightarrow> 's \<Rightarrow> (bool \<times> 's) option"
    and flags_ok :: "u64 \<Rightarrow> bool" and target :: "u64 \<Rightarrow> u64 \<Rightarrow> u64"
  assumes map_returns: "inv s \<Longrightarrow> v \<in> area \<Longrightarrow> \<exists>b s'. map_page v p f s = Some (b, s') \<and> inv s'"
    and map_this: "inv s \<Longrightarrow> v \<in> area \<Longrightarrow> flags_ok f \<Longrightarrow> map_page v p f s = Some (True, s') \<Longrightarrow>
      w \<in> area \<Longrightarrow> page_of w = page_of v \<Longrightarrow> get w s' = Some (target p w)"
    and map_other: "inv s \<Longrightarrow> v \<in> area \<Longrightarrow> map_page v p f s = Some (b, s') \<Longrightarrow> w \<in> area \<Longrightarrow>
      page_of w \<noteq> page_of v \<or> \<not> b \<Longrightarrow> get w s' = get w s"
begin

lemma map_keeps_inv: "inv s \<Longrightarrow> v \<in> area \<Longrightarrow> map_page v p f s = Some (b, s') \<Longrightarrow> inv s'"
  using map_returns [of s v p f] by auto

lemma map_twice:
  assumes "inv s" "v \<in> area" "w \<in> area" "flags_ok f" "flags_ok g" "page_of v \<noteq> page_of w"
    and "map_page v p f s = Some (True, s1)" "map_page w q g s1 = Some (True, s2)"
  shows "get v s2 = Some (target p v)" "get w s2 = Some (target q w)"
  using map_this [OF assms(1,2,4,7,2)] map_other [OF map_keeps_inv [OF assms(1,2,7)] assms(3,8,2)] assms(6)
    map_this [OF map_keeps_inv [OF assms(1,2,7)] assms(3,5,8,3)] by auto

lemma map_again:
  assumes "inv s" "v \<in> area" "flags_ok f" "flags_ok g"
    and "map_page v p f s = Some (True, s1)" "map_page v q g s1 = Some (True, s2)"
  shows "get v s2 = Some (target q v)"
  using map_this [OF map_keeps_inv [OF assms(1,2,5)] assms(2,4,6,2)] by simp

end

definition flags_ok :: "u64 \<Rightarrow> bool" where
  "flags_ok f \<longleftrightarrow> f AND PAGE_PRESENT \<noteq> 0 \<and> f AND PAGE_ADDR_MASK = 0"

definition phys_target :: "u64 \<Rightarrow> u64 \<Rightarrow> u64" where
  "phys_target p w = (p AND PAGE_ADDR_MASK) OR (w AND 0xFFF)"

lemma flags_ok_entry:
  assumes "flags_ok f"
  shows "((p AND PAGE_ADDR_MASK) OR f) AND PAGE_PRESENT \<noteq> 0"
    "((p AND PAGE_ADDR_MASK) OR f) AND PAGE_ADDR_MASK = p AND PAGE_ADDR_MASK"
proof -
  have "bit (f AND PAGE_PRESENT) 0"
  proof (rule ccontr)
    assume "\<not> bit (f AND PAGE_PRESENT) 0"
    then have "f AND PAGE_PRESENT = 0" by (intro bit_word_eqI) (metis PAGE_flag_bits(1) bit_0_eq bit_and_iff bot_apply bot_bool_def)
    then show False using assms by (simp add: flags_ok_def)
  qed
  then have "bit (((p AND PAGE_ADDR_MASK) OR f) AND PAGE_PRESENT) 0" by (simp add: bit_and_iff bit_or_iff)
  then show "((p AND PAGE_ADDR_MASK) OR f) AND PAGE_PRESENT \<noteq> 0" by (metis bit_0_eq bot_apply bot_bool_def)
  show "((p AND PAGE_ADDR_MASK) OR f) AND PAGE_ADDR_MASK = p AND PAGE_ADDR_MASK"
    using assms by (simp add: flags_ok_def bit.conj_disj_distrib2 and.assoc)
qed

lemma vmm_map_translate:
  assumes ok: "paging_ok I s" and v: "PML4_INDEX v \<in> I" and m: "vmm_map v p f s = Some (b, s')"
  shows "paging_ok I s'" "b \<Longrightarrow> flags_ok f \<Longrightarrow> va_path w = va_path v \<Longrightarrow> translate s' w = Some (phys_target p w)"
    "PML4_INDEX w \<in> I \<Longrightarrow> va_path w \<noteq> va_path v \<or> \<not> b \<Longrightarrow> translate s' w = translate s w"
proof -
  show "paging_ok I s'"
    using ok v by (cases rule: vmm_map_cases [where p = p and f = f]) (use m in \<open>auto simp: vm_step_def\<close>)
  show "translate s' w = Some (phys_target p w)" if "b" "flags_ok f" "va_path w = va_path v"
    using ok v
  proof (cases rule: vmm_map_cases [where p = p and f = f, case_names fail mapped])
    case (mapped s1)
    then show ?thesis using m that flags_ok_entry [OF that(2), of p]
      by (auto simp: translate_def Let_def phys_target_def)
  qed (use m that in auto)
  show "translate s' w = translate s w" if "PML4_INDEX w \<in> I" "va_path w \<noteq> va_path v \<or> \<not> b"
    using ok v
  proof (cases rule: vmm_map_cases [where p = p and f = f, case_names fail mapped])
    case (fail s1)
    then have "lookup s1 (va_path w) = lookup s (va_path w)"
      using va_path_paths [OF that(1)] by (simp add: same_walks_def va_path_def)
    then show ?thesis using m fail by (simp add: translate_def)
  next
    case (mapped s1)
    then show ?thesis using m that by (auto simp: translate_def)
  qed
qed

lemma vmm_address_space:
  "address_space (paging_ok I) {v. PML4_INDEX v \<in> I} va_path vmm_get_phys vmm_map flags_ok phys_target"
proof
  show "\<exists>b s'. vmm_map v p f s = Some (b, s') \<and> paging_ok I s'"
    if "paging_ok I s" "v \<in> {v. PML4_INDEX v \<in> I}" for s :: "'a machine_scheme" and v p f
  proof -
    have v: "PML4_INDEX v \<in> I" using that by simp
    from that(1) v show ?thesis
      by (cases rule: vmm_map_cases [where p = p and f = f]) (auto simp: vm_step_def)
  qed
  show "vmm_get_phys w s' = Some (phys_target p w)"
    if "paging_ok I s" "v \<in> {v. PML4_INDEX v \<in> I}" "flags_ok f" "vmm_map v p f s = Some (True, s')"
      "w \<in> {v. PML4_INDEX v \<in> I}" "va_path w = va_path v" for s s' :: "'a machine_scheme" and v p f w
    using vmm_map_translate(1,2) [of I s v p f True s'] get_phys_translate [of I s' w] that by simp
  show "vmm_get_phys w s' = vmm_get_phys w s"
    if "paging_ok I s" "v \<in> {v. PML4_INDEX v \<in> I}" "vmm_map v p f s = Some (b, s')"
      "w \<in> {v. PML4_INDEX v \<in> I}" "va_path w \<noteq> va_path v \<or> \<not> b" for s s' :: "'a machine_scheme" and v p f b w
    using vmm_map_translate(1,3) [of I s v p f b s'] get_phys_translate [of I s' w] get_phys_translate [of I s w] that by simp
qed

interpretation vmm: address_space "paging_ok I" "{v. PML4_INDEX v \<in> I}" va_path vmm_get_phys vmm_map flags_ok phys_target for I
  by (rule vmm_address_space)

end
