(* ===== verification/VMM_Properties.thy ===== *)
theory VMM_Properties
  imports Address_Space Buddy_Properties
begin

text \<open>
  The properties of the paging code, with witnesses on a machine whose top table has one branch of
  tables (\<open>demo_machine\<close>).
\<close>

section \<open>A machine with paging\<close>

text \<open>
  The top table at 0x5000 and one branch below its slot 288: tables at 0x6000, 0x7000 and 0x8000.
  The page allocator is \<open>demo_one\<close>, with the frame at 0x100000 in use.
\<close>

abbreviation HH :: u64 where "HH \<equiv> 0xFFFF800000000000"

definition demo_mem :: memory where
  "demo_mem = store64 0x8003 (0x7000 + HH + 8 * 0) (store64 0x7003 (0x6000 + HH + 8 * 0) (store64 0x6003 (0x5000 + HH + 8 * 288) (\<lambda>_. 0)))"

definition demo_machine :: machine where
  "demo_machine = \<lparr>buddy = demo_one, mem = demo_mem, hhdm = Some HH, cr3 = 0x5018, tlb_flushed = []\<rparr>"

lemma load64_zero: "load64 a (\<lambda>_. 0) = 0"
  by (rule bit_word_eqI) (simp add: load64_def bit_load_le)

lemma link_demo:
  assumes "pt_tree {288} HH 0x5000 m F" "p @ [i] \<in> paths 3 {288}" "walk HH m 0x5000 p = Some t"
    and "entry_at HH m t i = 0" "\<forall>j<512. entry_at HH m u j = 0" "aligned u" "unat u < 2 ^ 30" "unat u div 4096 \<in> F"
  shows "pt_tree {288} HH 0x5000 (store64 (u OR 3) (t + HH + 8 * i) m) (F - {unat u div 4096})"
    "walk HH (store64 (u OR 3) (t + HH + 8 * i) m) 0x5000 (p @ [i]) = Some u"
    "q \<in> paths 3 {288} \<Longrightarrow> walk HH (store64 (u OR 3) (t + HH + 8 * i) m) 0x5000 q = (if q = p @ [i] then Some u else walk HH m 0x5000 q)"
proof -
  have p: "p \<in> paths 3 {288}" "i < 512" using assms(2) by (auto simp: paths_def hd_append)
  have pi: "p @ [i] \<in> paths 4 {288}" using paths_mono [OF assms(2)] by simp
  have ok: "hhdm_ok HH" by (simp add: hhdm_ok_def)
  have e: "u OR 3 = u OR PAGE_PRESENT OR PAGE_WRITABLE" by (simp add: PAGE_PRESENT_def PAGE_WRITABLE_def or.assoc)
  have e0: "entry_at HH m t i AND PAGE_PRESENT = 0" using assms(4) by simp
  have u: "unat u < 2 ^ 52" using assms(7) by simp
  note L = walk_link_table [OF assms(1) p(1) assms(3) p(2) e0 assms(2,6) u assms(8) direct_map_not_null [OF ok assms(7)] _ assms(5) refl]
  show "pt_tree {288} HH 0x5000 (store64 (u OR 3) (t + HH + 8 * i) m) (F - {unat u div 4096})"
    using L(2) by (simp add: e)
  show "walk HH (store64 (u OR 3) (t + HH + 8 * i) m) 0x5000 (p @ [i]) = Some u"
    using L(1) [OF _ pi] by (simp add: e)
  show "walk HH (store64 (u OR 3) (t + HH + 8 * i) m) 0x5000 q = (if q = p @ [i] then Some u else walk HH m 0x5000 q)"
    if "q \<in> paths 3 {288}" using L(1) [OF _ paths_mono [OF that]] by (simp add: e)
qed


lemma demo_free: "free_set demo_state = {256, 257, 258, 259}" "free_set demo_one = {257, 258, 259}" "256 \<in> allocated_set demo_one"
proof -
  show f: "free_set demo_state = {256, 257, 258, 259}"
    unfolding inv_free_set [OF demo_inv] demo_heads pages_of_def by (simp add: block_def atLeastLessThan_nat_numeral insert_commute)
  show "free_set demo_one = {257, 258, 259}" "256 \<in> allocated_set demo_one"
    using alloc_pages_sound [OF demo_wf demo_alloc demo_valid] f by (auto simp: frames_of_def page_span_def)
qed

lemma demo_tree:
  "pt_tree {288} HH 0x5000 demo_mem {257, 258, 259}" "walk HH demo_mem 0x5000 [288, 0, 0] = Some 0x8000"
  "q \<in> paths 3 {288} \<Longrightarrow> walk HH demo_mem 0x5000 q = Some t \<Longrightarrow> t \<in> {0x5000, 0x6000, 0x7000, 0x8000}"
  "entry_at HH demo_mem 0x8000 0 = 0"
proof -
  let ?m0 = "\<lambda>_. 0 :: u8" and ?F = "{6, 7, 8, 257, 258, 259} :: nat set"
  let ?m1 = "store64 (0x6000 OR 3) (0x5000 + HH + 8 * 288) ?m0"
  let ?m2 = "store64 (0x7000 OR 3) (0x6000 + HH + 8 * 0) ?m1"
  let ?m3 = "store64 (0x8000 OR 3) (0x7000 + HH + 8 * 0) ?m2"
  have z: "entry_at HH ?m0 t i = 0" for t i by (simp add: entry_at_def load64_zero)
  have w0: "walk HH ?m0 0x5000 p = (if p = [] then Some 0x5000 else None)" for p by (cases p) (simp_all add: z)
  have t0: "pt_tree {288} HH 0x5000 ?m0 ?F" by (auto simp: pt_tree_def w0 split: if_splits)
  have e1: "entry_at HH ?m1 t j = 0" if "aligned t" "t \<noteq> 0x5000" "j < 512" for t j
    using entry_at_store [of "0x5000" t 288 j HH] that z by simp
  have e2: "entry_at HH ?m2 t j = 0" if "aligned t" "t \<noteq> 0x5000" "t \<noteq> 0x6000" "j < 512" for t j
    using entry_at_store [of "0x6000" t 0 j HH] that e1 by simp
  have P: "[] @ [288] \<in> paths 3 {288}" "[288] @ [0] \<in> paths 3 {288}" "[288, 0] @ [0] \<in> paths 3 {288}" by (simp_all add: paths_def)
  note l1 = link_demo [OF t0 P(1), of "0x5000" "0x6000"]
  have t1: "pt_tree {288} HH 0x5000 ?m1 (?F - {6})" "walk HH ?m1 0x5000 [288] = Some 0x6000" using l1 z by simp_all
  note l2 = link_demo [OF t1(1) P(2) t1(2), of "0x7000"]
  have t2: "pt_tree {288} HH 0x5000 ?m2 (?F - {6} - {7})" "walk HH ?m2 0x5000 [288, 0] = Some 0x7000" using l2 e1 by simp_all
  note l3 = link_demo [OF t2(1) P(3) t2(2), of "0x8000"]
  have t3: "pt_tree {288} HH 0x5000 ?m3 (?F - {6} - {7} - {8})" "walk HH ?m3 0x5000 [288, 0, 0] = Some 0x8000" using l3 e2 by simp_all
  have F: "?F - {6} - {7} - {8} = {257, 258, 259}" by auto
  have m: "?m3 = demo_mem" by (simp add: demo_mem_def)
  show "pt_tree {288} HH 0x5000 demo_mem {257, 258, 259}" using t3(1) unfolding F m .
  show "walk HH demo_mem 0x5000 [288, 0, 0] = Some 0x8000" using t3(2) unfolding m .
  show "entry_at HH demo_mem 0x8000 0 = 0"
    unfolding m [symmetric] using entry_at_store [of "0x7000" "0x8000" 0 0 HH] e2 by simp
  show "t \<in> {0x5000, 0x6000, 0x7000, 0x8000}" if "q \<in> paths 3 {288}" "walk HH demo_mem 0x5000 q = Some t"
    using that(2) l3(3) [OF _ _ _ _ _ that(1)] l2(3) [OF _ _ _ _ _ that(1)] l1(3) [OF _ _ _ _ _ _ that(1)] e2 e1 z w0 [of q]
    unfolding m [symmetric] by (simp split: if_splits)
qed

lemma demo_paging:
  "paging_ok {288} demo_machine" "hhdm demo_machine = Some HH" "lookup demo_machine [288, 0, 0] = Some 0x8000"
proof -
  have r: "pt_root demo_machine = 0x5000" by (simp add: pt_root_def demo_machine_def PAGE_ADDR_MASK_def)
  show "paging_ok {288} demo_machine"
    using demo_tree(1) demo_one_wf(1) demo_free(2) r by (simp add: paging_ok_def demo_machine_def hhdm_ok_def)
  show "hhdm demo_machine = Some HH" by (simp add: demo_machine_def)
  then show "lookup demo_machine [288, 0, 0] = Some 0x8000"
    using demo_tree(2) r by (simp add: lookup_def demo_machine_def)
qed

lemma demo_tables: "q \<in> paths 3 {288} \<Longrightarrow> lookup demo_machine q = Some t \<Longrightarrow> t \<in> {0x5000, 0x6000, 0x7000, 0x8000}"
  using demo_tree(3) [of q t] by (simp add: lookup_def demo_machine_def pt_root_def PAGE_ADDR_MASK_def)

abbreviation VA :: u64 where "VA \<equiv> 0xFFFF900000000000"

lemma demo_va:
  "PML4_INDEX VA = 288" "PDPT_INDEX VA = 0" "PD_INDEX VA = 0" "PT_INDEX VA = 0"
  "va_path VA = [288, 0, 0, 0]" "va_path (VA + 0x1000) = [288, 0, 0, 1]" "va_path (VA + 0x50) = [288, 0, 0, 0]"
  "PML4_INDEX (VA + 0x1000) = 288" "PML4_INDEX (VA + 0x50) = 288"
  by (simp_all add: va_path_def PML4_INDEX_def PDPT_INDEX_def PD_INDEX_def PT_INDEX_def)

lemma demo_map:
  "\<exists>s'. vmm_map VA 0x100000 3 demo_machine = Some (True, s') \<and> buddy s' = demo_one \<and>
     (\<forall>q\<in>paths 3 {288}. lookup s' q = lookup demo_machine q)"
proof -
  let ?s = "demo_machine\<lparr>mem := store64 ((0x100000 AND PAGE_ADDR_MASK) OR 3) (0x8000 + HH + 8 * PT_INDEX VA) (mem demo_machine)\<rparr>"
  have v: "PML4_INDEX VA \<in> {288}" by (simp add: demo_va)
  have t: "lookup demo_machine [PML4_INDEX VA, PDPT_INDEX VA, PD_INDEX VA] = Some 0x8000"
    unfolding demo_va by (rule demo_paging(3))
  have "lookup ?s q = lookup demo_machine q" if "q \<in> paths 3 {288}" for q
  proof -
    have "q \<noteq> va_path VA" using that by (auto simp: paths_def va_path_def)
    then show ?thesis using set_leaf(3) [OF demo_paging(1,2) v t refl paths_mono [OF that]] by simp
  qed
  then show ?thesis
    using vmm_map_existing [OF demo_paging(1,2) v t, of "0x100000" 3]
    by (intro exI [of _ "invlpg_tlb VA ?s"]) (simp add: invlpg_tlb_def demo_machine_def lookup_def pt_root_def)
qed

lemma demo_flags: "flags_ok 3"
  by (simp add: flags_ok_def PAGE_PRESENT_def PAGE_ADDR_MASK_def)

section \<open>Properties\<close>



text \<open>
  \<open>vmm_map\<close> writes only to page tables and to frames that were free: all other memory, in
  particular everything the kernel has allocated, is unchanged, and no allocated frame is released.
\<close>

lemma vmm_map_frame:
  assumes "paging_ok I s" "PML4_INDEX v \<in> I" "vmm_map v p flags s = Some (b, s')" "x \<notin> vm_area I s"
  shows "mem s' x = mem s x \<and> allocated_set (buddy s) \<subseteq> allocated_set (buddy s')"
  using assms(1,2)
proof (cases rule: vmm_map_cases [where p = p and f = flags, case_names fail mapped])
  case (fail s1)
  then show ?thesis using assms(3,4) by (auto simp: vm_step_def)
next
  case (mapped s1)
  then show ?thesis using assms(3,4) by (auto simp: vm_step_def invlpg_tlb_def)
qed

text \<open>
  C21. Unmapping a mapped page, whose frame is not itself one of the tables: the page no longer
  translates, all other translations stay, the translation is flushed from the TLB, and the frame
  is handed to \<open>buddy_free_page\<close>.
\<close>

theorem vmm_unmap_removes:
  assumes "paging_ok I s" "PML4_INDEX v \<in> I" "lookup s (va_path v) = Some f" "unat f < 2 ^ 44"
    and "\<forall>q\<in>paths 3 I. lookup s q \<noteq> Some f"
  shows "\<exists>s'. vmm_unmap v s = Some (True, s') \<and> paging_ok I s' \<and> tlb_flushed s' = tlb_flushed s @ [v] \<and>
    vmm_get_phys v s' = Some BUDDY_INVALID_ADDRESS \<and>
    (\<forall>w. PML4_INDEX w \<in> I \<and> va_path w \<noteq> va_path v \<longrightarrow> vmm_get_phys w s' = vmm_get_phys w s) \<and>
    buddy_free_page f (buddy s) = Some (buddy s')"
proof -
  obtain s' where s': "vmm_unmap v s = Some (True, s')" "paging_ok I s'" "tlb_flushed s' = tlb_flushed s @ [v]"
    "lookup s' (va_path v) = None" "\<forall>q\<in>paths 4 I. q \<noteq> va_path v \<longrightarrow> lookup s' q = lookup s q"
    "buddy_free_page f (buddy s) = Some (buddy s')"
    using vmm_unmap_present [OF assms] by blast
  have "vmm_get_phys w s' = vmm_get_phys w s" if "PML4_INDEX w \<in> I" "va_path w \<noteq> va_path v" for w
    using s'(5) va_path_paths [OF that(1)] that get_phys_translate [OF s'(2) that(1)] get_phys_translate [OF assms(1) that(1)]
    by (simp add: translate_def)
  then show ?thesis using s' get_phys_translate [OF s'(2) assms(2)] by (auto simp: translate_def)
qed

theorem vmm_unmap_removes_witness:
  "\<exists>s s'. vmm_map VA 0x100000 3 demo_machine = Some (True, s) \<and> vmm_get_phys VA s = Some 0x100000 \<and>
     vmm_unmap VA s = Some (True, s') \<and> vmm_get_phys VA s' = Some BUDDY_INVALID_ADDRESS \<and> 256 \<in> free_set (buddy s')"
proof -
  obtain s where m: "vmm_map VA 0x100000 3 demo_machine = Some (True, s)" "buddy s = demo_one"
    "\<forall>q\<in>paths 3 {288}. lookup s q = lookup demo_machine q" using demo_map by blast
  have v: "PML4_INDEX VA \<in> {288}" by (simp add: demo_va)
  have ok: "paging_ok {288} s" using vmm_map_translate(1) [OF demo_paging(1) v m(1)] .
  have tr: "translate s VA = Some 0x100000"
    using vmm_map_translate(2) [OF demo_paging(1) v m(1) _ demo_flags, of VA] by (simp add: phys_target_def PAGE_ADDR_MASK_def)
  then have f: "lookup s (va_path VA) = Some 0x100000" by (simp add: translate_def)
  have "\<forall>q\<in>paths 3 {288}. lookup s q \<noteq> Some 0x100000"
    using m(3) demo_tables [of _ "0x100000"] by auto
  then obtain s' where s': "vmm_unmap VA s = Some (True, s')" "vmm_get_phys VA s' = Some BUDDY_INVALID_ADDRESS"
    "buddy_free_page 0x100000 demo_one = Some (buddy s')"
    using vmm_unmap_removes [OF ok v f] m(2) by auto
  have "256 \<in> free_set (buddy s')" using s'(3) demo_free(3) free_page_any [OF demo_one_wf(1), of "0x100000"] by simp
  then show ?thesis using m s' get_phys_translate [OF ok v] tr by auto
qed


lemma translate_valid: "translate s v \<noteq> Some BUDDY_INVALID_ADDRESS"
proof
  assume "translate s v = Some BUDDY_INVALID_ADDRESS"
  then obtain h where "walk h (mem s) (pt_root s) (va_path v) \<noteq> None" and
    "map_option (\<lambda>b. b OR (v AND 0xFFF)) (walk h (mem s) (pt_root s) (va_path v)) = Some BUDDY_INVALID_ADDRESS"
    by (auto simp: translate_def lookup_def split: option.splits)
  then obtain e where "(e AND PAGE_ADDR_MASK) OR (v AND 0xFFF) = BUDDY_INVALID_ADDRESS"
    by (auto simp: va_path_def Let_def split: if_splits)
  then have "bit ((e AND PAGE_ADDR_MASK) OR (v AND mask 12)) 63" by (simp add: BUDDY_INVALID_ADDRESS_def mask_eq_exp_minus_1)
  then show False by (simp add: bit_or_iff bit_and_iff PAGE_ADDR_MASK_bits bit_mask_iff)
qed

text \<open>
  Unmapping an address that \<open>vmm_get_phys\<close> reports as unmapped fails and changes nothing: no
  entry is cleared, nothing is flushed and no frame is released.
\<close>

lemma vmm_unmap_unmapped:
  assumes "paging_ok I s" "PML4_INDEX v \<in> I" "vmm_get_phys v s = Some BUDDY_INVALID_ADDRESS"
  shows "vmm_unmap v s = Some (False, s)"
proof -
  have "translate s v = None"
    using get_phys_translate [OF assms(1,2)] assms(3) translate_valid [of s v] by (auto split: option.splits)
  then show ?thesis using vmm_unmap_absent [OF assms(1,2)] by (simp add: translate_def)
qed

end
