(* ===== verification/VMM_Refinement.thy ===== *)
theory VMM_Refinement
  imports VMM_Properties
begin

text \<open>
  The paging code as a refinement of a finite map from pages to frames: \<open>vmm_map\<close> updates the map and
  \<open>vmm_get_phys\<close> reads it.
\<close>

section \<open>The address space as a map\<close>

text \<open>Every path of four indices is the path of some address.\<close>

lemma va_path_surj:
  assumes "a < 512" "b < 512" "c < 512" "d < 512"
  shows "\<exists>w. va_path w = [a, b, c, d]"
proof -
  have lo: "i < 9" if "x < 512" "bit x i" for x :: u64 and i
  proof -
    have "unat (take_bit 9 x) = unat x"
      using that(1) by (subst unsigned_take_bit_eq) (simp add: take_bit_nat_eq_self word_less_nat_alt)
    then have "take_bit 9 x = x" by simp
    then show ?thesis using that(2) by (metis bit_take_bit_iff)
  qed
  let ?w = "push_bit 39 a OR push_bit 30 b OR push_bit 21 c OR push_bit 12 d"
  have "take_bit 9 (drop_bit 39 ?w) = a" "take_bit 9 (drop_bit 30 ?w) = b" "take_bit 9 (drop_bit 21 ?w) = c" "take_bit 9 (drop_bit 12 ?w) = d"
    by (rule bit_word_eqI; auto simp: bit_take_bit_iff bit_drop_bit_eq bit_or_iff bit_push_bit_iff dest: assms [THEN lo])+
  then have "va_path ?w = [a, b, c, d]"
    by (simp add: va_path_def PML4_INDEX_def PDPT_INDEX_def PD_INDEX_def PT_INDEX_def take_bit_9)
  then show ?thesis by blast
qed

text \<open>
  What the paging code implements: a map from pages, given by the four indices of their addresses,
  to frames.
\<close>

definition space :: "u64 set \<Rightarrow> 'a machine_scheme \<Rightarrow> u64 list \<Rightarrow> u64 option" where
  "space I s q = (if length q = 4 \<and> q \<in> paths 4 I then lookup s q else None)"

lemma space_ext:
  assumes "\<And>w. PML4_INDEX w \<in> I \<Longrightarrow> lookup s' (va_path w) = f (va_path w)" "\<And>q. \<not> (length q = 4 \<and> q \<in> paths 4 I) \<Longrightarrow> f q = None"
  shows "space I s' = f"
proof
  fix q
  show "space I s' q = f q"
  proof (cases "length q = 4 \<and> q \<in> paths 4 I")
    case False
    then show ?thesis using assms(2) [OF False] by (auto simp: space_def)
  next
    case True
    then obtain a b c d where q: "q = [a, b, c, d]" by (auto simp: numeral_eq_Suc length_Suc_conv)
    then obtain w where w: "va_path w = q" using va_path_surj [of a b c d] True by (auto simp: paths_def)
    then have "PML4_INDEX w \<in> I" using True q by (auto simp: paths_def va_path_def)
    then show ?thesis using assms(1) [of w] w True by (simp add: space_def)
  qed
qed

lemma space_path: "PML4_INDEX v \<in> I \<Longrightarrow> space I s (va_path v) = lookup s (va_path v)"
  using va_path_paths [of v I] by (simp add: space_def va_path_def)

text \<open>
  C8. \<open>vmm_map\<close> refines the update of a map: it returns, keeps the paging invariant, and the address
  space afterwards is the one before with the page's frame updated, or, when it reports failure,
  unchanged.  It fails only when fewer than three frames are free.
\<close>

theorem vmm_map_refines:
  assumes "paging_ok I s" "PML4_INDEX v \<in> I" "flags_ok flags"
  shows "\<exists>b s'. vmm_map v p flags s = Some (b, s') \<and> paging_ok I s' \<and>
    space I s' = (if b then (space I s)(va_path v \<mapsto> p AND PAGE_ADDR_MASK) else space I s) \<and>
    (3 \<le> card (free_set (buddy s)) \<longrightarrow> b)"
  using assms(1,2)
proof (cases rule: vmm_map_cases [where p = p and f = flags, case_names fail mapped])
  case (fail s')
  have "space I s' = space I s"
    using fail(3) by (auto simp: space_def same_walks_def fun_eq_iff)
  then show ?thesis using fail by (auto simp: vm_step_def)
next
  case (mapped s')
  let ?s = "invlpg_tlb v s'"
  have "space I ?s = (space I s)(va_path v \<mapsto> p AND PAGE_ADDR_MASK)"
  proof (rule space_ext)
    show "lookup ?s (va_path w) = ((space I s)(va_path v \<mapsto> p AND PAGE_ADDR_MASK)) (va_path w)" if "PML4_INDEX w \<in> I" for w
      using mapped(3) mapped(4) [OF that] flags_ok_entry [OF assms(3), of p] space_path [OF that, of s]
      by (auto simp: Let_def)
    show "((space I s)(va_path v \<mapsto> p AND PAGE_ADDR_MASK)) q = None" if "\<not> (length q = 4 \<and> q \<in> paths 4 I)" for q
      using that va_path_paths [OF assms(2)] by (auto simp: space_def va_path_def)
  qed
  then show ?thesis using mapped(1,2) by (auto simp: vm_step_def)
qed

theorem vmm_map_refines_witness:
  "\<exists>s'. vmm_map VA 0x100000 3 demo_machine = Some (True, s') \<and> space {288} s' [288, 0, 0, 0] = Some 0x100000"
proof -
  have v: "PML4_INDEX VA \<in> {288}" and c: "card (free_set (buddy demo_machine)) = 3"
    using demo_free(2) by (simp_all add: demo_va demo_machine_def)
  show ?thesis
    using vmm_map_refines [OF demo_paging(1) v demo_flags, of "0x100000"] c by (auto simp: demo_va PAGE_ADDR_MASK_def)
qed

text \<open>
  \<open>vmm_unmap\<close> refines the removal from the map, and reports whether there was anything to remove.
\<close>

lemma vmm_unmap_refines:
  assumes "paging_ok I s" "PML4_INDEX v \<in> I"
    and "\<And>f. lookup s (va_path v) = Some f \<Longrightarrow> unat f < 2 ^ 44 \<and> (\<forall>q\<in>paths 3 I. lookup s q \<noteq> Some f)"
  shows "\<exists>s'. vmm_unmap v s = Some (space I s (va_path v) \<noteq> None, s') \<and> paging_ok I s' \<and> space I s' = (space I s)(va_path v := None)"
proof (cases "lookup s (va_path v)")
  case None
  then show ?thesis using vmm_unmap_absent [OF assms(1,2)] assms(1) space_path [OF assms(2), of s] by (auto simp: fun_upd_idem)
next
  case (Some f)
  obtain s' where s': "vmm_unmap v s = Some (True, s')" "paging_ok I s'" "lookup s' (va_path v) = None"
    "\<forall>q\<in>paths 4 I. q \<noteq> va_path v \<longrightarrow> lookup s' q = lookup s q"
    using vmm_unmap_present [OF assms(1,2) Some] assms(3) [OF Some] by blast
  have "space I s' = (space I s)(va_path v := None)" using s'(3,4) by (auto simp: space_def fun_eq_iff)
  then show ?thesis using s'(1,2) Some space_path [OF assms(2), of s] by auto
qed

text \<open>
  \<open>vmm_get_phys\<close> reads this map: the frame of the address's page with the address's offset in it,
  and the invalid address when the page is not mapped.
\<close>

lemma vmm_get_phys_refines:
  assumes "paging_ok I s" "PML4_INDEX v \<in> I"
  shows "vmm_get_phys v s = Some (case space I s (va_path v) of None \<Rightarrow> BUDDY_INVALID_ADDRESS | Some f \<Rightarrow> f OR (v AND 0xFFF))"
  using get_phys_translate [OF assms] by (simp add: space_path [OF assms(2)] translate_def split: option.splits)

text \<open>
  The walk never looks at the page-size bit: where an entry of the third level maps a large page,
  \<open>vmm_map\<close> takes the page for a table and stores the new entry into the memory it maps.
\<close>

lemma vmm_map_large_page:
  assumes "paging_ok I s" "hhdm s = Some h" "PML4_INDEX v \<in> I"
    and "lookup s [PML4_INDEX v, PDPT_INDEX v] = Some pd" "e = entry_at h (mem s) pd (PD_INDEX v)"
    and "e AND PAGE_PRESENT \<noteq> 0" "bit e 7"
  shows "\<exists>s'. vmm_map v p f s = Some (True, s') \<and>
    mem s' = store64 ((p AND PAGE_ADDR_MASK) OR f) ((e AND PAGE_ADDR_MASK) + h + 8 * PT_INDEX v) (mem s)"
proof -
  have "lookup s [PML4_INDEX v, PDPT_INDEX v, PD_INDEX v] = Some (e AND PAGE_ADDR_MASK)"
    using lookup_step [OF assms(2,4), of "PD_INDEX v"] assms(5,6) by simp
  then show ?thesis using vmm_map_existing [OF assms(1-3)] by (simp add: invlpg_tlb_def)
qed

end
