(* ===== verification/Heap_Model.thy ===== *)
theory Heap_Model
  imports Machine Mem_Functions "HOL-Library.Signed_Division"
begin

text \<open>
  The kernel heap, \<open>src/kernel/src/memory/heap.c\<close>, function by function: size classes with slab pages
  whose headers and free chains live in memory, and large blocks with a header in front.  A
  \<open>heap_cache_t *\<close> is the index of the cache in \<open>heap_caches\<close>; a slab or object pointer is an address.
\<close>

section \<open>Constants and data\<close>

definition HEAP_MAGIC_SMALL :: u32 where "HEAP_MAGIC_SMALL = 0x534C5542"
definition HEAP_MAGIC_LARGE :: u32 where "HEAP_MAGIC_LARGE = 0x4C415247"
definition HEAP_MIN_OBJECT_SIZE :: u64 where "HEAP_MIN_OBJECT_SIZE = 8"
definition HEAP_MAX_SMALL_SIZE :: u64 where "HEAP_MAX_SMALL_SIZE = 2048"
definition HEAP_CACHE_CLASS_COUNT :: nat where "HEAP_CACHE_CLASS_COUNT = 9"

definition heap_cache_sizes :: "u64 list" where
  "heap_cache_sizes = [8, 16, 32, 64, 128, 256, 512, 1024, 2048]"

record heap_cache =
  object_size :: u16
  partial_pages :: u64

record heap_state = machine +
  heap_caches :: "nat \<Rightarrow> heap_cache"

text \<open>
  The slab header lies at the start of its page; these are the offsets of the members of
  \<open>heap_slab_page_t\<close> (and of \<open>heap_large_header_t\<close>) under the x86-64 ABI.
\<close>

abbreviation (input) SLAB_magic :: u64 where "SLAB_magic \<equiv> 0"
abbreviation (input) SLAB_object_size :: u64 where "SLAB_object_size \<equiv> 4"
abbreviation (input) SLAB_total_objects :: u64 where "SLAB_total_objects \<equiv> 6"
abbreviation (input) SLAB_free_count :: u64 where "SLAB_free_count \<equiv> 8"
abbreviation (input) SLAB_reserved :: u64 where "SLAB_reserved \<equiv> 10"
abbreviation (input) SLAB_free_list :: u64 where "SLAB_free_list \<equiv> 16"
abbreviation (input) SLAB_next :: u64 where "SLAB_next \<equiv> 24"
abbreviation (input) SLAB_bitmap :: u64 where "SLAB_bitmap \<equiv> 32"
abbreviation (input) SLAB_SIZE :: u64 where "SLAB_SIZE \<equiv> 2080"
abbreviation (input) LARGE_magic :: u64 where "LARGE_magic \<equiv> 0"
abbreviation (input) LARGE_page_count :: u64 where "LARGE_page_count \<equiv> 4"
abbreviation (input) LARGE_SIZE :: u64 where "LARGE_SIZE \<equiv> 8"

definition heap_memset :: "u64 \<Rightarrow> u32 \<Rightarrow> u64 \<Rightarrow> 'a machine_scheme \<Rightarrow> 'a machine_scheme option" where
  "heap_memset p c n s = do { m \<leftarrow> memset_loop 0 n p c (mem s); Some (s\<lparr>mem := m\<rparr>) }"

section \<open>Addresses and indices\<close>

definition heap_phy_to_virt :: "u64 \<Rightarrow> 'a machine_scheme \<Rightarrow> u64" where
  "heap_phy_to_virt phys s = (case hhdm s of None \<Rightarrow> NULL | Some off \<Rightarrow> phys + off)"

definition heap_virt_to_phy :: "u64 \<Rightarrow> 'a machine_scheme \<Rightarrow> u64" where
  "heap_virt_to_phy virt s = (case hhdm s of None \<Rightarrow> 0 | Some off \<Rightarrow> virt - off)"

text \<open>\<open>int64_t\<close> indices are integers; \<open>%\<close> and \<open>/\<close> truncate, and the results convert to \<open>uint64_t\<close>.\<close>

definition Get_Bit :: "int \<Rightarrow> u64" where
  "Get_Bit index = word_of_int (index smod 64)"

definition Get_offset :: "int \<Rightarrow> u64 option" where
  "Get_offset index = (if unat (Get_Bit index) < 64 then Some (push_bit (unat (Get_Bit index)) 1) else None)"

definition Get_array :: "int \<Rightarrow> u64" where
  "Get_array index = word_of_int (index sdiv 64)"

text \<open>\<open>page->bitmap[i]\<close>: undefined outside the 256 words of the bitmap.\<close>

definition read_bitmap :: "u64 \<Rightarrow> u64 \<Rightarrow> 'a machine_scheme \<Rightarrow> u64 option" where
  "read_bitmap page i s = (if unat i < 256 then read64 page (SLAB_bitmap + 8 * i) s else None)"

definition write_bitmap :: "u64 \<Rightarrow> u64 \<Rightarrow> u64 \<Rightarrow> 'a machine_scheme \<Rightarrow> 'a machine_scheme option" where
  "write_bitmap page i v s = (if unat i < 256 then write64 page (SLAB_bitmap + 8 * i) v s else None)"

function cache_index_loop :: "nat \<Rightarrow> u64 \<Rightarrow> int" where
  "cache_index_loop index rounded =
     (if index < HEAP_CACHE_CLASS_COUNT
      then if rounded \<le> heap_cache_sizes ! index then int index else cache_index_loop (index + 1) rounded
      else - 1)"
  by pat_completeness auto
termination
  by (relation "measure (\<lambda>(i, _). HEAP_CACHE_CLASS_COUNT - i)") auto

declare cache_index_loop.simps [simp del]

definition heap_cache_index :: "u64 \<Rightarrow> int" where
  "heap_cache_index sz =
     (let rounded = (if sz < HEAP_MIN_OBJECT_SIZE then HEAP_MIN_OBJECT_SIZE else sz)
      in cache_index_loop 0 rounded)"

definition object_index :: "u64 \<Rightarrow> u64 \<Rightarrow> u64 \<Rightarrow> 'a machine_scheme \<Rightarrow> int option" where
  "object_index ptr virt_page page s =
     (let object_buffer = virt_page + SLAB_SIZE in
      if ptr < object_buffer then Some (- 1)
      else let offset = ptr - object_buffer in
      do { osz \<leftarrow> read16 page SLAB_object_size s;
           if osz = 0 then None
           else if offset mod ucast osz = 0 then Some (- 1)
           else let end_index = offset div ucast osz in
           do { total \<leftarrow> read16 page SLAB_total_objects s;
                if end_index \<ge> ucast total then Some (- 1) else Some (sint end_index) } })"

section \<open>Slab lists\<close>

partial_function (option) remove_slab_loop ::
  "nat \<Rightarrow> u64 \<Rightarrow> u64 \<Rightarrow> u64 \<Rightarrow> 'a heap_state_scheme \<Rightarrow> 'a heap_state_scheme option" where
  "remove_slab_loop cache slab_phys prev current s =
     (if current = 0 then Some s
      else let page = heap_phy_to_virt current s in
      if page = NULL then Some s
      else if current = slab_phys
      then if prev = 0
           then do { nxt \<leftarrow> read64 page SLAB_next s;
                     write64 page SLAB_next 0
                       (s\<lparr>heap_caches := (heap_caches s)(cache := (heap_caches s cache)\<lparr>partial_pages := nxt\<rparr>)\<rparr>) }
           else let prev_page = heap_phy_to_virt prev s in
             if prev_page = NULL then Some s
             else do { nxt \<leftarrow> read64 page SLAB_next s;
                       s \<leftarrow> write64 prev_page SLAB_next nxt s;
                       write64 page SLAB_next 0 s }
      else do { nxt \<leftarrow> read64 page SLAB_next s; remove_slab_loop cache slab_phys current nxt s })"

definition heap_remove_slab_from_cache :: "nat \<Rightarrow> u64 \<Rightarrow> 'a heap_state_scheme \<Rightarrow> 'a heap_state_scheme option" where
  "heap_remove_slab_from_cache cache slab_phys s =
     remove_slab_loop cache slab_phys 0 (partial_pages (heap_caches s cache)) s"

definition heap_insert_slab_into_cache :: "nat \<Rightarrow> u64 \<Rightarrow> 'a heap_state_scheme \<Rightarrow> 'a heap_state_scheme option" where
  "heap_insert_slab_into_cache cache slab_phys s =
     (let page = heap_phy_to_virt slab_phys s in
      if page = NULL then Some s
      else do { s \<leftarrow> write64 page SLAB_next (partial_pages (heap_caches s cache)) s;
                Some (s\<lparr>heap_caches := (heap_caches s)(cache := (heap_caches s cache)\<lparr>partial_pages := slab_phys\<rparr>)\<rparr>) })"

section \<open>Slab pages\<close>

text \<open>The loop that chains the objects of a new slab page; \<open>total_objects\<close> is read again in each round.\<close>

partial_function (option) chain_loop :: "u16 \<Rightarrow> u64 \<Rightarrow> u16 \<Rightarrow> u64 \<Rightarrow> 'a machine_scheme \<Rightarrow> 'a machine_scheme option" where
  "chain_loop index page osz object_buffer s =
     do { total \<leftarrow> read16 page SLAB_total_objects s;
          if index < total
          then do { total \<leftarrow> read16 page SLAB_total_objects s;
                    if unat index + 1 < unat total
                    then do { s \<leftarrow> write64 object_buffer 0 (object_buffer + ucast osz) s;
                              chain_loop (index + 1) page osz (object_buffer + ucast osz) s }
                    else do { s \<leftarrow> write64 object_buffer 0 0 s;
                              chain_loop (index + 1) page osz object_buffer s } }
          else Some s }"

definition heap_alloc_slab_page :: "u16 \<Rightarrow> 'a machine_scheme \<Rightarrow> (u64 \<times> 'a machine_scheme) option" where
  "heap_alloc_slab_page osz s =
     do { (phys, s) \<leftarrow> machine_alloc_page s;
          if phys = BUDDY_INVALID_ADDRESS then Some (BUDDY_INVALID_ADDRESS, s)
          else let page = heap_phy_to_virt phys s in
          if page = NULL then do { s \<leftarrow> machine_free_page phys s; Some (BUDDY_INVALID_ADDRESS, s) }
          else do { s \<leftarrow> write32 page SLAB_magic HEAP_MAGIC_SMALL s;
                    s \<leftarrow> write16 page SLAB_object_size osz s;
                    total \<leftarrow> (if osz = 0 then None else Some (ucast ((BUDDY_PAGE_SIZE - SLAB_SIZE) div ucast osz)));
                    s \<leftarrow> write16 page SLAB_total_objects total s;
                    total \<leftarrow> read16 page SLAB_total_objects s;
                    s \<leftarrow> write16 page SLAB_free_count total s;
                    s \<leftarrow> write16 page SLAB_reserved 0 s;
                    s \<leftarrow> write64 page SLAB_next 0 s;
                    s \<leftarrow> heap_memset (page + SLAB_bitmap) 0 2048 s;
                    s \<leftarrow> write64 page SLAB_free_list (page + SLAB_SIZE) s;
                    s \<leftarrow> chain_loop 0 page osz (page + SLAB_SIZE) s;
                    Some (phys, s) } }"

definition heap_alloc_from_cache :: "nat \<Rightarrow> 'a heap_state_scheme \<Rightarrow> (u64 \<times> 'a heap_state_scheme) option" where
  "heap_alloc_from_cache cache s =
     do { (ok, s) \<leftarrow>
            (if partial_pages (heap_caches s cache) = 0
             then do { (slab, s) \<leftarrow> heap_alloc_slab_page (object_size (heap_caches s cache)) s;
                       if slab = BUDDY_INVALID_ADDRESS then Some (False, s)
                       else Some (True, s\<lparr>heap_caches := (heap_caches s)(cache := (heap_caches s cache)\<lparr>partial_pages := slab\<rparr>)\<rparr>) }
             else Some (True, s));
          if \<not> ok then Some (NULL, s)
          else let slab_phys = partial_pages (heap_caches s cache); page = heap_phy_to_virt slab_phys s in
          if page = NULL then Some (NULL, s)
          else do { object \<leftarrow> read64 page SLAB_free_list s;
          if object = 0 then Some (NULL, s)
          else do { obj_index \<leftarrow> object_index object page page s;
          if obj_index = - 1 then Some (NULL, s)
          else do { obj_masked \<leftarrow> Get_offset obj_index;
                    word \<leftarrow> read_bitmap page (Get_array obj_index) s;
                    s \<leftarrow> write_bitmap page (Get_array obj_index) (word OR obj_masked) s;
                    nxt \<leftarrow> read64 object 0 s;
                    s \<leftarrow> write64 page SLAB_free_list nxt s;
                    count \<leftarrow> read16 page SLAB_free_count s;
                    s \<leftarrow> write16 page SLAB_free_count (count - 1) s;
                    count \<leftarrow> read16 page SLAB_free_count s;
                    s \<leftarrow> (if count = 0 then heap_remove_slab_from_cache cache slab_phys s else Some s);
                    Some (object, s) } } } }"

section \<open>Release\<close>

definition heap_free_large :: "u64 \<Rightarrow> u64 \<Rightarrow> 'a machine_scheme \<Rightarrow> 'a machine_scheme option" where
  "heap_free_large header page_phys s =
     do { magic \<leftarrow> read32 header LARGE_magic s;
          if magic \<noteq> HEAP_MAGIC_LARGE then Some s
          else do { count \<leftarrow> read32 header LARGE_page_count s; machine_free_pages page_phys (ucast count) s } }"

definition heap_free_small :: "u64 \<Rightarrow> u64 \<Rightarrow> u64 \<Rightarrow> 'a heap_state_scheme \<Rightarrow> 'a heap_state_scheme option" where
  "heap_free_small ptr page page_phys s =
     do { magic \<leftarrow> read32 page SLAB_magic s;
          if magic \<noteq> HEAP_MAGIC_SMALL then Some s
          else let page_virt = heap_phy_to_virt page_phys s in
          do { obj_index \<leftarrow> object_index ptr page_virt page s;
          if obj_index = - 1 then Some s
          else do { obj_masked \<leftarrow> Get_offset obj_index;
                    osz \<leftarrow> read16 page SLAB_object_size s;
                    let index = heap_cache_index (ucast osz);
                    word \<leftarrow> read_bitmap page (Get_array obj_index) s;
                    if word AND obj_masked = 0 then Some s
                    else if index < 0 then Some s
                    else do { fl \<leftarrow> read64 page SLAB_free_list s;
                              s \<leftarrow> write64 ptr 0 fl s;
                              s \<leftarrow> write64 page SLAB_free_list ptr s;
                              count \<leftarrow> read16 page SLAB_free_count s;
                              s \<leftarrow> write16 page SLAB_free_count (count + 1) s;
                              word \<leftarrow> read_bitmap page (Get_array obj_index) s;
                              s \<leftarrow> write_bitmap page (Get_array obj_index) (word AND NOT obj_masked) s;
                              count \<leftarrow> read16 page SLAB_free_count s;
                              total \<leftarrow> read16 page SLAB_total_objects s;
                              if count = total
                              then do { s \<leftarrow> heap_remove_slab_from_cache (nat index) page_phys s;
                                        machine_free_page page_phys s }
                              else if count = 1 then heap_insert_slab_into_cache (nat index) page_phys s
                              else Some s } } } }"

section \<open>The public functions\<close>

function init_caches_loop :: "nat \<Rightarrow> 'a heap_state_scheme \<Rightarrow> 'a heap_state_scheme" where
  "init_caches_loop index s =
     (if index < HEAP_CACHE_CLASS_COUNT
      then init_caches_loop (index + 1)
             (s\<lparr>heap_caches := (heap_caches s)(index := \<lparr>object_size = ucast (heap_cache_sizes ! index), partial_pages = 0\<rparr>)\<rparr>)
      else s)"
  by pat_completeness auto
termination
  by (relation "measure (\<lambda>(i, _). HEAP_CACHE_CLASS_COUNT - i)") auto

declare init_caches_loop.simps [simp del]

definition heap_init :: "'a heap_state_scheme \<Rightarrow> 'a heap_state_scheme" where
  "heap_init s = init_caches_loop 0 s"

definition kmalloc :: "u64 \<Rightarrow> 'a heap_state_scheme \<Rightarrow> (u64 \<times> 'a heap_state_scheme) option" where
  "kmalloc sz s =
     (if sz = 0 then Some (NULL, s)
      else let cache_index = heap_cache_index sz in
      if cache_index \<ge> 0 then heap_alloc_from_cache (nat cache_index) s
      else let total_size = sz + LARGE_SIZE;
               pages = (total_size + BUDDY_PAGE_SIZE - 1) div BUDDY_PAGE_SIZE in
      do { (phys, s) \<leftarrow> machine_alloc_pages pages s;
           if phys = BUDDY_INVALID_ADDRESS then Some (NULL, s)
           else let virt = heap_phy_to_virt phys s in
           if virt = NULL then do { s \<leftarrow> machine_free_pages phys pages s; Some (NULL, s) }
           else do { s \<leftarrow> write32 virt LARGE_magic HEAP_MAGIC_LARGE s;
                     s \<leftarrow> write32 virt LARGE_page_count (ucast pages) s;
                     Some (virt + LARGE_SIZE, s) } })"

definition kfree :: "u64 \<Rightarrow> 'a heap_state_scheme \<Rightarrow> 'a heap_state_scheme option" where
  "kfree ptr s =
     (case hhdm s of None \<Rightarrow> Some s
      | Some off \<Rightarrow>
         if ptr = NULL then Some s
         else let page_virt = ptr AND NOT (BUDDY_PAGE_SIZE - 1);
                  page_phys = page_virt - off;
                  page_start = heap_phy_to_virt page_phys s in
         if page_start = NULL then Some s
         else do { magic \<leftarrow> read32 page_start SLAB_magic s;
                   if magic = HEAP_MAGIC_SMALL then heap_free_small ptr page_start page_phys s
                   else do { magic \<leftarrow> read32 page_start LARGE_magic s;
                             if magic = HEAP_MAGIC_LARGE then heap_free_large page_start page_phys s
                             else Some s } })"

end
