(* ===== verification/Heap_Slab.thy ===== *)
theory Heap_Slab
  imports Heap_Model Page_Tables
begin

text \<open>
  Slab pages in memory: the members of a header do not overlap, \<open>chain_loop\<close> links all objects of a
  page, and \<open>heap_alloc_slab_page\<close> turns a free frame into a page described by \<open>fresh_slab\<close>, writing
  nowhere else.
\<close>

section \<open>Offsets inside a page\<close>

definition page_fits :: "u64 \<Rightarrow> bool" where
  "page_fits page \<longleftrightarrow> page \<noteq> NULL \<and> unat page + 4096 \<le> 2 ^ 64"

lemma page_offset:
  assumes "page_fits page" "k < 4096"
  shows "page + of_nat k \<noteq> NULL" "unat (page + of_nat k) = unat page + k"
proof -
  have k: "unat (of_nat k :: u64) = k" using assms(2) by (simp add: unat_of_nat64)
  show u: "unat (page + of_nat k) = unat page + k"
    using unat_add_less [of page "of_nat k"] assms k by (simp add: page_fits_def)
  have "unat page \<noteq> 0" using assms(1) by (simp add: page_fits_def unat_eq_zero)
  then show "page + of_nat k \<noteq> NULL" using u by (metis add_is_0 unat_0)
qed

lemma offsets_apart:
  assumes "a + n \<le> b" "b + m \<le> 2 ^ 64" "0 < m"
  shows "region (page + of_nat a) n \<inter> region (page + of_nat b) m = {}"
proof -
  have "unat (of_nat a :: u64) = a" "unat (of_nat b :: u64) = b" using assms by (simp_all add: unat_of_nat64)
  then show ?thesis using assms by (intro region_disjoint_offsets) simp_all
qed

lemma offset_inside:
  assumes "a + n \<le> b" "b \<le> 2 ^ 64" "0 < n"
  shows "region (page + of_nat a) n \<subseteq> region page b"
proof -
  have "unat (of_nat a :: u64) = a" using assms by (simp add: unat_of_nat64)
  then show ?thesis using assms by (intro region_offset) simp_all
qed

section \<open>Fields of a structure\<close>

text \<open>Two members of a structure, \<open>n\<close> bytes at offset \<open>a\<close> and \<open>k\<close> bytes at offset \<open>b\<close>, do not overlap.\<close>

definition apart :: "u64 \<Rightarrow> nat \<Rightarrow> u64 \<Rightarrow> nat \<Rightarrow> bool" where
  "apart a n b k \<longleftrightarrow> unat a + n \<le> unat b \<and> unat b + k \<le> 2 ^ 64 \<or> unat b + k \<le> unat a \<and> unat a + n \<le> 2 ^ 64"

lemma apart_regions: "apart a n b k \<Longrightarrow> region (p + a) n \<inter> region (p + b) k = {}"
  unfolding apart_def using region_disjoint_offsets by (metis Int_commute)

named_theorems fields \<open>loads of one member after stores to another\<close>

lemma load16_fields [fields]:
  "apart a 2 b 2 \<Longrightarrow> load16 (p + a) (store16 v (p + b) m) = load16 (p + a) m"
  "apart a 2 b 4 \<Longrightarrow> load16 (p + a) (store32 w (p + b) m) = load16 (p + a) m"
  "apart a 2 b 8 \<Longrightarrow> load16 (p + a) (store64 x (p + b) m) = load16 (p + a) m"
  by (rule m16.load_unchanged [OF _ apart_regions]; simp add: m16.store_outside m32.store_outside m64.store_outside)+

lemma load32_fields [fields]:
  "apart a 4 b 2 \<Longrightarrow> load32 (p + a) (store16 v (p + b) m) = load32 (p + a) m"
  "apart a 4 b 4 \<Longrightarrow> load32 (p + a) (store32 w (p + b) m) = load32 (p + a) m"
  "apart a 4 b 8 \<Longrightarrow> load32 (p + a) (store64 x (p + b) m) = load32 (p + a) m"
  by (rule m32.load_unchanged [OF _ apart_regions]; simp add: m16.store_outside m32.store_outside m64.store_outside)+

lemma load64_fields [fields]:
  "apart a 8 b 2 \<Longrightarrow> load64 (p + a) (store16 v (p + b) m) = load64 (p + a) m"
  "apart a 8 b 4 \<Longrightarrow> load64 (p + a) (store32 w (p + b) m) = load64 (p + a) m"
  "apart a 8 b 8 \<Longrightarrow> load64 (p + a) (store64 x (p + b) m) = load64 (p + a) m"
  by (rule m64.load_unchanged [OF _ apart_regions]; simp add: m16.store_outside m32.store_outside m64.store_outside)+

lemmas first_fields [fields] =
  load16_fields [where b = 0, simplified] load32_fields [where b = 0, simplified] load64_fields [where b = 0, simplified]
  load16_fields [where a = 0, simplified] load32_fields [where a = 0, simplified] load64_fields [where a = 0, simplified]

section \<open>The chain of free objects\<close>

text \<open>Object \<open>i\<close> of a slab page with objects of \<open>k\<close> bytes.\<close>

definition obj :: "u64 \<Rightarrow> nat \<Rightarrow> nat \<Rightarrow> u64" where
  "obj page k i = page + of_nat (2080 + i * k)"

lemma obj_Suc: "obj page (unat osz) i + ucast osz = obj page (unat (osz :: u16)) (Suc i)"
proof -
  have "(of_nat (unat osz) :: u64) = ucast osz" by simp
  then show ?thesis by (simp add: obj_def algebra_simps)
qed

lemma chain_loop_correct:
  assumes pf: "page_fits page" and fit: "2080 + unat tot * unat osz \<le> 4096" and k: "8 \<le> unat osz"
    and rdt: "load16 (page + SLAB_total_objects) (mem s) = tot" and i: "unat index \<le> unat tot"
    and ob: "index < tot \<Longrightarrow> ob = obj page (unat osz) (unat index)"
  shows "\<exists>m'. chain_loop index page osz ob s = Some (s\<lparr>mem := m'\<rparr>) \<and>
    (\<forall>x. x \<notin> region (obj page (unat osz) (unat index)) ((unat tot - unat index) * unat osz) \<longrightarrow> m' x = mem s x) \<and>
    (\<forall>j. unat index \<le> j \<and> j < unat tot \<longrightarrow> load64 (obj page (unat osz) j) m' =
       (if Suc j < unat tot then obj page (unat osz) (Suc j) else 0))"
  using rdt i ob
proof (induction "unat tot - unat index" arbitrary: index ob s)
  case 0
  then have "\<not> index < tot" by (simp add: word_less_nat_alt)
  then show ?case
    using 0 pf by (intro exI [of _ "mem s"], subst chain_loop.simps) (auto simp: read16_def page_fits_def)
next
  case (Suc n)
  let ?k = "unat osz" and ?i = "unat index"
  have lt: "?i < unat tot" "index < tot" using Suc(2) by (auto simp: word_less_nat_alt)
  have i1: "unat (index + 1) = Suc ?i" using unat_Suc_less [OF lt(2)] .
  have b: "2080 + ?i * ?k + ?k \<le> 2080 + unat tot * ?k"
    using lt(1) mult_le_mono1 [of "Suc ?i" "unat tot" ?k] by simp
  then have b8: "2080 + ?i * ?k + 8 \<le> 4096" using fit k by linarith
  have ob: "ob = obj page ?k ?i" using Suc(5) lt(2) by simp
  let ?v = "if Suc ?i < unat tot then obj page ?k (Suc ?i) else 0"
  let ?m = "store64 ?v (obj page ?k ?i) (mem s)"
  let ?ob = "if Suc ?i < unat tot then obj page ?k (Suc ?i) else ob"
  have w: "write64 ob 0 ?v s = Some (s\<lparr>mem := ?m\<rparr>)"
    using page_offset(1) [OF pf, of "2080 + ?i * ?k"] b8 unfolding ob by (simp add: write64_def obj_def)
  have rd: "read16 page SLAB_total_objects s = Some tot" using Suc(3) pf by (simp add: read16_def page_fits_def)
  have ev: "chain_loop index page osz ob s = chain_loop (index + 1) page osz ?ob (s\<lparr>mem := ?m\<rparr>)"
    using lt rd w obj_Suc [where page = page and osz = osz and i = ?i]
    by (cases "Suc ?i < unat tot"; subst chain_loop.simps) (simp_all add: ob)
  have "region (page + of_nat 6) 2 \<inter> region (obj page ?k ?i) 8 = {}" using b8 unfolding obj_def by (intro offsets_apart) simp_all
  then have t6: "load16 (page + SLAB_total_objects) ?m = tot"
    using Suc(3) m16.load_unchanged [of "region (obj page ?k ?i) 8" ?m "mem s"] m64.store_outside by simp
  have "n = unat tot - unat (index + 1)" "unat (index + 1) \<le> unat tot" using Suc(2) i1 lt by auto
  moreover have "index + 1 < tot \<Longrightarrow> ?ob = obj page ?k (unat (index + 1))" using i1 by (simp add: word_less_nat_alt)
  ultimately obtain m' where m': "chain_loop (index + 1) page osz ?ob (s\<lparr>mem := ?m\<rparr>) = Some (s\<lparr>mem := ?m, mem := m'\<rparr>)"
    "\<forall>x. x \<notin> region (obj page ?k (Suc ?i)) ((unat tot - Suc ?i) * ?k) \<longrightarrow> m' x = ?m x"
    "\<forall>j. Suc ?i \<le> j \<and> j < unat tot \<longrightarrow> load64 (obj page ?k j) m' = (if Suc j < unat tot then obj page ?k (Suc j) else 0)"
    using Suc(1) [of "index + 1" "s\<lparr>mem := ?m\<rparr>" ?ob] t6 unfolding i1 by auto
  have len: "(unat tot - ?i) * ?k = ?k + (unat tot - Suc ?i) * ?k"
    using lt(1) by (metis Suc_diff_Suc mult_Suc)
  have all: "2080 + ?i * ?k + (unat tot - ?i) * ?k \<le> 4096"
    using fit lt(1) by (simp add: diff_mult_distrib)
  have sub: "region (obj page ?k (Suc ?i)) ((unat tot - Suc ?i) * ?k) \<subseteq> region (obj page ?k ?i) ((unat tot - ?i) * ?k)"
  proof -
    have "obj page ?k (Suc ?i) = obj page ?k ?i + of_nat ?k" by (simp add: obj_def algebra_simps)
    moreover have "region (obj page ?k ?i + of_nat ?k) ((unat tot - Suc ?i) * ?k) \<subseteq> region (obj page ?k ?i) ((unat tot - ?i) * ?k)"
      using all len by (intro region_offset) (simp_all add: unat_of_nat64)
    ultimately show ?thesis by simp
  qed
  have frame: "m' x = mem s x" if "x \<notin> region (obj page ?k ?i) ((unat tot - ?i) * ?k)" for x
  proof -
    have "x \<notin> region (obj page ?k ?i) 8"
      using that region_mono [of 8 "(unat tot - ?i) * ?k" "obj page ?k ?i"] k unfolding len by auto
    then show ?thesis using that sub m'(2) m64.store_outside by auto
  qed
  have here: "load64 (obj page ?k ?i) m' = ?v"
  proof -
    have "region (obj page ?k ?i) 8 \<inter> region (obj page ?k (Suc ?i)) ((unat tot - Suc ?i) * ?k) = {}"
    proof (cases "(unat tot - Suc ?i) * ?k = 0")
      case False
      then show ?thesis using all k unfolding len obj_def by (intro offsets_apart) (simp_all add: algebra_simps)
    next
      case True
      then show ?thesis by (simp only: region_empty Int_empty_right)
    qed
    then have "load64 (obj page ?k ?i) m' = load64 (obj page ?k ?i) ?m"
      using m'(2) by (intro m64.load_unchanged [of "region (obj page ?k (Suc ?i)) ((unat tot - Suc ?i) * ?k)"]) auto
    then show ?thesis by (simp only: m64.load_store)
  qed
  have "load64 (obj page ?k j) m' = (if Suc j < unat tot then obj page ?k (Suc j) else 0)" if "?i \<le> j" "j < unat tot" for j
    using here m'(3) that by (cases "j = ?i") auto
  then show ?case using m'(1) frame unfolding ev by (intro exI [of _ m']) simp
qed


section \<open>A new slab page\<close>

lemma alloc_page_cases:
  assumes "buddy_wf (buddy s)"
  obtains (none) "machine_alloc_page s = Some (BUDDY_INVALID_ADDRESS, s)"
    | (new) p b where "machine_alloc_page s = Some (p, s\<lparr>buddy := b\<rparr>)" "p \<noteq> BUDDY_INVALID_ADDRESS"
      "aligned p" "unat p + 4096 \<le> 2 ^ 30" "unat p div 4096 \<in> free_set (buddy s)" "buddy_wf b"
      "free_set b = free_set (buddy s) - {unat p div 4096}"
      "allocated_set b = insert (unat p div 4096) (allocated_set (buddy s))"
proof -
  obtain p b where a: "buddy_alloc_pages 1 (buddy s) = Some (p, b)" "buddy_wf b" "p = BUDDY_INVALID_ADDRESS \<longrightarrow> b = buddy s"
    using buddy.single.alloc1_returns [OF assms(1)] by blast
  show thesis
  proof (cases "p = BUDDY_INVALID_ADDRESS")
    case True
    then show thesis using a none by (simp add: machine_alloc_page_def buddy_alloc_page_def)
  next
    case False
    note f = buddy.single.alloc1_fresh [OF assms(1) a(1) False] and n = buddy.single.alloc1_new [OF assms(1) a(1) False]
    have "unat p + 4096 = (unat p div 4096 + 1) * 4096" using n(3) by (auto simp: mod_eq_0_iff_dvd)
    also have "\<dots> \<le> NPAGES * 4096" using n(2) by (intro mult_le_mono1) simp
    finally have "unat p + 4096 \<le> 2 ^ 30" by simp
    then show thesis
      using new [of p b] False a(1,2) f n(3)
      by (simp add: dvd_eq_mod_eq_0 machine_alloc_page_def buddy_alloc_page_def)
  qed
qed

lemma direct_map_page:
  assumes "hhdm_ok h" "unat p + 4096 \<le> 2 ^ 30"
  shows "page_fits (p + h)"
proof -
  have "unat (p + h) = unat p + unat h" using assms by (intro unat_add_less) (simp add: hhdm_ok_def)
  then show ?thesis using assms direct_map_not_null [of h p] by (simp add: page_fits_def hhdm_ok_def)
qed

text \<open>
  A slab page as \<open>heap_alloc_slab_page\<close> leaves it: the header, an empty bitmap and the chain of all
  objects in order of address.
\<close>

definition fresh_slab :: "u64 \<Rightarrow> u16 \<Rightarrow> memory \<Rightarrow> bool" where
  "fresh_slab page osz m \<longleftrightarrow>
     load32 page m = HEAP_MAGIC_SMALL \<and> load16 (page + SLAB_object_size) m = osz \<and>
     unat (load16 (page + SLAB_total_objects) m) = 2016 div unat osz \<and>
     load16 (page + SLAB_free_count) m = load16 (page + SLAB_total_objects) m \<and>
     load64 (page + SLAB_next) m = 0 \<and> load64 (page + SLAB_free_list) m = obj page (unat osz) 0 \<and>
     (\<forall>x\<in>region (page + SLAB_bitmap) 2048. m x = 0) \<and>
     (\<forall>i < 2016 div unat osz. load64 (obj page (unat osz) i) m =
        (if Suc i < 2016 div unat osz then obj page (unat osz) (Suc i) else 0))"

definition fill_region :: "u64 set \<Rightarrow> u8 \<Rightarrow> memory \<Rightarrow> memory" where
  "fill_region B v m = (\<lambda>x. if x \<in> B then v else m x)"

definition slab_header :: "u64 \<Rightarrow> u16 \<Rightarrow> memory \<Rightarrow> memory" where
  "slab_header page osz m =
     (let t = ucast ((BUDDY_PAGE_SIZE - SLAB_SIZE) div ucast osz);
          m1 = store64 0 (page + SLAB_next) (store16 0 (page + SLAB_reserved) (store16 t (page + SLAB_free_count)
                 (store16 t (page + SLAB_total_objects) (store16 osz (page + SLAB_object_size) (store32 HEAP_MAGIC_SMALL page m)))))
      in store64 (page + SLAB_SIZE) (page + SLAB_free_list) (fill_region (region (page + SLAB_bitmap) 2048) 0 m1))"

lemma load_fill:
  "region a 2 \<inter> B = {} \<Longrightarrow> load16 a (fill_region B v m) = load16 a m"
  "region a 4 \<inter> B = {} \<Longrightarrow> load32 a (fill_region B v m) = load32 a m"
  "region a 8 \<inter> B = {} \<Longrightarrow> load64 a (fill_region B v m) = load64 a m"
  by (rule m16.load_unchanged m32.load_unchanged m64.load_unchanged; simp add: fill_region_def)+

lemma unat_objects: "unat (ucast ((BUDDY_PAGE_SIZE - SLAB_SIZE) div ucast (osz :: u16)) :: u16) = 2016 div unat osz"
proof -
  have "unat ((BUDDY_PAGE_SIZE - SLAB_SIZE) div ucast osz) = 2016 div unat osz"
    by (simp add: unat_div BUDDY_PAGE_SIZE_def)
  moreover have "2016 div unat osz < 2 ^ 16" by (rule le_less_trans [OF div_le_dividend]) simp
  ultimately show ?thesis by (simp add: unsigned_ucast_eq take_bit_nat_eq_self)
qed

lemma slab_header_fields:
  shows "load32 page (slab_header page osz m) = HEAP_MAGIC_SMALL"
    "load16 (page + SLAB_object_size) (slab_header page osz m) = osz"
    "unat (load16 (page + SLAB_total_objects) (slab_header page osz m)) = 2016 div unat osz"
    "load16 (page + SLAB_free_count) (slab_header page osz m) = load16 (page + SLAB_total_objects) (slab_header page osz m)"
    "load64 (page + SLAB_next) (slab_header page osz m) = 0"
    "load64 (page + SLAB_free_list) (slab_header page osz m) = page + SLAB_SIZE"
    "x \<in> region (page + SLAB_bitmap) 2048 \<Longrightarrow> slab_header page osz m x = 0"
    "x \<notin> region page 2080 \<Longrightarrow> slab_header page osz m x = m x"
proof -
  have B: "region page 4 \<inter> region (page + SLAB_bitmap) 2048 = {}" "region (page + SLAB_object_size) 2 \<inter> region (page + SLAB_bitmap) 2048 = {}"
    "region (page + SLAB_total_objects) 2 \<inter> region (page + SLAB_bitmap) 2048 = {}" "region (page + SLAB_free_count) 2 \<inter> region (page + SLAB_bitmap) 2048 = {}"
    "region (page + SLAB_next) 8 \<inter> region (page + SLAB_bitmap) 2048 = {}" "region (page + SLAB_free_list) 8 \<inter> region (page + SLAB_bitmap) 2048 = {}"
    using apart_regions [of 0 4 SLAB_bitmap 2048 page] by (auto intro!: apart_regions simp: apart_def)
  note D = slab_header_def Let_def m16.load_store m32.load_store m64.load_store fields apart_def load_fill(2) [OF B(1)]
    load_fill(1) [OF B(2)] load_fill(1) [OF B(3)] load_fill(1) [OF B(4)] load_fill(3) [OF B(5)]
  show "load32 page (slab_header page osz m) = HEAP_MAGIC_SMALL"
    "load16 (page + SLAB_object_size) (slab_header page osz m) = osz"
    "unat (load16 (page + SLAB_total_objects) (slab_header page osz m)) = 2016 div unat osz"
    "load16 (page + SLAB_free_count) (slab_header page osz m) = load16 (page + SLAB_total_objects) (slab_header page osz m)"
    "load64 (page + SLAB_next) (slab_header page osz m) = 0"
    "load64 (page + SLAB_free_list) (slab_header page osz m) = page + SLAB_SIZE"
    using unat_objects [of osz] by (simp_all add: D)
  show "slab_header page osz m x = 0" if "x \<in> region (page + SLAB_bitmap) 2048"
  proof -
    have "x \<notin> region (page + SLAB_free_list) 8" using that B(6) by blast
    then show ?thesis using that by (simp add: slab_header_def Let_def m64.store_outside fill_region_def)
  qed
  have R: "region page 4 \<subseteq> region page 2080" "region (page + SLAB_object_size) 2 \<subseteq> region page 2080"
    "region (page + SLAB_total_objects) 2 \<subseteq> region page 2080" "region (page + SLAB_free_count) 2 \<subseteq> region page 2080"
    "region (page + SLAB_reserved) 2 \<subseteq> region page 2080" "region (page + SLAB_next) 8 \<subseteq> region page 2080"
    "region (page + SLAB_bitmap) 2048 \<subseteq> region page 2080" "region (page + SLAB_free_list) 8 \<subseteq> region page 2080"
    by (rule region_mono, simp) (rule region_offset; simp)+
  show "slab_header page osz m x = m x" if x: "x \<notin> region page 2080"
  proof -
    have "x \<notin> region page 4" "x \<notin> region (page + SLAB_object_size) 2" "x \<notin> region (page + SLAB_total_objects) 2"
      "x \<notin> region (page + SLAB_free_count) 2" "x \<notin> region (page + SLAB_reserved) 2" "x \<notin> region (page + SLAB_next) 8"
      "x \<notin> region (page + SLAB_bitmap) 2048" "x \<notin> region (page + SLAB_free_list) 8"
      using x R by blast+
    then show ?thesis by (simp add: slab_header_def Let_def m16.store_outside m32.store_outside m64.store_outside fill_region_def)
  qed
qed


lemma alloc_slab_page_cases:
  assumes wf: "buddy_wf (buddy s)" and h: "hhdm s = Some h" "hhdm_ok h" and k: "8 \<le> unat osz"
  obtains (none) "heap_alloc_slab_page osz s = Some (BUDDY_INVALID_ADDRESS, s)" "machine_alloc_page s = Some (BUDDY_INVALID_ADDRESS, s)"
    | (new) p b m where "heap_alloc_slab_page osz s = Some (p, s\<lparr>buddy := b, mem := m\<rparr>)" "p \<noteq> BUDDY_INVALID_ADDRESS"
      "aligned p" "unat p + 4096 \<le> 2 ^ 30" "unat p div 4096 \<in> free_set (buddy s)" "buddy_wf b"
      "free_set b = free_set (buddy s) - {unat p div 4096}"
      "allocated_set b = insert (unat p div 4096) (allocated_set (buddy s))"
      "fresh_slab (p + h) osz m" "\<forall>x. x \<notin> region (p + h) 4096 \<longrightarrow> m x = mem s x"
  using wf
proof (cases rule: alloc_page_cases [case_names none new])
  case none
  then show thesis using that(1) by (simp add: heap_alloc_slab_page_def)
next
  case (new p b)
  let ?page = "p + h" and ?n = "2016 div unat osz" and ?M = "slab_header (p + h) osz (mem s)"
  have pf: "page_fits ?page" by (rule direct_map_page [OF h(2) new(4)])
  then have pn: "?page \<noteq> NULL" by (simp add: page_fits_def)
  have v: "heap_phy_to_virt p (s\<lparr>buddy := b\<rparr>) = ?page" using h(1) by (simp add: heap_phy_to_virt_def)
  have bn: "?page + SLAB_bitmap \<noteq> NULL" using page_offset(1) [OF pf, of 32] by simp
  have uc: "(ucast (0 :: u32) :: u8) = 0" by simp
  have ms: "heap_memset (?page + SLAB_bitmap) 0 2048 s' = Some (s'\<lparr>mem := fill_region (region (?page + SLAB_bitmap) 2048) 0 (mem s')\<rparr>)"
    for s' :: "'a machine_scheme"
    using memset_loop_correct [OF bn, of 0 2048 0 "mem s'"] unfolding uc by (simp add: heap_memset_def region_def fill_region_def)
  have k0: "osz \<noteq> 0" using k by auto
  have ev: "heap_alloc_slab_page osz s = do { s \<leftarrow> chain_loop 0 ?page osz (?page + SLAB_SIZE) (s\<lparr>buddy := b, mem := ?M\<rparr>); Some (p, s) }"
    using new(1,2) pn k0 v
    by (simp add: heap_alloc_slab_page_def pointer_access ms slab_header_def Let_def m16.load_store)
  let ?t = "load16 (?page + SLAB_total_objects) ?M"
  note F = slab_header_fields [where page = ?page and osz = osz and m = "mem s"]
  have t: "unat ?t = ?n" by (rule F(3))
  have fit: "2080 + unat ?t * unat osz \<le> 4096" unfolding t using div_times_less_eq_dividend [of 2016 "unat osz"] by simp
  obtain m where m: "chain_loop 0 ?page osz (?page + SLAB_SIZE) (s\<lparr>buddy := b, mem := ?M\<rparr>) = Some (s\<lparr>buddy := b, mem := m\<rparr>)"
    "\<forall>x. x \<notin> region (obj ?page (unat osz) 0) (unat ?t * unat osz) \<longrightarrow> m x = ?M x"
    "\<forall>j. j < unat ?t \<longrightarrow> load64 (obj ?page (unat osz) j) m = (if Suc j < unat ?t then obj ?page (unat osz) (Suc j) else 0)"
    using chain_loop_correct [OF pf fit k, where s = "s\<lparr>buddy := b, mem := ?M\<rparr>" and index = 0 and ob = "?page + SLAB_SIZE"]
    by (auto simp: obj_def)
  have low: "m x = ?M x" if "x \<in> region ?page 2080" for x
  proof (cases "unat ?t * unat osz = 0")
    case True
    then show ?thesis using m(2) by (simp only: region_empty) simp
  next
    case False
    then have "region (?page + of_nat 0) 2080 \<inter> region (?page + of_nat (2080 + 0 * unat osz)) (unat ?t * unat osz) = {}"
      using fit by (intro offsets_apart) simp_all
    then have "x \<notin> region (obj ?page (unat osz) 0) (unat ?t * unat osz)" using that by (auto simp: obj_def)
    then show ?thesis using m(2) by blast
  qed
  have in_hdr: "region (?page + a) l \<subseteq> region ?page 2080" if "unat a + l \<le> 2080" for a l
    using that by (intro region_offset) simp_all
  have same: "load16 (?page + a) m = load16 (?page + a) ?M" if "unat a + 2 \<le> 2080" for a
    using low in_hdr [OF that] by (intro m16.load_region) blast
  have same64: "load64 (?page + a) m = load64 (?page + a) ?M" if "unat a + 8 \<le> 2080" for a
    using low in_hdr [OF that] by (intro m64.load_region) blast
  have same32: "load32 ?page m = load32 ?page ?M"
    using low in_hdr [of 0 4] by (intro m32.load_region) auto
  have bm: "m x = 0" if "x \<in> region (?page + SLAB_bitmap) 2048" for x
    using low in_hdr [of SLAB_bitmap 2048] F(7) [OF that] that by auto
  have "fresh_slab ?page osz m"
    unfolding fresh_slab_def using F(1-6) same same64 same32 bm m(3) by (simp add: obj_def)
  moreover have "m x = mem s x" if "x \<notin> region ?page 4096" for x
  proof -
    have "region (obj ?page (unat osz) 0) (unat ?t * unat osz) \<subseteq> region ?page 4096"
      unfolding obj_def using fit by (intro region_offset) simp_all
    then have "m x = ?M x" using m(2) that by blast
    also have "\<dots> = mem s x" using F(8) that region_mono [of 2080 4096 ?page] by auto
    finally show ?thesis .
  qed
  ultimately show thesis using that(2) [of p m b] ev m(1) new by simp
qed

end
