(* ===== verification/Heap.thy ===== *)
theory Heap
  imports Heap_Slab Address_Space
begin

text \<open>
  The behaviour of the heap: size classes, what happens to small requests (the first object of a
  slab page is always refused, because \<open>object_index\<close> rejects the addresses at which objects start),
  and large requests, which the page allocator serves and takes back.
\<close>

section \<open>Size classes\<close>

lemma nine: "c < 9 \<Longrightarrow> c \<in> {0, 1, 2, 3, 4, 5, 6, 7, 8 :: nat}"
  by auto

lemma cache_size:
  assumes "c < 9"
  shows "unat (heap_cache_sizes ! c) = 2 ^ (c + 3)" "unat (ucast (heap_cache_sizes ! c) :: u16) = 2 ^ (c + 3)"
  using nine [OF assms] by (auto simp: heap_cache_sizes_def)

lemma cache_index_loop_cases:
  "cache_index_loop i r = - 1 \<and> (\<forall>c. i \<le> c \<and> c < 9 \<longrightarrow> 2 ^ (c + 3) < unat r) \<or>
   (\<exists>c. i \<le> c \<and> c < 9 \<and> cache_index_loop i r = int c \<and> unat r \<le> 2 ^ (c + 3) \<and> (\<forall>d. i \<le> d \<and> d < c \<longrightarrow> 2 ^ (d + 3) < unat r))"
proof (induction i r rule: cache_index_loop.induct)
  case (1 i r)
  show ?case
  proof (cases "i < 9 \<and> \<not> r \<le> heap_cache_sizes ! i")
    case True
    have lt: "i < HEAP_CACHE_CLASS_COUNT" "i < 9" using True by (simp_all add: HEAP_CACHE_CLASS_COUNT_def)
    have ev: "cache_index_loop i r = cache_index_loop (i + 1) r"
      using True lt by (subst cache_index_loop.simps) simp
    have here: "2 ^ (i + 3) < unat r" using True cache_size(1) [OF lt(2)] by (simp add: word_le_nat_alt not_le)
    have le: "(i \<le> d) = (d = i \<or> i + 1 \<le> d)" for d by auto
    show ?thesis using "1.IH" [OF lt(1)] True here unfolding ev le by (metis (no_types, opaque_lifting))
  next
    case False
    then show ?thesis using cache_size(1) [of i]
      by (subst (1 2) cache_index_loop.simps) (auto simp: HEAP_CACHE_CLASS_COUNT_def word_le_nat_alt)
  qed
qed

lemma cache_index_cases:
  obtains (large) "heap_cache_index sz = - 1" "2048 < unat sz"
    | (small) c where "c < 9" "heap_cache_index sz = int c" "unat sz \<le> 2 ^ (c + 3)" "\<And>d. d < c \<Longrightarrow> 2 ^ (d + 3) < unat sz"
proof -
  let ?r = "if sz < HEAP_MIN_OBJECT_SIZE then HEAP_MIN_OBJECT_SIZE else sz"
  have e: "heap_cache_index sz = cache_index_loop 0 ?r" by (simp add: heap_cache_index_def Let_def)
  have u: "unat ?r = max 8 (unat sz)" by (simp add: HEAP_MIN_OBJECT_SIZE_def word_less_nat_alt)
  consider "heap_cache_index sz = - 1" "\<forall>c<9. 2 ^ (c + 3) < max 8 (unat sz)"
    | c where "c < 9" "heap_cache_index sz = int c" "max 8 (unat sz) \<le> 2 ^ (c + 3)" "\<forall>d<c. 2 ^ (d + 3) < max 8 (unat sz)"
    using cache_index_loop_cases [of 0 ?r] unfolding e [symmetric] u by auto
  then show thesis
  proof cases
    case 1
    then have "2 ^ (8 + 3) < max 8 (unat sz)" by (simp only:)
    then show thesis using large 1(1) by simp
  next
    case (2 c)
    have "2 ^ (d + 3) < unat sz" if "d < c" for d
    proof -
      have "(8::nat) \<le> 2 ^ (d + 3)" by (simp add: power_add)
      moreover have "2 ^ (d + 3) < max 8 (unat sz)" using 2(4) that by blast
      ultimately show ?thesis by linarith
    qed
    then show thesis using small 2 by auto
  qed
qed

section \<open>Objects are never found\<close>

lemma object_index_boundary:
  assumes "load16 (page + 4) (mem s) = osz" "osz \<noteq> 0" "page_fits page" "2080 + i * unat osz < 4096"
  shows "object_index (obj page (unat osz) i) page page s = Some (- 1)"
proof -
  have "page \<noteq> NULL" using assms(3) by (simp add: page_fits_def)
  have o: "unat (obj page (unat osz) i) = unat page + (2080 + i * unat osz)"
    unfolding obj_def by (rule page_offset(2) [OF assms(3,4)])
  have b: "unat (page + 2080) = unat page + 2080" using page_offset(2) [OF assms(3), of 2080] by simp
  have "\<not> obj page (unat osz) i < page + 2080" using o b by (simp add: word_less_nat_alt)
  moreover have "obj page (unat osz) i - (page + 2080) = of_nat (i * unat osz)" by (simp add: obj_def)
  moreover have "(of_nat (i * unat osz) :: u64) mod ucast osz = 0"
  proof -
    have "unat (of_nat (i * unat osz) :: u64) = i * unat osz" using assms(4) by (intro unat_of_nat64) simp
    then have "unat ((of_nat (i * unat osz) :: u64) mod ucast osz) = 0" by (simp add: unat_mod)
    then show ?thesis by (simp add: unat_eq_zero)
  qed
  ultimately show ?thesis using assms(1,2) \<open>page \<noteq> NULL\<close> by (simp add: object_index_def Let_def read16_def)
qed

lemma fresh_slab_cong:
  assumes "fresh_slab page osz m" "\<And>x. x \<in> region page 4096 \<Longrightarrow> m' x = m x" "8 \<le> unat osz"
  shows "fresh_slab page osz m'"
proof -
  have R: "region (page + a) l \<subseteq> region page 4096" if "unat a + l \<le> 4096" for a l
    using that by (intro region_offset) simp_all
  have l16: "load16 (page + a) m' = load16 (page + a) m" if "unat a + 2 \<le> 4096" for a
    using assms(2) R [OF that] by (intro m16.load_region) blast
  have l64: "load64 (page + a) m' = load64 (page + a) m" if "unat a + 8 \<le> 4096" for a
    using assms(2) R [OF that] by (intro m64.load_region) blast
  have l32: "load32 page m' = load32 page m" using assms(2) R [of 0 4] by (intro m32.load_region) auto
  have bm: "m' x = m x" if "x \<in> region (page + 32) 2048" for x using assms(2) R [of 32 2048] that by auto
  have ob: "load64 (obj page (unat osz) i) m' = load64 (obj page (unat osz) i) m" if "i < 2016 div unat osz" for i
  proof -
    have "Suc i * unat osz \<le> 2016 div unat osz * unat osz" using that by (intro mult_le_mono1) simp
    also have "\<dots> \<le> 2016" by simp
    finally have "2080 + i * unat osz + 8 \<le> 4096" using assms(3) by simp
    then have "unat (of_nat (2080 + i * unat osz) :: u64) + 8 \<le> 4096" by (subst unat_of_nat64) simp_all
    then show ?thesis unfolding obj_def by (rule l64)
  qed
  show ?thesis using assms(1) l16 l64 l32 bm ob unfolding fresh_slab_def by simp
qed


section \<open>Small requests\<close>

text \<open>
  The heap before any object has been handed out: every cache has the size of its class and is
  empty or holds an untouched slab page.
\<close>

definition idle_cache :: "u64 \<Rightarrow> memory \<Rightarrow> nat set \<Rightarrow> heap_cache \<Rightarrow> bool" where
  "idle_cache h m A c \<longleftrightarrow> partial_pages c = 0 \<or>
     aligned (partial_pages c) \<and> unat (partial_pages c) + 4096 \<le> 2 ^ 30 \<and> unat (partial_pages c) div 4096 \<in> A \<and>
     fresh_slab (partial_pages c + h) (object_size c) m"

definition heap_base :: "u64 \<Rightarrow> 'a machine_scheme \<Rightarrow> bool" where
  "heap_base h s \<longleftrightarrow> buddy_wf (buddy s) \<and> hhdm s = Some h \<and> hhdm_ok h"

definition heap_idle :: "u64 \<Rightarrow> 'a heap_state_scheme \<Rightarrow> bool" where
  "heap_idle h s \<longleftrightarrow> heap_base h s \<and>
     (\<forall>c<9. object_size (heap_caches s c) = ucast (heap_cache_sizes ! c) \<and>
            idle_cache h (mem s) (allocated_set (buddy s)) (heap_caches s c))"

lemma heap_init_caches:
  "heap_init s = s\<lparr>heap_caches := \<lambda>c. if c < 9 then \<lparr>object_size = ucast (heap_cache_sizes ! c), partial_pages = 0\<rparr> else heap_caches s c\<rparr>"
proof -
  have "init_caches_loop i s = s\<lparr>heap_caches := \<lambda>c. if i \<le> c \<and> c < 9 then \<lparr>object_size = ucast (heap_cache_sizes ! c), partial_pages = 0\<rparr> else heap_caches s c\<rparr>"
    for i and s :: "'a heap_state_scheme"
  proof (induction i s rule: init_caches_loop.induct)
    case (1 i s)
    show ?case
    proof (cases "i < HEAP_CACHE_CLASS_COUNT")
      case True
      have ev: "init_caches_loop i s = init_caches_loop (i + 1)
          (s\<lparr>heap_caches := (heap_caches s)(i := \<lparr>object_size = ucast (heap_cache_sizes ! i), partial_pages = 0\<rparr>)\<rparr>)"
        using True by (subst init_caches_loop.simps) simp
      show ?thesis unfolding ev "1.IH" [OF True] using True
        by (auto simp: HEAP_CACHE_CLASS_COUNT_def fun_eq_iff intro!: arg_cong [where f = "\<lambda>g. s\<lparr>heap_caches := g\<rparr>"])
    next
      case False
      then have "(\<lambda>c. if i \<le> c \<and> c < 9 then \<lparr>object_size = ucast (heap_cache_sizes ! c), partial_pages = 0\<rparr> else heap_caches s c) = heap_caches s"
        by (auto simp: HEAP_CACHE_CLASS_COUNT_def fun_eq_iff)
      then show ?thesis using False by (subst init_caches_loop.simps) simp
    qed
  qed
  from this [of 0 s] show ?thesis by (simp add: heap_init_def)
qed

lemma heap_init_idle: "heap_base h s \<Longrightarrow> heap_idle h (heap_init s)"
  by (simp add: heap_idle_def heap_base_def heap_init_caches idle_cache_def)

lemma heap_idle_cache:
  assumes "heap_idle h s" "c < 9"
  shows "object_size (heap_caches s c) = ucast (heap_cache_sizes ! c)" "8 \<le> unat (object_size (heap_caches s c))"
    "idle_cache h (mem s) (allocated_set (buddy s)) (heap_caches s c)"
proof -
  show o: "object_size (heap_caches s c) = ucast (heap_cache_sizes ! c)"
    and "idle_cache h (mem s) (allocated_set (buddy s)) (heap_caches s c)" using assms by (auto simp: heap_idle_def)
  show "8 \<le> unat (object_size (heap_caches s c))" unfolding o cache_size(2) [OF assms(2)] by (simp add: power_add)
qed

text \<open>With a slab page in place, the first object of its chain is refused.\<close>

lemma alloc_from_fresh_slab:
  assumes "hhdm s = Some h" "page_fits (partial_pages (heap_caches s c) + h)"
    and "fresh_slab (partial_pages (heap_caches s c) + h) osz (mem s)" "8 \<le> unat osz"
  shows "(let slab_phys = partial_pages (heap_caches s c); page = heap_phy_to_virt slab_phys s in
          if page = NULL then Some (NULL, s)
          else do { object \<leftarrow> read64 page 16 s;
          if object = 0 then Some (NULL, s)
          else do { obj_index \<leftarrow> object_index object page page s;
          if obj_index = - 1 then Some (NULL, s) else f slab_phys page object obj_index } }) = Some (NULL, s)"
proof -
  let ?page = "partial_pages (heap_caches s c) + h"
  have "heap_phy_to_virt (partial_pages (heap_caches s c)) s = ?page" using assms(1) by (simp add: heap_phy_to_virt_def)
  moreover have "?page \<noteq> NULL" using assms(2) by (simp add: page_fits_def)
  moreover have "load64 (?page + 16) (mem s) = obj ?page (unat osz) 0" "load16 (?page + 4) (mem s) = osz"
    using assms(3) by (simp_all add: fresh_slab_def)
  moreover have "osz \<noteq> 0" using assms(4) by auto
  ultimately show ?thesis
    using object_index_boundary [OF _ _ assms(2), of s osz 0] by (simp add: Let_def read64_def)
qed

lemma kmalloc_small_cases:
  assumes idle: "heap_idle h s" and sz: "sz \<noteq> 0" "unat sz \<le> 2048"
  obtains (same) "kmalloc sz s = Some (NULL, s)"
    | (new) c p b m where "c < 9"
      "kmalloc sz s = Some (NULL, s\<lparr>buddy := b, mem := m, heap_caches := (heap_caches s)(c := (heap_caches s c)\<lparr>partial_pages := p\<rparr>)\<rparr>)"
      "aligned p" "unat p + 4096 \<le> 2 ^ 30" "unat p div 4096 \<in> free_set (buddy s)" "buddy_wf b"
      "free_set b = free_set (buddy s) - {unat p div 4096}" "allocated_set b = insert (unat p div 4096) (allocated_set (buddy s))"
      "fresh_slab (p + h) (object_size (heap_caches s c)) m" "\<forall>x. x \<notin> region (p + h) 4096 \<longrightarrow> m x = mem s x"
proof -
  obtain c where c: "c < 9" "heap_cache_index sz = int c" using sz(2) by (cases rule: cache_index_cases [of sz]) auto
  have base: "buddy_wf (buddy s)" "hhdm s = Some h" "hhdm_ok h" using idle by (auto simp: heap_idle_def heap_base_def)
  note C = heap_idle_cache [OF idle c(1)]
  have ev: "kmalloc sz s = heap_alloc_from_cache c s" using sz(1) c(2) by (simp add: kmalloc_def Let_def)
  show thesis
  proof (cases "partial_pages (heap_caches s c) = 0")
    case False
    then have "page_fits (partial_pages (heap_caches s c) + h)" "fresh_slab (partial_pages (heap_caches s c) + h) (object_size (heap_caches s c)) (mem s)"
      using C(3) direct_map_page [OF base(3)] by (auto simp: idle_cache_def)
    note F = alloc_from_fresh_slab [OF base(2) this C(2)]
    have "heap_alloc_from_cache c s = Some (NULL, s)"
      unfolding heap_alloc_from_cache_def using False F by (simp add: F)
    then show thesis using ev same by simp
  next
    case True
    from base C(2) show thesis
    proof (cases rule: alloc_slab_page_cases [case_names none new])
      case none
      then have "heap_alloc_from_cache c s = Some (NULL, s)" using True by (simp add: heap_alloc_from_cache_def)
      then show thesis using ev same by simp
    next
      case (new p b m)
      let ?s = "s\<lparr>buddy := b, mem := m, heap_caches := (heap_caches s)(c := (heap_caches s c)\<lparr>partial_pages := p\<rparr>)\<rparr>"
      have pf: "page_fits (p + h)" by (rule direct_map_page [OF base(3) new(4)])
      have "page_fits (partial_pages (heap_caches ?s c) + h)" "hhdm ?s = Some h"
        "fresh_slab (partial_pages (heap_caches ?s c) + h) (object_size (heap_caches s c)) (mem ?s)" using pf new(9) base(2) by simp_all
      note F = alloc_from_fresh_slab [OF this(2,1,3) C(2)]
      have "heap_alloc_from_cache c s = Some (NULL, ?s)"
        unfolding heap_alloc_from_cache_def using True new(1,2) F by (simp add: F)
      then show thesis using that(2) [of c p m b] c(1) ev new by simp
    qed
  qed
qed

lemma kmalloc_small_null:
  assumes idle: "heap_idle h s" and sz: "sz \<noteq> 0" "unat sz \<le> 2048"
  shows "\<exists>s'. kmalloc sz s = Some (NULL, s') \<and> heap_idle h s'"
  using assms
proof (cases rule: kmalloc_small_cases [case_names same new])
  case same
  then show ?thesis using idle by simp
next
  case (new c p b m)
  let ?s = "s\<lparr>buddy := b, mem := m, heap_caches := (heap_caches s)(c := (heap_caches s c)\<lparr>partial_pages := p\<rparr>)\<rparr>"
  have base: "buddy_wf (buddy s)" "hhdm s = Some h" "hhdm_ok h" using idle by (auto simp: heap_idle_def heap_base_def)
  note C = heap_idle_cache [OF idle new(1)]
  have "heap_idle h ?s"
    unfolding heap_idle_def
  proof (intro conjI allI impI)
    show "heap_base h ?s" using new(6) base by (simp add: heap_base_def)
    fix d :: nat assume d: "d < 9"
    note D = heap_idle_cache [OF idle d]
    show "object_size (heap_caches ?s d) = ucast (heap_cache_sizes ! d)" using D(1) C(1) by simp
    show "idle_cache h (mem ?s) (allocated_set (buddy ?s)) (heap_caches ?s d)"
    proof (cases "d = c \<or> partial_pages (heap_caches s d) = 0")
      case True
      then show ?thesis using new(3,4,8,9) by (auto simp: idle_cache_def)
    next
      case False
      then have I: "aligned (partial_pages (heap_caches s d))" "unat (partial_pages (heap_caches s d)) div 4096 \<in> allocated_set (buddy s)"
        "fresh_slab (partial_pages (heap_caches s d) + h) (object_size (heap_caches s d)) (mem s)"
        using D(3) by (auto simp: idle_cache_def)
      have "partial_pages (heap_caches s d) \<noteq> p" using I(2) new(5) buddy.apart [OF base(1)] by auto
      then have "m x = mem s x" if "x \<in> region (partial_pages (heap_caches s d) + h) 4096" for x
        using that new(10) pages_apart [OF I(1) new(3), of h] by blast
      then show ?thesis using fresh_slab_cong [OF I(3) _ D(2)] False D(3) new(8) by (auto simp: idle_cache_def)
    qed
  qed
  then show ?thesis using new(2) by blast
qed


section \<open>Large requests\<close>

definition large_pages :: "u64 \<Rightarrow> u64" where
  "large_pages sz = (sz + LARGE_SIZE + BUDDY_PAGE_SIZE - 1) div BUDDY_PAGE_SIZE"

lemma unat_large_pages: "unat (large_pages sz) = (unat sz + 4103) mod 2 ^ 64 div 4096"
proof -
  have e: "sz + LARGE_SIZE + BUDDY_PAGE_SIZE - 1 = sz + 4103" by (simp add: BUDDY_PAGE_SIZE_def)
  have "unat (sz + 4103) = (unat sz + 4103) mod 2 ^ 64" by (simp add: unat_word_ariths)
  then show ?thesis unfolding large_pages_def e by (simp add: unat_div BUDDY_PAGE_SIZE_def)
qed

lemma large_pages_enough: "8 + unat sz \<le> 4096 * unat (large_pages sz) \<longleftrightarrow> unat sz + 4103 < 2 ^ 64"
proof (cases "unat sz + 4103 < 2 ^ 64")
  case True
  then show ?thesis unfolding unat_large_pages mod_less [OF True]
    using div_mult_mod_eq [of "unat sz + 4103" 4096] mod_less_divisor [of 4096 "unat sz + 4103"] by linarith
next
  case False
  have "unat sz < 2 ^ 64" using unsigned_less [of sz] by simp
  then have "(unat sz + 4103) mod 2 ^ 64 < 4103" using False by (simp add: mod_if) linarith
  then have "unat (large_pages sz) \<le> 1" unfolding unat_large_pages by simp
  then show ?thesis using False by simp
qed

text \<open>The two headers of a large block, and all that a successful large request does.\<close>

definition large_header :: "u64 \<Rightarrow> u64 \<Rightarrow> memory \<Rightarrow> memory" where
  "large_header virt pages m = store32 (ucast pages) (virt + LARGE_page_count) (store32 HEAP_MAGIC_LARGE virt m)"

lemma large_header_fields:
  "load32 virt (large_header virt n m) = HEAP_MAGIC_LARGE"
  "load32 (virt + 4) (large_header virt n m) = ucast n"
  "x \<notin> region virt 8 \<Longrightarrow> large_header virt n m x = m x"
proof -
  show "load32 virt (large_header virt n m) = HEAP_MAGIC_LARGE" "load32 (virt + 4) (large_header virt n m) = ucast n"
    by (simp_all add: large_header_def fields apart_def m32.load_store)
  have "region (virt + 4) 4 \<subseteq> region virt 8" "region virt 4 \<subseteq> region virt 8"
    by (rule region_offset; simp) (rule region_mono; simp)
  then have "x \<notin> region virt 8 \<Longrightarrow> x \<notin> region (virt + 4) 4 \<and> x \<notin> region virt 4" by blast
  then show "x \<notin> region virt 8 \<Longrightarrow> large_header virt n m x = m x"
    by (simp add: large_header_def m32.store_outside)
qed

lemma alloc_pages_bound:
  assumes "buddy_wf b" "buddy_alloc_pages n b = Some (p, b')" "p \<noteq> BUDDY_INVALID_ADDRESS"
  shows "unat p + 4096 * unat n \<le> 2 ^ 30" "unat n \<le> 2 ^ 18" "n \<noteq> 0" "unat p mod 4096 = 0"
proof -
  note f = buddy.alloc_fresh [OF assms] and bel = buddy.avail_below [OF assms(1)]
  show "n \<noteq> 0" "unat p mod 4096 = 0" using f by auto
  have n1: "1 \<le> unat n" using f by (simp add: unat_gt_0 Suc_le_eq)
  have sp: "unat n \<le> page_span n" using f by blast
  have "unat p div 4096 + unat n - 1 \<in> frames_of (page_span n) p"
    unfolding frames_of_def atLeastLessThan_iff using n1 sp by linarith
  then have "unat p div 4096 + unat n - 1 < NPAGES" using f bel by auto
  then have le: "unat p div 4096 + unat n \<le> NPAGES" by simp
  have "unat p = 4096 * (unat p div 4096)" using f by auto
  then have "unat p + 4096 * unat n = 4096 * (unat p div 4096 + unat n)" by simp
  also have "\<dots> \<le> 4096 * NPAGES" using le by (intro mult_le_mono2)
  finally show "unat p + 4096 * unat n \<le> 2 ^ 30" by simp
  then show "unat n \<le> 2 ^ 18" by simp
qed

lemma kmalloc_large_cases:
  assumes base: "heap_base h s" and sz: "2048 < unat sz"
  obtains (none) "kmalloc sz s = Some (NULL, s)" "buddy_alloc_pages (large_pages sz) (buddy s) = Some (BUDDY_INVALID_ADDRESS, buddy s)"
    | (new) p b where "kmalloc sz s = Some (p + h + 8, s\<lparr>buddy := b, mem := large_header (p + h) (large_pages sz) (mem s)\<rparr>)"
      "buddy_alloc_pages (large_pages sz) (buddy s) = Some (p, b)" "p \<noteq> BUDDY_INVALID_ADDRESS" "p + h + 8 \<noteq> NULL"
      "page_fits (p + h)"
proof -
  have B: "buddy_wf (buddy s)" "hhdm s = Some h" "hhdm_ok h" using base by (auto simp: heap_base_def)
  have idx: "heap_cache_index sz = - 1"
  proof (cases rule: cache_index_cases [of sz, case_names large small])
    case (small c)
    have "(2::nat) ^ (c + 3) \<le> 2 ^ 11" using small(1) by (intro power_increasing) auto
    then show ?thesis using small(3) sz by simp
  qed
  have z: "sz \<noteq> 0" using sz by auto
  obtain p b where a: "buddy_alloc_pages (large_pages sz) (buddy s) = Some (p, b)" "p = BUDDY_INVALID_ADDRESS \<longrightarrow> b = buddy s"
    using buddy.alloc_returns [OF B(1)] by blast
  have ev: "kmalloc sz s = (if p = BUDDY_INVALID_ADDRESS then Some (NULL, s\<lparr>buddy := b\<rparr>)
      else let virt = p + h in
           if virt = NULL then do { s \<leftarrow> machine_free_pages p (large_pages sz) (s\<lparr>buddy := b\<rparr>); Some (NULL, s) }
           else Some (virt + 8, s\<lparr>buddy := b, mem := large_header virt (large_pages sz) (mem s)\<rparr>))"
    unfolding kmalloc_def Let_def unfolding large_pages_def [symmetric] using idx z a(1) B(2)
    by (simp add: machine_alloc_pages_def heap_phy_to_virt_def write32_def large_header_def)
  show thesis
  proof (cases "p = BUDDY_INVALID_ADDRESS")
    case True
    then show thesis using none ev a by simp
  next
    case False
    note bd = alloc_pages_bound [OF B(1) a(1) False]
    have "unat (large_pages sz) \<ge> 1" using bd(3) by (simp add: unat_gt_0 Suc_le_eq)
    then have "unat p + 4096 \<le> 2 ^ 30" using bd(1) by simp
    then have pf: "page_fits (p + h)" by (rule direct_map_page [OF B(3)])
    have n8: "p + h + 8 \<noteq> NULL" using page_offset(1) [OF pf, of 8] by simp
    show thesis using new [OF _ a(1) False n8 pf] ev False pf by (simp add: page_fits_def Let_def)
  qed
qed

text \<open>Releasing a large block right after it was made.\<close>

lemma kfree_large:
  assumes h: "hhdm s = Some h" "aligned h" and p: "aligned p" "page_fits (p + h)" "unat n \<le> 2 ^ 18"
    and m: "load32 (p + h) (mem s) = HEAP_MAGIC_LARGE" "load32 (p + h + 4) (mem s) = ucast n"
  shows "kfree (p + h + 8) s = machine_free_pages p n s"
proof -
  have "unat (p + h) = (unat p + unat h) mod 2 ^ 64" by (simp add: unat_word_ariths)
  moreover have "(4096::nat) dvd 2 ^ 64" by simp
  ultimately have al: "aligned (p + h)" using p(1) h(2) by (metis dvd_add dvd_mod)
  have "unat (p + h + 8) = unat (p + h) + 8" using page_offset(2) [OF p(2), of 8] by simp
  then have "unat (p + h + 8) div 4096 * 4096 = unat (p + h)" using al by (auto elim!: dvdE)
  then have d: "(p + h + 8) AND NOT (BUDDY_PAGE_SIZE - 1) = p + h"
    using unat_align_down [of "p + h + 8"] unfolding buddy_align_down_def by (metis unat_inj_iff)
  have "unat n < 2 ^ 32" using p(3) by simp
  then have "unat (take_bit 32 n) = unat n" unfolding unsigned_take_bit_eq by (simp add: take_bit_nat_eq_self)
  then have c: "ucast (ucast n :: u32) = n" by (simp add: unsigned_ucast_eq)
  have "p + h + 8 \<noteq> NULL" "p + h \<noteq> NULL" using page_offset(1) [OF p(2), of 8] p(2) by (simp_all add: page_fits_def)
  then show ?thesis
    using h(1) m d c
    by (simp add: kfree_def Let_def heap_phy_to_virt_def read32_def heap_free_large_def HEAP_MAGIC_SMALL_def HEAP_MAGIC_LARGE_def)
qed

end
