(* ===== verification/Heap_Properties.thy ===== *)
theory Heap_Properties
  imports Heap VMM_Properties
begin

text \<open>
  The properties of the kernel heap, with witnesses on a machine with four free pages (\<open>demo_heap\<close>).
\<close>

section \<open>A heap\<close>

definition demo_heap :: heap_state where
  "demo_heap = heap_init \<lparr>buddy = demo_state, mem = \<lambda>_. 0, hhdm = Some HH, cr3 = 0x5000, tlb_flushed = [],
     heap_caches = \<lambda>_. \<lparr>object_size = 0, partial_pages = 0\<rparr>\<rparr>"

lemma demo_heap_ok: "heap_base HH demo_heap" "heap_idle HH demo_heap" "buddy demo_heap = demo_state" "aligned HH"
proof -
  have b: "heap_base HH \<lparr>buddy = demo_state, mem = \<lambda>_. 0, hhdm = Some HH, cr3 = 0x5000, tlb_flushed = [],
     heap_caches = \<lambda>_. \<lparr>object_size = 0, partial_pages = 0\<rparr>\<rparr>"
    using demo_wf by (simp add: heap_base_def hhdm_ok_def)
  then show i: "heap_idle HH demo_heap" unfolding demo_heap_def by (rule heap_init_idle)
  then show "heap_base HH demo_heap" by (simp add: heap_idle_def)
  show "buddy demo_heap = demo_state" by (simp add: demo_heap_def heap_init_caches)
  show "aligned HH" by simp
qed

lemma demo_large: "\<exists>p b. kmalloc 5000 demo_heap = Some (p + HH + 8, demo_heap\<lparr>buddy := b, mem := large_header (p + HH) 2 (mem demo_heap)\<rparr>) \<and>
  buddy_alloc_pages 2 demo_state = Some (p, b) \<and> p = 0x100000"
proof -
  have n: "large_pages 5000 = 2" by (simp add: large_pages_def BUDDY_PAGE_SIZE_def)
  have a: "\<exists>b. buddy_alloc_pages 2 demo_state = Some (0x100000, b)" by (simp add: buddy_run demo_state_def)
  have sz: "2048 < unat (5000 :: u64)" by simp
  from demo_heap_ok(1) sz show ?thesis
  proof (cases rule: kmalloc_large_cases [case_names none new])
    case none
    then show ?thesis using n a demo_heap_ok(3) demo_valid by auto
  next
    case (new p b)
    then show ?thesis using n a demo_heap_ok(3) by auto
  qed
qed


section \<open>Properties\<close>

text \<open>
  \<open>heap_cache_index\<close> picks the smallest class that holds the request (classes are the powers of
  two from 8 to 2048), and -1 for every larger request.
\<close>

lemma heap_cache_index_least:
  "heap_cache_index sz = (if unat sz \<le> 2048 then int (LEAST c. unat sz \<le> 2 ^ (c + 3)) else - 1)"
proof (cases rule: cache_index_cases [of sz, case_names large small])
  case large
  then show ?thesis by simp
next
  case (small c)
  have "(2::nat) ^ (c + 3) \<le> 2 ^ 11" using small(1) by (intro power_increasing) auto
  then have "unat sz \<le> 2048" using small(3) by simp
  moreover have "(LEAST c. unat sz \<le> 2 ^ (c + 3)) = c"
    using small(3,4) by (intro Least_equality) (auto simp: not_le [symmetric])
  ultimately show ?thesis using small(2) by simp
qed




text \<open>Requests one after the other.\<close>

fun kmalloc_all :: "u64 list \<Rightarrow> 'a heap_state_scheme \<Rightarrow> (u64 list \<times> 'a heap_state_scheme) option" where
  "kmalloc_all [] s = Some ([], s)"
| "kmalloc_all (n # ns) s = do { (p, s) \<leftarrow> kmalloc n s; (ps, s) \<leftarrow> kmalloc_all ns s; Some (p # ps, s) }"

text \<open>
  C24. After \<open>heap_init\<close> no small request is ever served: any sequence of requests of 1 to 2048 bytes
  returns, and every answer is \<open>NULL\<close>, however much memory is free.  The test in \<open>object_index\<close> is
  inverted: it rejects exactly the addresses where objects start.
\<close>

theorem kmalloc_small_never_served:
  assumes "heap_base h s" "\<forall>n\<in>set ns. n \<noteq> 0 \<and> unat n \<le> 2048"
  shows "\<exists>s'. kmalloc_all ns (heap_init s) = Some (replicate (length ns) NULL, s')"
proof -
  have "\<exists>s'. kmalloc_all ns s = Some (replicate (length ns) NULL, s')" if "heap_idle h s" for s :: "'a heap_state_scheme"
    using that assms(2)
  proof (induction ns arbitrary: s)
    case (Cons n ns)
    then obtain s1 where "kmalloc n s = Some (NULL, s1)" "heap_idle h s1" using kmalloc_small_null [of h s n] by auto
    moreover from this Cons obtain s2 where "kmalloc_all ns s1 = Some (replicate (length ns) NULL, s2)" by auto
    ultimately show ?case by simp
  qed simp
  then show ?thesis using heap_init_idle [OF assms(1)] by blast
qed

theorem kmalloc_small_never_served_witness:
  "\<exists>s'. kmalloc_all [16, 2048, 1, 16] (heap_init demo_heap) = Some ([NULL, NULL, NULL, NULL], s')"
  using kmalloc_small_never_served [OF demo_heap_ok(1), of "[16, 2048, 1, 16]"] by simp

text \<open>
  C22. A large request always returns.  A refused one changes nothing.  A served one gives an
  address 8 bytes into a fresh block, writes the block's header and no other byte of memory, and
  leaves the caches alone.  The block has the pages for the size, the header and the rounding,
  \<open>(sz + 4103) div 4096\<close> with a sum that wraps around at 64 bits: it holds the requested bytes entirely
  exactly when the sum does not wrap (when it does, the block is a single page).
\<close>

theorem kmalloc_large_served:
  assumes "heap_base h s" "2048 < unat sz"
  shows "\<exists>q s'. kmalloc sz s = Some (q, s') \<and> heap_base h s' \<and> heap_caches s' = heap_caches s \<and>
    (if q = NULL then s' = s
     else \<exists>p n. q = p + h + 8 \<and> unat p mod 4096 = 0 \<and>
       unat n = (unat sz + 4103) mod 2 ^ 64 div 4096 \<and> unat n \<le> page_span n \<and>
       (8 + unat sz \<le> 4096 * unat n \<longleftrightarrow> unat sz + 4103 < 2 ^ 64) \<and>
       (unat sz + 4103 < 2 ^ 64 \<longrightarrow> region q (unat sz) \<subseteq> region (p + h) (4096 * unat n)) \<and>
       frames_of (page_span n) p \<subseteq> free_set (buddy s) \<and>
       allocated_set (buddy s') = allocated_set (buddy s) \<union> frames_of (page_span n) p \<and>
       load32 (p + h) (mem s') = HEAP_MAGIC_LARGE \<and> load32 (p + h + 4) (mem s') = ucast n \<and>
       (\<forall>x. x \<notin> region (p + h) 8 \<longrightarrow> mem s' x = mem s x))"
  using assms(1,2)
proof (cases rule: kmalloc_large_cases [case_names none new])
  case none
  then show ?thesis using assms(1) by auto
next
  case (new p b)
  have wf: "buddy_wf (buddy s)" using assms(1) by (simp add: heap_base_def)
  note f = buddy.alloc_fresh [OF wf new(2,3)] and bd = alloc_pages_bound [OF wf new(2,3)]
  have "region (p + h + 8) (unat sz) \<subseteq> region (p + h) (4096 * unat (large_pages sz))" if "unat sz + 4103 < 2 ^ 64"
    using that bd(1) large_pages_enough [of sz] by (intro region_offset) simp_all
  moreover have "heap_base h (s\<lparr>buddy := b, mem := large_header (p + h) (large_pages sz) (mem s)\<rparr>)"
    using assms(1) buddy.alloc_new(3) [OF wf new(2,3)] by (simp add: heap_base_def)
  moreover note unat_large_pages [of sz] large_pages_enough [of sz] f bd(4) large_header_fields [where virt = "p + h" and n = "large_pages sz" and m = "mem s"]
  ultimately show ?thesis
    unfolding new(1) using new(4)
    by (intro exI [of _ "p + h + 8"] exI [of _ "s\<lparr>buddy := b, mem := large_header (p + h) (large_pages sz) (mem s)\<rparr>"])
       (simp, intro exI [of _ p] exI [of _ "large_pages sz"], simp)
qed

theorem kmalloc_large_served_witness:
  "\<exists>s'. kmalloc 5000 demo_heap = Some (HH + 0x100008, s') \<and> heap_caches s' = heap_caches demo_heap"
proof -
  obtain b where "kmalloc 5000 demo_heap = Some (HH + 0x100008, demo_heap\<lparr>buddy := b, mem := large_header (0x100000 + HH) 2 (mem demo_heap)\<rparr>)"
    using demo_large by auto
  then show ?thesis using kmalloc_large_served [OF demo_heap_ok(1), of 5000] by auto
qed

text \<open>
  C23. \<open>kfree\<close> undoes a large \<open>kmalloc\<close>: called on the address returned, it gives all pages back, so
  that exactly the frames that were free before are free again, and nothing else is released.  Only
  the block at frame 0, whose data start at \<open>h + 8\<close>, cannot be given back: \<open>buddy_free_pages\<close> refuses its
  address, and \<open>kfree\<close> changes nothing.
\<close>

theorem kmalloc_kfree_large:
  assumes "heap_base h s" "aligned h" "2048 < unat sz" "kmalloc sz s = Some (q, s1)" "q \<noteq> NULL"
  shows "\<exists>s2. kfree q s1 = Some s2 \<and> buddy_wf (buddy s2) \<and> heap_caches s2 = heap_caches s \<and>
    (if q = h + 8 then s2 = s1
     else free_set (buddy s2) = free_set (buddy s) \<and> allocated_set (buddy s2) = allocated_set (buddy s))"
  using assms(1,3)
proof (cases rule: kmalloc_large_cases [case_names none new])
  case none
  then show ?thesis using assms(4,5) by simp
next
  case (new p b)
  let ?s = "s\<lparr>buddy := b, mem := large_header (p + h) (large_pages sz) (mem s)\<rparr>"
  have wf: "buddy_wf (buddy s)" "hhdm ?s = Some h" using assms(1) by (simp_all add: heap_base_def)
  have q: "q = p + h + 8" "s1 = ?s" using new(1) assms(4) by auto
  have "\<exists>b2. buddy_free_pages p (large_pages sz) b = Some b2 \<and> buddy_wf b2 \<and> (if p = 0 then b2 = b
      else free_set b2 = free_set (buddy s) \<and> allocated_set b2 = allocated_set (buddy s))"
  proof (cases "p = 0")
    case True
    then show ?thesis using buddy.alloc_new(3) [OF wf(1) new(2,3)] by (simp add: buddy_free_pages_def)
  next
    case False
    then show ?thesis using buddy.alloc_release [OF wf(1) new(2,3)] by auto
  qed
  then obtain b2 where b2: "buddy_free_pages p (large_pages sz) b = Some b2" "buddy_wf b2"
    "if p = 0 then b2 = b else free_set b2 = free_set (buddy s) \<and> allocated_set b2 = allocated_set (buddy s)" by blast
  note bd = alloc_pages_bound [OF wf(1) new(2,3)]
  have "kfree q s1 = machine_free_pages p (large_pages sz) ?s"
    unfolding q using bd(2,4) large_header_fields
    by (intro kfree_large [OF wf(2) assms(2) _ new(5)]) (simp_all add: dvd_eq_mod_eq_0)
  then show ?thesis using b2 q by (simp add: machine_free_pages_def split: if_splits)
qed

theorem kmalloc_kfree_large_witness:
  "\<exists>s1 s2. kmalloc 5000 demo_heap = Some (HH + 0x100008, s1) \<and> kfree (HH + 0x100008) s1 = Some s2 \<and>
     free_set (buddy s2) = {256, 257, 258, 259}"
proof -
  obtain b where k: "kmalloc 5000 demo_heap = Some (HH + 0x100008, demo_heap\<lparr>buddy := b, mem := large_header (0x100000 + HH) 2 (mem demo_heap)\<rparr>)"
    using demo_large by auto
  have sz: "2048 < unat (5000 :: u64)" by simp
  show ?thesis using kmalloc_kfree_large [OF demo_heap_ok(1,4) sz k] k demo_heap_ok(3) demo_free(1) by auto
qed

text \<open>
  Rounding up overflows: a request for 2^64 - 1 bytes is treated as one of 7 bytes and is
  answered with an address inside a single page.
\<close>

lemma kmalloc_overflow:
  assumes "heap_base h s" "buddy_alloc_pages 1 (buddy s) = Some (p, b)" "p \<noteq> BUDDY_INVALID_ADDRESS"
  shows "\<exists>s'. kmalloc UINT64_MAX s = Some (p + h + 8, s') \<and> buddy s' = b \<and> p + h + 8 \<noteq> NULL"
proof -
  have n: "large_pages UINT64_MAX = 1" by (simp add: large_pages_def BUDDY_PAGE_SIZE_def)
  have sz: "2048 < unat UINT64_MAX" by simp
  from assms(1) sz show ?thesis
  proof (cases rule: kmalloc_large_cases [case_names none new])
    case none
    then show ?thesis using assms(2,3) n by simp
  next
    case (new p' b')
    then show ?thesis using assms(2) n by auto
  qed
qed

text \<open>
  \<open>heap_free_small\<close> ignores every address at which an object of the page starts: a slab object
  could not be released either.
\<close>

lemma heap_free_small_ignores_objects:
  assumes "heap_base h s" "unat p + 4096 \<le> 2 ^ 30" "fresh_slab (p + h) osz (mem s)" "osz \<noteq> 0" "2080 + i * unat osz < 4096"
  shows "heap_free_small (obj (p + h) (unat osz) i) (p + h) p s = Some s"
proof -
  have b: "hhdm s = Some h" "hhdm_ok h" using assms(1) by (auto simp: heap_base_def)
  have pf: "page_fits (p + h)" by (rule direct_map_page [OF b(2) assms(2)])
  have "load16 (p + h + 4) (mem s) = osz" "load32 (p + h) (mem s) = HEAP_MAGIC_SMALL" using assms(3) by (auto simp: fresh_slab_def)
  then show ?thesis
    using object_index_boundary [OF _ assms(4) pf assms(5), of s] pf b(1)
    by (simp add: heap_free_small_def read32_def heap_phy_to_virt_def Let_def page_fits_def)
qed

lemma heap_free_small_ignores_demo:
  "\<exists>p s'. heap_alloc_slab_page 512 demo_heap = Some (p, s') \<and> heap_free_small (obj (p + HH) 512 1) (p + HH) p s' = Some s'"
proof -
  have b: "buddy_wf (buddy demo_heap)" "hhdm demo_heap = Some HH" "hhdm_ok HH" "8 \<le> unat (512 :: u16)"
    using demo_heap_ok(1) by (auto simp: heap_base_def)
  have a: "machine_alloc_page demo_heap \<noteq> Some (BUDDY_INVALID_ADDRESS, demo_heap)"
    using demo_alloc demo_valid demo_heap_ok(3) by (auto simp: machine_alloc_page_def buddy_alloc_page_def)
  from b show ?thesis
  proof (cases rule: alloc_slab_page_cases [case_names none new])
    case none
    then show ?thesis using a by simp
  next
    case (new p c m)
    let ?s = "demo_heap\<lparr>buddy := c, mem := m\<rparr>"
    have "heap_base HH ?s" using new(6) b by (simp add: heap_base_def)
    then show ?thesis using heap_free_small_ignores_objects [of HH ?s p 512 1] new by auto
  qed
qed

end
