(* ===== verification/Descriptor_Tables.thy ===== *)
theory Descriptor_Tables
  imports Yoix_Prelude
begin

text \<open>
  The descriptor tables, \<open>src/kernel/src/memory/gdt.c\<close>, \<open>gdt.h\<close>, \<open>tss.h\<close> and the table part of
  \<open>src/kernel/src/system/interrupt/idt.c\<close>: the packed structures as records, the encoders, \<open>initGdt\<close>
  and \<open>idt_init\<close>, and, against them, the fields as the processor reads them.  The addresses of the
  variables and of the assembly stubs are chosen by the linker and are arguments.
\<close>

section \<open>The global descriptor table\<close>

definition FLAG_DATA_64 :: u8 where "FLAG_DATA_64 = 0xC"
definition FLAG_CODE_64 :: u8 where "FLAG_CODE_64 = 0xA"
definition GDT_COUNT :: nat where "GDT_COUNT = 5"
definition KERNEL_CODE :: u8 where "KERNEL_CODE = 0x9A"
definition KERNEL_DATA :: u8 where "KERNEL_DATA = 0x92"
definition USER_CODE :: u8 where "USER_CODE = 0xF2"
definition USER_DATA :: u8 where "USER_DATA = 0xFA"
definition TSS_ACCESS_BYTE :: u8 where "TSS_ACCESS_BYTE = 0x89"
definition GDT0_NULL_SEGMENT :: u16 where "GDT0_NULL_SEGMENT = 0x00"
definition GDT0_CODE_SEGMENT :: u16 where "GDT0_CODE_SEGMENT = 0x08"
definition GDT0_DATA_SEGMENT :: u16 where "GDT0_DATA_SEGMENT = 0x10"
definition GDT3_DATA_SEGMENT :: u16 where "GDT3_DATA_SEGMENT = 0x18"
definition GDT3_CODE_SEGMENT :: u16 where "GDT3_CODE_SEGMENT = 0x20"
definition GDT0_TSS_SEGMENT :: u16 where "GDT0_TSS_SEGMENT = 0x28"

lemmas gdt_consts = FLAG_DATA_64_def FLAG_CODE_64_def GDT_COUNT_def KERNEL_CODE_def KERNEL_DATA_def
  USER_CODE_def USER_DATA_def TSS_ACCESS_BYTE_def GDT0_NULL_SEGMENT_def GDT0_CODE_SEGMENT_def
  GDT0_DATA_SEGMENT_def GDT3_DATA_SEGMENT_def GDT3_CODE_SEGMENT_def GDT0_TSS_SEGMENT_def

record GDTR_t =
  gdtr_limit :: u16
  gdtr_base :: u64

record GDT_t =
  limitL :: u16
  baseL :: u16
  baseM :: u8
  gdt_access :: u8
  gdt_flags :: u8
  baseH :: u8

record GDT_TSS_t =
  Tmain :: GDT_t
  baseTss :: u32
  tss_Reserved :: u32

record TSS_t =
  Reserved0 :: u32
  RSP0 :: u64
  RSP1 :: u64
  RSP2 :: u64
  Reserved1 :: u64
  tss_ist :: "nat \<Rightarrow> u64"
  Reserved2 :: u64
  Reserved3 :: u32
  IOPB :: u32

record YOIX_GDT =
  gdt_ptr :: GDTR_t
  gdt_entry :: "nat \<Rightarrow> GDT_t"
  entryTss :: GDT_TSS_t
  gdt_tss :: TSS_t

text \<open>
  The registers that \<open>lgdt\<close>, \<open>reloadSegments\<close> and \<open>flush_tss\<close> load.  \<open>gdt_addr\<close> is where the linker
  puts the variable \<open>gdt\<close>; its packed members \<open>entry\<close> and \<open>tss\<close> lie 16 and 80 bytes into it.
\<close>

record cpu_tables =
  gdt :: YOIX_GDT
  reg_gdtr :: GDTR_t
  reg_cs :: u16
  reg_data :: u16
  reg_tr :: u16

abbreviation (input) OFFSET_entry :: u64 where "OFFSET_entry \<equiv> 16"
abbreviation (input) OFFSET_tss :: u64 where "OFFSET_tss \<equiv> 80"
abbreviation (input) SIZEOF_GDT :: u64 where "SIZEOF_GDT \<equiv> 8"
abbreviation (input) SIZEOF_GDT_TSS :: u64 where "SIZEOF_GDT_TSS \<equiv> 16"
abbreviation (input) SIZEOF_TSS :: u64 where "SIZEOF_TSS \<equiv> 108"

definition encodeGDTEntry :: "u64 \<Rightarrow> u64 \<Rightarrow> u8 \<Rightarrow> u8 \<Rightarrow> GDT_t" where
  "encodeGDTEntry base limit access_Byte flags = \<lparr>
     limitL = ucast (limit AND 0xFFFF),
     baseL = ucast (base AND 0xFFFF),
     baseM = ucast (drop_bit 16 base AND 0xFF),
     gdt_access = access_Byte,
     gdt_flags = ucast ((drop_bit 16 limit AND 0x0F) OR push_bit 4 (ucast flags)),
     baseH = ucast (drop_bit 24 base AND 0xFF)\<rparr>"

definition encodeTSSEntry :: "u64 \<Rightarrow> u64 \<Rightarrow> u8 \<Rightarrow> u8 \<Rightarrow> GDT_TSS_t" where
  "encodeTSSEntry base limit access_Byte flags = \<lparr>
     Tmain = encodeGDTEntry base limit access_Byte flags,
     baseTss = ucast (drop_bit 32 base AND 0xFFFFFFFF),
     tss_Reserved = 0\<rparr>"

definition zero_TSS :: TSS_t where
  "zero_TSS = \<lparr>Reserved0 = 0, RSP0 = 0, RSP1 = 0, RSP2 = 0, Reserved1 = 0, tss_ist = (\<lambda>_. 0),
     Reserved2 = 0, Reserved3 = 0, IOPB = 0\<rparr>"

definition reloadSegments :: "'a cpu_tables_scheme \<Rightarrow> 'a cpu_tables_scheme" where
  "reloadSegments s = s\<lparr>reg_cs := 0x08, reg_data := 0x10\<rparr>"

definition flush_tss :: "'a cpu_tables_scheme \<Rightarrow> 'a cpu_tables_scheme" where
  "flush_tss s = s\<lparr>reg_tr := 0x28\<rparr>"

definition initGdt :: "u64 \<Rightarrow> 'a cpu_tables_scheme \<Rightarrow> 'a cpu_tables_scheme" where
  "initGdt gdt_addr s =
     (let g = gdt s;
          g = g\<lparr>gdt_entry := (gdt_entry g)(0 := encodeGDTEntry 0 0 0 0)\<rparr>;
          g = g\<lparr>gdt_entry := (gdt_entry g)(1 := encodeGDTEntry 0 0xFFFFF KERNEL_CODE FLAG_CODE_64)\<rparr>;
          g = g\<lparr>gdt_entry := (gdt_entry g)(2 := encodeGDTEntry 0 0xFFFFF KERNEL_DATA FLAG_DATA_64)\<rparr>;
          g = g\<lparr>gdt_entry := (gdt_entry g)(3 := encodeGDTEntry 0 0xFFFFF USER_DATA FLAG_DATA_64)\<rparr>;
          g = g\<lparr>gdt_entry := (gdt_entry g)(4 := encodeGDTEntry 0 0xFFFFF USER_CODE FLAG_CODE_64)\<rparr>;
          g = g\<lparr>entryTss := encodeTSSEntry (gdt_addr + OFFSET_tss) (SIZEOF_TSS - 1) TSS_ACCESS_BYTE 0\<rparr>;
          g = g\<lparr>gdt_tss := zero_TSS\<rparr>;
          g = g\<lparr>gdt_tss := (gdt_tss g)\<lparr>RSP0 := 0\<rparr>\<rparr>;
          g = g\<lparr>gdt_ptr := (gdt_ptr g)\<lparr>gdtr_base := gdt_addr + OFFSET_entry\<rparr>\<rparr>;
          g = g\<lparr>gdt_ptr := (gdt_ptr g)\<lparr>gdtr_limit := ucast (SIZEOF_GDT * of_nat GDT_COUNT + SIZEOF_GDT_TSS - 1)\<rparr>\<rparr>
      in flush_tss (reloadSegments (s\<lparr>gdt := g, reg_gdtr := gdt_ptr g\<rparr>)))"

section \<open>What the processor reads\<close>

text \<open>The fields of a segment descriptor as the processor assembles them from the packed bytes.\<close>

definition desc_base :: "GDT_t \<Rightarrow> u64" where
  "desc_base d = ucast (baseL d) OR push_bit 16 (ucast (baseM d)) OR push_bit 24 (ucast (baseH d))"

definition desc_limit :: "GDT_t \<Rightarrow> u64" where
  "desc_limit d = ucast (limitL d) OR push_bit 16 (ucast (gdt_flags d AND 0x0F))"

definition desc_flags :: "GDT_t \<Rightarrow> u8" where
  "desc_flags d = drop_bit 4 (gdt_flags d)"

definition tss_desc_base :: "GDT_TSS_t \<Rightarrow> u64" where
  "tss_desc_base d = desc_base (Tmain d) OR push_bit 32 (ucast (baseTss d))"

definition seg_present :: "GDT_t \<Rightarrow> bool" where "seg_present d \<longleftrightarrow> bit (gdt_access d) 7"
definition seg_dpl :: "GDT_t \<Rightarrow> u8" where "seg_dpl d = drop_bit 5 (gdt_access d) AND 3"
definition seg_is_code :: "GDT_t \<Rightarrow> bool" where "seg_is_code d \<longleftrightarrow> bit (gdt_access d) 4 \<and> bit (gdt_access d) 3"
definition seg_long_mode :: "GDT_t \<Rightarrow> bool" where "seg_long_mode d \<longleftrightarrow> bit (gdt_flags d) 5 \<and> \<not> bit (gdt_flags d) 6"

lemmas seg_defs = seg_present_def seg_dpl_def seg_is_code_def seg_long_mode_def

lemma and_masks:
  "(x :: u64) AND 0xFFFF = take_bit 16 x" "(x :: u64) AND 0xFF = take_bit 8 x" "(x :: u64) AND 0x0F = take_bit 4 x"
  "(y :: u8) AND 0x0F = take_bit 4 y" "(x :: u64) AND 0xFFFFFFFF = take_bit 32 x"
  by (simp_all add: take_bit_eq_mask mask_eq_exp_minus_1)

lemma desc_base_bits: "bit (desc_base (encodeGDTEntry base limit a f)) i \<longleftrightarrow> bit base i \<and> i < 32"
proof -
  consider "i < 16" | "16 \<le> i" "i < 24" | "24 \<le> i" by linarith
  then show ?thesis
    by cases (auto simp: desc_base_def encodeGDTEntry_def and_masks bit_simps)
qed

lemma desc_limit_bits: "bit (desc_limit (encodeGDTEntry base limit a f)) i \<longleftrightarrow> bit limit i \<and> i < 20"
proof -
  consider "i < 16" | "16 \<le> i" "i < 20" | "20 \<le> i" by linarith
  then show ?thesis
    by cases (auto simp: desc_limit_def encodeGDTEntry_def and_masks bit_simps)
qed

lemma desc_limit_encode: "desc_limit (encodeGDTEntry base limit a f) = take_bit 20 limit"
  by (rule bit_word_eqI) (auto simp: desc_limit_bits bit_take_bit_iff)

lemma tss_base_encode: "tss_desc_base (encodeTSSEntry base limit a f) = base"
  by (rule bit_word_eqI) (auto simp: tss_desc_base_def encodeTSSEntry_def bit_or_iff desc_base_bits and_masks bit_simps)

text \<open>
  C27. A system descriptor keeps all 64 bits of its base, and every descriptor the low 20 bits of its
  limit, its access byte and the low four flag bits, whatever the arguments.
\<close>

theorem gdt_encode_decode:
  "tss_desc_base (encodeTSSEntry base limit a f) = base \<and>
   desc_limit (encodeGDTEntry base limit a f) = take_bit 20 limit \<and>
   desc_base (encodeGDTEntry base limit a f) = take_bit 32 base \<and>
   gdt_access (encodeGDTEntry base limit a f) = a \<and> desc_flags (encodeGDTEntry base limit a f) = take_bit 4 f"
proof (intro conjI)
  show "tss_desc_base (encodeTSSEntry base limit a f) = base" by (rule tss_base_encode)
  show "desc_limit (encodeGDTEntry base limit a f) = take_bit 20 limit" by (rule desc_limit_encode)
  show "desc_base (encodeGDTEntry base limit a f) = take_bit 32 base"
    by (rule bit_word_eqI) (auto simp: desc_base_bits bit_take_bit_iff)
  show "gdt_access (encodeGDTEntry base limit a f) = a" by (simp add: encodeGDTEntry_def)
  show "desc_flags (encodeGDTEntry base limit a f) = take_bit 4 f"
    by (rule bit_word_eqI) (auto simp: desc_flags_def encodeGDTEntry_def and_masks bit_simps)
qed


definition segment_of :: "'a cpu_tables_scheme \<Rightarrow> u16 \<Rightarrow> GDT_t" where
  "segment_of s selector = gdt_entry (gdt s) (unat selector div 8)"

lemma initGdt_entries:
  "segment_of (initGdt addr s) 0x08 = encodeGDTEntry 0 0xFFFFF KERNEL_CODE FLAG_CODE_64"
  "segment_of (initGdt addr s) 0x10 = encodeGDTEntry 0 0xFFFFF KERNEL_DATA FLAG_DATA_64"
  "segment_of (initGdt addr s) 0x18 = encodeGDTEntry 0 0xFFFFF USER_DATA FLAG_DATA_64"
  "segment_of (initGdt addr s) 0x20 = encodeGDTEntry 0 0xFFFFF USER_CODE FLAG_CODE_64"
  "segment_of (initGdt addr s) 0x00 = encodeGDTEntry 0 0 0 0"
  by (simp_all add: segment_of_def initGdt_def Let_def flush_tss_def reloadSegments_def)

text \<open>
  The bytes of the packed descriptors, lowest address first, and those of the table at
  \<open>gdt.entry\<close>: the five entries and, behind them, \<open>gdt.entryTss\<close>.  A selector with the low three bits
  clear is an offset into them.
\<close>

definition desc_bytes :: "GDT_t \<Rightarrow> u8 list" where
  "desc_bytes d = [ucast (limitL d), ucast (drop_bit 8 (limitL d)), ucast (baseL d), ucast (drop_bit 8 (baseL d)),
     baseM d, gdt_access d, gdt_flags d, baseH d]"

definition tss_desc_bytes :: "GDT_TSS_t \<Rightarrow> u8 list" where
  "tss_desc_bytes d = desc_bytes (Tmain d) @ map (\<lambda>i. ucast (drop_bit (8 * i) (baseTss d))) [0..<4] @
     map (\<lambda>i. ucast (drop_bit (8 * i) (tss_Reserved d))) [0..<4]"

definition table_bytes :: "YOIX_GDT \<Rightarrow> u8 list" where
  "table_bytes g = concat (map (\<lambda>i. desc_bytes (gdt_entry g i)) [0..<GDT_COUNT]) @ tss_desc_bytes (entryTss g)"

definition selected_bytes :: "nat \<Rightarrow> u16 \<Rightarrow> u8 list \<Rightarrow> u8 list" where
  "selected_bytes n selector tbl = take n (drop (unat selector) tbl)"

text \<open>What \<open>ltr\<close> asks of a descriptor: a system descriptor of the type "available 64-bit TSS", present.\<close>

definition seg_available_tss :: "GDT_t \<Rightarrow> bool" where
  "seg_available_tss d \<longleftrightarrow> \<not> bit (gdt_access d) 4 \<and> gdt_access d AND 0x0F = 9"

lemma desc_bytes_length: "length (desc_bytes d) = 8" "length (tss_desc_bytes e) = 16"
  by (simp_all add: desc_bytes_def tss_desc_bytes_def)

lemma table_bytes_selected:
  "length (table_bytes g) = 56"
  "take 8 (drop 0x08 (table_bytes g)) = desc_bytes (gdt_entry g 1)"
  "take 8 (drop 0x10 (table_bytes g)) = desc_bytes (gdt_entry g 2)"
  "take 16 (drop 0x28 (table_bytes g)) = tss_desc_bytes (entryTss g)"
proof -
  have e: "table_bytes g = desc_bytes (gdt_entry g 0) @ desc_bytes (gdt_entry g 1) @ desc_bytes (gdt_entry g 2) @
      desc_bytes (gdt_entry g 3) @ desc_bytes (gdt_entry g 4) @ tss_desc_bytes (entryTss g)"
    by (simp add: table_bytes_def GDT_COUNT_def upt_rec eval_nat_numeral)
  show "length (table_bytes g) = 56"
    "take 8 (drop 0x08 (table_bytes g)) = desc_bytes (gdt_entry g 1)"
    "take 8 (drop 0x10 (table_bytes g)) = desc_bytes (gdt_entry g 2)"
    "take 16 (drop 0x28 (table_bytes g)) = tss_desc_bytes (entryTss g)"
    by (simp_all add: e desc_bytes_length)
qed

text \<open>
  C28. After \<open>initGdt\<close> the processor finds what it needs.  The table loaded is \<open>gdt.entry\<close> with
  \<open>gdt.entryTss\<close> behind it, byte for byte: the limit is its last byte.  The selector in \<open>cs\<close> leads to a
  present 64-bit code segment of ring 0, that of the data segments to a present ring 0 data segment.
  The selector in the task register leads to the 16 bytes of \<open>gdt.entryTss\<close>, within the limit, and
  they are a descriptor that \<open>ltr\<close> accepts: present, of the system type "available 64-bit TSS", ring 0,
  in bytes (granularity clear), with the address of \<open>gdt.tss\<close> as its base and the last byte of \<open>TSS_t\<close>
  as its limit, which is at least the 103 a task state needs.
\<close>

theorem initGdt_loads:
  "let cpu = initGdt addr s; tbl = table_bytes (gdt cpu) in
   reg_gdtr cpu = \<lparr>gdtr_limit = 5 * 8 + 16 - 1, gdtr_base = addr + OFFSET_entry\<rparr> \<and>
   length tbl = unat (gdtr_limit (reg_gdtr cpu)) + 1 \<and>
   (\<exists>code. selected_bytes 8 (reg_cs cpu) tbl = desc_bytes code \<and> seg_present code \<and> seg_is_code code \<and> seg_long_mode code \<and> seg_dpl code = 0) \<and>
   (\<exists>data. selected_bytes 8 (reg_data cpu) tbl = desc_bytes data \<and> seg_present data \<and> bit (gdt_access data) 4 \<and> \<not> seg_is_code data \<and>
      seg_dpl data = 0) \<and>
   reg_tr cpu = GDT0_TSS_SEGMENT \<and> unat (reg_tr cpu) + 16 \<le> length tbl \<and>
   (let tss = entryTss (gdt cpu) in
      selected_bytes 16 (reg_tr cpu) tbl = tss_desc_bytes tss \<and>
      seg_present (Tmain tss) \<and> seg_available_tss (Tmain tss) \<and> seg_dpl (Tmain tss) = 0 \<and> desc_flags (Tmain tss) = 0 \<and>
      tss_desc_base tss = addr + OFFSET_tss \<and> desc_limit (Tmain tss) = SIZEOF_TSS - 1 \<and> 103 \<le> desc_limit (Tmain tss)) \<and>
   RSP0 (gdt_tss (gdt cpu)) = 0"
proof -
  define cpu tbl where "cpu = initGdt addr s" and "tbl = table_bytes (gdt cpu)"
  let ?code = "encodeGDTEntry 0 0xFFFFF KERNEL_CODE FLAG_CODE_64" and ?data = "encodeGDTEntry 0 0xFFFFF KERNEL_DATA FLAG_DATA_64"
  let ?tss = "encodeTSSEntry (addr + OFFSET_tss) (SIZEOF_TSS - 1) TSS_ACCESS_BYTE 0"
  have r: "reg_cs cpu = 0x08" "reg_data cpu = 0x10" "reg_tr cpu = 0x28"
    "reg_gdtr cpu = \<lparr>gdtr_limit = 55, gdtr_base = addr + OFFSET_entry\<rparr>"
    "entryTss (gdt cpu) = ?tss" "RSP0 (gdt_tss (gdt cpu)) = 0" "gdt_entry (gdt cpu) 1 = ?code" "gdt_entry (gdt cpu) 2 = ?data"
    by (simp_all add: cpu_def initGdt_def Let_def flush_tss_def reloadSegments_def GDT_COUNT_def)
  have s: "selected_bytes 8 (reg_cs cpu) tbl = desc_bytes ?code" "selected_bytes 8 (reg_data cpu) tbl = desc_bytes ?data" "selected_bytes 16 (reg_tr cpu) tbl = tss_desc_bytes ?tss"
      "length tbl = 56"
    using table_bytes_selected [of "gdt cpu"] r by (simp_all add: selected_bytes_def tbl_def desc_bytes_length)
  have c: "seg_present ?code" "seg_is_code ?code" "seg_long_mode ?code" "seg_dpl ?code = 0"
    and d: "seg_present ?data" "bit (gdt_access ?data) 4" "\<not> seg_is_code ?data" "seg_dpl ?data = 0"
    by (simp_all add: encodeGDTEntry_def seg_defs gdt_consts and_masks)
  have t: "Tmain ?tss = encodeGDTEntry (addr + OFFSET_tss) (SIZEOF_TSS - 1) TSS_ACCESS_BYTE 0" by (simp add: encodeTSSEntry_def)
  have a: "seg_present (Tmain ?tss)" "seg_available_tss (Tmain ?tss)" "seg_dpl (Tmain ?tss) = 0" "desc_flags (Tmain ?tss) = 0"
    unfolding t by (simp_all add: encodeGDTEntry_def seg_defs seg_available_tss_def desc_flags_def TSS_ACCESS_BYTE_def and_masks)
  have t': "tss_desc_base ?tss = addr + OFFSET_tss" "desc_limit (Tmain ?tss) = SIZEOF_TSS - 1"
    unfolding t tss_base_encode desc_limit_encode by simp_all
  show ?thesis unfolding Let_def cpu_def [symmetric] tbl_def [symmetric] unfolding r(4,5) s
    by (intro conjI exI [of _ ?code] exI [of _ ?data])
       (simp_all only: r a t' c d, simp_all add: GDT0_TSS_SEGMENT_def)
qed

text \<open>
  The two user access bytes are exchanged: the segment that \<open>GDT3_CODE_SEGMENT\<close> selects is not a
  code segment, and the one that \<open>GDT3_DATA_SEGMENT\<close> selects is one, without the 64-bit flag.
\<close>

lemma initGdt_user_segments_swapped:
  "\<not> seg_is_code (segment_of (initGdt addr s) GDT3_CODE_SEGMENT) \<and>
   seg_is_code (segment_of (initGdt addr s) GDT3_DATA_SEGMENT) \<and>
   \<not> seg_long_mode (segment_of (initGdt addr s) GDT3_DATA_SEGMENT)"
  by (simp add: GDT3_CODE_SEGMENT_def GDT3_DATA_SEGMENT_def initGdt_entries encodeGDTEntry_def seg_defs
      USER_CODE_def USER_DATA_def FLAG_CODE_64_def FLAG_DATA_64_def and_masks)

section \<open>The interrupt descriptor table\<close>

record idt_entry_t =
  isr_low :: u16
  kernel_cs :: u16
  ist :: u8
  attributes :: u8
  isr_mid :: u16
  isr_high :: u32
  reserved :: u32

record idtr_t =
  idtr_limit :: u16
  idtr_base :: u64

record idt_state = cpu_tables +
  idt :: "nat \<Rightarrow> idt_entry_t"
  idtr :: idtr_t
  vectors :: "nat \<Rightarrow> bool"
  reg_idtr :: idtr_t
  interrupt_flag :: bool

definition idt_set_descriptor :: "u8 \<Rightarrow> u64 \<Rightarrow> u8 \<Rightarrow> idt_state \<Rightarrow> idt_state" where
  "idt_set_descriptor vector isr flags s = s\<lparr>idt := (idt s)(unat vector := \<lparr>
     isr_low = ucast (isr AND 0xFFFF),
     kernel_cs = 0x08,
     ist = 0,
     attributes = flags,
     isr_mid = ucast (drop_bit 16 isr AND 0xFFFF),
     isr_high = ucast (drop_bit 32 isr AND 0xFFFFFFFF),
     reserved = 0\<rparr>)\<rparr>"

text \<open>\<open>stubs\<close> is \<open>isr_stub_table\<close>, the entry points of the assembly file.\<close>

function idt_init_loop :: "u8 \<Rightarrow> (nat \<Rightarrow> u64) \<Rightarrow> idt_state \<Rightarrow> idt_state" where
  "idt_init_loop vector stubs s =
     (if vector < 49
      then let s = idt_set_descriptor vector (stubs (unat vector)) 0x8E s
           in idt_init_loop (vector + 1) stubs (s\<lparr>vectors := (vectors s)(unat vector := True)\<rparr>)
      else s)"
  by pat_completeness auto
termination
  by (relation "measure (\<lambda>(v, _). 49 - unat v)") (auto simp: word_less_nat_alt unat_plus_if')

declare idt_init_loop.simps [simp del]

definition idt_init :: "u64 \<Rightarrow> (nat \<Rightarrow> u64) \<Rightarrow> idt_state \<Rightarrow> idt_state" where
  "idt_init idt_addr stubs s =
     (let s = s\<lparr>idtr := (idtr s)\<lparr>idtr_base := idt_addr\<rparr>\<rparr>;
          s = s\<lparr>idtr := (idtr s)\<lparr>idtr_limit := 16 * 256 - 1\<rparr>\<rparr>;
          s = idt_init_loop 0 stubs s;
          s = idt_set_descriptor 255 (stubs 255) 0x8E s;
          s = s\<lparr>vectors := (vectors s)(255 := True)\<rparr>;
          s = s\<lparr>reg_idtr := idtr s\<rparr>
      in s\<lparr>interrupt_flag := True\<rparr>)"

text \<open>What the processor reads from a gate.\<close>

definition gate_offset :: "idt_entry_t \<Rightarrow> u64" where
  "gate_offset e = ucast (isr_low e) OR push_bit 16 (ucast (isr_mid e)) OR push_bit 32 (ucast (isr_high e))"

definition interrupt_gate :: "u64 \<Rightarrow> idt_entry_t \<Rightarrow> bool" where
  "interrupt_gate isr e \<longleftrightarrow> gate_offset e = isr \<and> kernel_cs e = GDT0_CODE_SEGMENT \<and> ist e = 0 \<and> attributes e = 0x8E"

lemma set_descriptor_gate:
  "interrupt_gate isr (idt (idt_set_descriptor v isr 0x8E s) (unat v))"
  "i \<noteq> unat v \<Longrightarrow> idt (idt_set_descriptor v isr f s) i = idt s i"
proof -
  have "gate_offset (idt (idt_set_descriptor v isr 0x8E s) (unat v)) = isr"
  proof (rule bit_word_eqI)
    fix i :: nat assume "i < LENGTH(64)"
    then consider "i < 16" | "16 \<le> i" "i < 32" | "32 \<le> i" "i < 64" by (simp add: not_less) linarith
    then show "bit (gate_offset (idt (idt_set_descriptor v isr 0x8E s) (unat v))) i = bit isr i"
      by cases (auto simp: gate_offset_def idt_set_descriptor_def and_masks bit_simps)
  qed
  then show "interrupt_gate isr (idt (idt_set_descriptor v isr 0x8E s) (unat v))"
    by (simp add: interrupt_gate_def idt_set_descriptor_def GDT0_CODE_SEGMENT_def)
  show "i \<noteq> unat v \<Longrightarrow> idt (idt_set_descriptor v isr f s) i = idt s i"
    by (simp add: idt_set_descriptor_def)
qed

lemma idt_init_loop_installs:
  assumes "unat v \<le> 49"
  shows "(\<forall>i. unat v \<le> i \<and> i < 49 \<longrightarrow> interrupt_gate (stubs i) (idt (idt_init_loop v stubs s) i)) \<and>
    (\<forall>i. \<not> (unat v \<le> i \<and> i < 49) \<longrightarrow> idt (idt_init_loop v stubs s) i = idt s i) \<and>
    (\<forall>i. vectors (idt_init_loop v stubs s) i = (unat v \<le> i \<and> i < 49 \<or> vectors s i)) \<and>
    idtr (idt_init_loop v stubs s) = idtr s \<and> cpu_tables.truncate (idt_init_loop v stubs s) = cpu_tables.truncate s"
  using assms
proof (induction v stubs s rule: idt_init_loop.induct)
  case (1 v stubs s)
  show ?case
  proof (cases "v < 49")
    case False
    then show ?thesis by (subst (1 2 3 4 5) idt_init_loop.simps) (auto simp: word_less_nat_alt)
  next
    case True
    let ?s1 = "idt_set_descriptor v (stubs (unat v)) 0x8E s"
    let ?s = "?s1\<lparr>vectors := (vectors ?s1)(unat v := True)\<rparr>"
    have u: "unat (v + 1) = Suc (unat v)" "unat v < 49" using unat_Suc_less [OF True] True by (auto simp: word_less_nat_alt)
    have ev: "idt_init_loop v stubs s = idt_init_loop (v + 1) stubs ?s"
      using True by (subst idt_init_loop.simps) (simp add: Let_def)
    have IH: "(\<forall>i. Suc (unat v) \<le> i \<and> i < 49 \<longrightarrow> interrupt_gate (stubs i) (idt (idt_init_loop (v + 1) stubs ?s) i)) \<and>
      (\<forall>i. \<not> (Suc (unat v) \<le> i \<and> i < 49) \<longrightarrow> idt (idt_init_loop (v + 1) stubs ?s) i = idt ?s i) \<and>
      (\<forall>i. vectors (idt_init_loop (v + 1) stubs ?s) i = (Suc (unat v) \<le> i \<and> i < 49 \<or> vectors ?s i)) \<and>
      idtr (idt_init_loop (v + 1) stubs ?s) = idtr ?s \<and> cpu_tables.truncate (idt_init_loop (v + 1) stubs ?s) = cpu_tables.truncate ?s"
      using "1.IH" [OF True refl] u by simp
    have g: "interrupt_gate (stubs (unat v)) (idt ?s (unat v))" "\<And>i. i \<noteq> unat v \<Longrightarrow> idt ?s i = idt s i"
      using set_descriptor_gate [where v = v and s = s and isr = "stubs (unat v)"] by simp_all
    have t: "idtr ?s = idtr s" "cpu_tables.truncate ?s = cpu_tables.truncate s" "vectors ?s = (vectors s)(unat v := True)"
      by (simp_all add: idt_set_descriptor_def cpu_tables.truncate_def)
    have le: "unat v \<le> i \<longleftrightarrow> i = unat v \<or> Suc (unat v) \<le> i" for i by auto
    show ?thesis unfolding ev le using IH g t u(2) by (intro conjI allI impI) auto
  qed
qed

text \<open>
  After \<open>idt_init\<close> the vectors 0 to 48 and 255 are interrupt gates to exactly their assembly
  stubs (all 64 bits of the address survive the split over three fields), entered through the
  kernel code segment; no other gate changes; the loaded table has room for all 256 gates; and
  interrupts are enabled only after the table is loaded.
\<close>

lemma idt_init_installs:
  "(\<forall>i<256. if i < 49 \<or> i = 255 then interrupt_gate (stubs i) (idt (idt_init addr stubs s) i) \<and> vectors (idt_init addr stubs s) i
     else idt (idt_init addr stubs s) i = idt s i) \<and>
   reg_idtr (idt_init addr stubs s) = \<lparr>idtr_limit = 4095, idtr_base = addr\<rparr> \<and> interrupt_flag (idt_init addr stubs s)"
proof -
  let ?s0 = "s\<lparr>idtr := (idtr s)\<lparr>idtr_base := addr, idtr_limit := 4095\<rparr>\<rparr>"
  let ?s1 = "idt_init_loop 0 stubs ?s0"
  have L: "(\<forall>i<49. interrupt_gate (stubs i) (idt ?s1 i))" "\<forall>i. \<not> i < 49 \<longrightarrow> idt ?s1 i = idt s i"
    "\<forall>i. vectors ?s1 i = (i < 49 \<or> vectors s i)" "idtr ?s1 = \<lparr>idtr_limit = 4095, idtr_base = addr\<rparr>"
    using idt_init_loop_installs [of 0 stubs ?s0] by auto
  let ?s2 = "idt_set_descriptor 255 (stubs 255) 0x8E ?s1"
  have e: "idt (idt_init addr stubs s) = idt ?s2" "vectors (idt_init addr stubs s) = (vectors ?s1)(255 := True)"
    "reg_idtr (idt_init addr stubs s) = idtr ?s1" "interrupt_flag (idt_init addr stubs s)"
    by (simp_all add: idt_init_def Let_def idt_set_descriptor_def)
  have "interrupt_gate (stubs 255) (idt ?s2 255)" "\<And>i. i \<noteq> 255 \<Longrightarrow> idt ?s2 i = idt ?s1 i"
    using set_descriptor_gate [where v = 255 and s = ?s1 and isr = "stubs 255"] by simp_all
  then show ?thesis unfolding e(1-3) using L e(4) by auto
qed

definition demo_cpu :: idt_state where
  "demo_cpu =
     (let d = encodeGDTEntry 0 0 0 0; p = \<lparr>gdtr_limit = 0, gdtr_base = 0\<rparr>; i = \<lparr>idtr_limit = 0, idtr_base = 0\<rparr> in
      \<lparr>gdt = \<lparr>gdt_ptr = p, gdt_entry = \<lambda>_. d, entryTss = encodeTSSEntry 0 0 0 0, gdt_tss = zero_TSS\<rparr>,
       reg_gdtr = p, reg_cs = 0, reg_data = 0, reg_tr = 0,
       idt = \<lambda>_. \<lparr>isr_low = 0, kernel_cs = 0, ist = 0, attributes = 0, isr_mid = 0, isr_high = 0, reserved = 0\<rparr>,
       idtr = i, vectors = \<lambda>_. False, reg_idtr = i, interrupt_flag = False\<rparr>)"

end
