(* ===== verification/Port_Devices.thy ===== *)
theory Port_Devices
  imports Yoix_Prelude
begin

text \<open>
  The drivers that speak to port devices: the interrupt controllers (\<open>PIC/pic.c\<close>, \<open>pic.h\<close>) and the timer
  (\<open>irq/pit.c\<close>) of \<open>src/kernel/src/system/interrupt\<close>, over \<open>src/kernel/src/system/cpu/io.h\<close>.  The drivers
  append to a history of port accesses; the controllers are modelled after their data sheet as
  automata that read this history, and the properties say which state the drivers bring them to.
\<close>

section \<open>Ports\<close>

text \<open>
  The history of port accesses of 8, 16 and 32 bits.  What an input returns is up to the devices: it
  is a function of the history and the port.
\<close>

datatype io_event = Out u16 u8 | In u16 u8 | Out16 u16 u16 | In16 u16 u16 | Out32 u16 u32 | In32 u16 u32

type_synonym io_log = "io_event list"
type_synonym 'v input = "io_log \<Rightarrow> u16 \<Rightarrow> 'v"
type_synonym devices = "u8 input"

definition outb :: "u16 \<Rightarrow> u8 \<Rightarrow> io_log \<Rightarrow> io_log" where
  "outb port val log = log @ [Out port val]"

definition inb :: "devices \<Rightarrow> u16 \<Rightarrow> io_log \<Rightarrow> u8 \<times> io_log" where
  "inb dev port log = (let v = dev log port in (v, log @ [In port v]))"

definition outw :: "u16 \<Rightarrow> u16 \<Rightarrow> io_log \<Rightarrow> io_log" where
  "outw port val log = log @ [Out16 port val]"

definition inw :: "u16 input \<Rightarrow> u16 \<Rightarrow> io_log \<Rightarrow> u16 \<times> io_log" where
  "inw dev port log = (let v = dev log port in (v, log @ [In16 port v]))"

definition outl :: "u16 \<Rightarrow> u32 \<Rightarrow> io_log \<Rightarrow> io_log" where
  "outl port val log = log @ [Out32 port val]"

definition inl :: "u32 input \<Rightarrow> u16 \<Rightarrow> io_log \<Rightarrow> u32 \<times> io_log" where
  "inl dev port log = (let v = dev log port in (v, log @ [In32 port v]))"

definition io_wait :: "io_log \<Rightarrow> io_log" where
  "io_wait log = outb 0x80 0 log"

section \<open>The interrupt controller\<close>

definition PIC1_COMMAND :: u16 where "PIC1_COMMAND = 0x20"
definition PIC1_DATA :: u16 where "PIC1_DATA = 0x21"
definition PIC2_COMMAND :: u16 where "PIC2_COMMAND = 0xA0"
definition PIC2_DATA :: u16 where "PIC2_DATA = 0xA1"
definition PIC_EOI :: u8 where "PIC_EOI = 0x20"
definition ICW1_ICW4 :: u8 where "ICW1_ICW4 = 0x01"
definition ICW1_INIT :: u8 where "ICW1_INIT = 0x10"
definition ICW4_8086 :: u8 where "ICW4_8086 = 0x01"
definition CASCADE_IRQ :: nat where "CASCADE_IRQ = 2"
definition PIC_READ_IRR :: u8 where "PIC_READ_IRR = 0x0a"
definition PIC_READ_ISR :: u8 where "PIC_READ_ISR = 0x0b"

lemmas pic_consts = PIC1_COMMAND_def PIC1_DATA_def PIC2_COMMAND_def PIC2_DATA_def PIC_EOI_def ICW1_ICW4_def
  ICW1_INIT_def ICW4_8086_def CASCADE_IRQ_def PIC_READ_IRR_def PIC_READ_ISR_def

definition PIC_sendEOI :: "u8 \<Rightarrow> io_log \<Rightarrow> io_log" where
  "PIC_sendEOI irq log =
     (let log = (if irq \<ge> 8 then outb PIC2_COMMAND PIC_EOI log else log)
      in outb PIC1_COMMAND PIC_EOI log)"

text \<open>The \<open>int\<close> offsets are converted to \<open>uint8_t\<close> by the call of \<open>outb\<close>.\<close>

definition PIC_remap :: "u32 \<Rightarrow> u32 \<Rightarrow> io_log \<Rightarrow> io_log" where
  "PIC_remap offset1 offset2 log =
     (let log = io_wait (outb PIC1_COMMAND (ICW1_INIT OR ICW1_ICW4) log);
          log = io_wait (outb PIC2_COMMAND (ICW1_INIT OR ICW1_ICW4) log);
          log = io_wait (outb PIC1_DATA (ucast offset1) log);
          log = io_wait (outb PIC2_DATA (ucast offset2) log);
          log = io_wait (outb PIC1_DATA (push_bit CASCADE_IRQ 1) log);
          log = io_wait (outb PIC2_DATA (of_nat CASCADE_IRQ) log);
          log = io_wait (outb PIC1_DATA ICW4_8086 log);
          log = io_wait (outb PIC2_DATA ICW4_8086 log);
          log = outb PIC1_DATA 0 log
      in outb PIC2_DATA 0 log)"

definition PIC_disable :: "io_log \<Rightarrow> io_log" where
  "PIC_disable log = outb PIC2_DATA 0xff (outb PIC1_DATA 0xff log)"

text \<open>\<open>1 << IRQline\<close> is an \<open>int\<close> shift: undefined from line 8 + 32 on (and for 8 + 31, which overflows).\<close>

definition irq_port :: "u8 \<Rightarrow> u16 \<times> u8" where
  "irq_port line = (if line < 8 then (PIC1_DATA, line) else (PIC2_DATA, line - 8))"

definition c_int_bit :: "u8 \<Rightarrow> u32 option" where
  "c_int_bit n = (if unat n < 31 then Some (push_bit (unat n) 1) else None)"

definition IRQ_set_mask :: "devices \<Rightarrow> u8 \<Rightarrow> io_log \<Rightarrow> io_log option" where
  "IRQ_set_mask dev line log =
     (let (port, line) = irq_port line; (v, log) = inb dev port log in
      do { b \<leftarrow> c_int_bit line; Some (outb port (ucast (ucast v OR b)) log) })"

definition IRQ_clear_mask :: "devices \<Rightarrow> u8 \<Rightarrow> io_log \<Rightarrow> io_log option" where
  "IRQ_clear_mask dev line log =
     (let (port, line) = irq_port line; (v, log) = inb dev port log in
      do { b \<leftarrow> c_int_bit line; Some (outb port (ucast (ucast v AND NOT b)) log) })"

definition pic_get_irq_reg :: "devices \<Rightarrow> u8 \<Rightarrow> io_log \<Rightarrow> u16 \<times> io_log" where
  "pic_get_irq_reg dev ocw3 log =
     (let log = outb PIC2_COMMAND ocw3 (outb PIC1_COMMAND ocw3 log);
          (hi, log) = inb dev PIC2_COMMAND log;
          (lo, log) = inb dev PIC1_COMMAND log
      in (push_bit 8 (ucast hi) OR ucast lo, log))"

definition pic_get_irr :: "devices \<Rightarrow> io_log \<Rightarrow> u16 \<times> io_log" where
  "pic_get_irr dev log = pic_get_irq_reg dev PIC_READ_IRR log"

definition pic_get_isr :: "devices \<Rightarrow> io_log \<Rightarrow> u16 \<times> io_log" where
  "pic_get_isr dev log = pic_get_irq_reg dev PIC_READ_ISR log"

section \<open>The timer\<close>

definition PIT_CHANNEL0_DATA :: u16 where "PIT_CHANNEL0_DATA = 0x40"
definition PIT_COMMAND_REG :: u16 where "PIT_COMMAND_REG = 0x43"
definition PIT_BASE_FREQ :: u32 where "PIT_BASE_FREQ = 1193182"

definition init_pit :: "u32 \<Rightarrow> io_log \<Rightarrow> io_log option" where
  "init_pit frequency_hz log =
     (if frequency_hz = 0 then None
      else let divisor = PIT_BASE_FREQ div frequency_hz;
               divisor = (if divisor > 0xFFFF then 0xFFFF else divisor);
               divisor = (if divisor = 0 then 1 else divisor);
               log = outb PIT_COMMAND_REG 0x36 log;
               log = outb PIT_CHANNEL0_DATA (ucast (divisor AND 0xFF)) log
           in Some (outb PIT_CHANNEL0_DATA (ucast (drop_bit 8 divisor AND 0xFF)) log))"

section \<open>The devices behind the ports\<close>

text \<open>
  One 8259 controller, as its data sheet describes it.  A command with bit 4 set is \<open>ICW1\<close>: it starts
  the initialisation and clears the mask; its bit 0 (IC4) announces an \<open>ICW4\<close>, and when it is clear all
  functions of \<open>ICW4\<close> are reset; its bit 1 (SNGL) says that there is no other controller, so no \<open>ICW3\<close>;
  its bit 3 (LTIM) selects level triggering.  The words that follow on the data port are \<open>ICW2\<close>, then
  \<open>ICW3\<close> (cascade) unless single, then \<open>ICW4\<close> if announced, with the 8086 mode in bit 0 and the automatic
  end of interrupt in bit 1.  Afterwards the data port is the interrupt mask, and \<open>OCW2\<close> 0x20 on the
  command port is the end of interrupt.
\<close>

datatype pic_phase = Ready | Expect_ICW2 | Expect_ICW3 | Expect_ICW4

record pic =
  phase :: pic_phase
  needs_icw4 :: bool
  single :: bool
  level_triggered :: bool
  icw2 :: u8
  cascade :: u8
  mode_8086 :: bool
  auto_eoi :: bool
  mask_reg :: u8
  eois :: nat

definition pic_reset :: pic where
  "pic_reset = \<lparr>phase = Ready, needs_icw4 = False, single = False, level_triggered = False, icw2 = 0, cascade = 0,
     mode_8086 = False, auto_eoi = False, mask_reg = 0, eois = 0\<rparr>"

definition pic_command :: "u8 \<Rightarrow> pic \<Rightarrow> pic" where
  "pic_command v p = (if bit v 4
     then p\<lparr>phase := Expect_ICW2, needs_icw4 := bit v 0, single := bit v 1, level_triggered := bit v 3, mask_reg := 0,
       mode_8086 := bit v 0 \<and> mode_8086 p, auto_eoi := bit v 0 \<and> auto_eoi p\<rparr>
     else if v = 0x20 then p\<lparr>eois := eois p + 1\<rparr> else p)"

definition pic_data :: "u8 \<Rightarrow> pic \<Rightarrow> pic" where
  "pic_data v p = (case phase p of
       Ready \<Rightarrow> p\<lparr>mask_reg := v\<rparr>
     | Expect_ICW2 \<Rightarrow> p\<lparr>icw2 := v, phase := (if \<not> single p then Expect_ICW3 else if needs_icw4 p then Expect_ICW4 else Ready)\<rparr>
     | Expect_ICW3 \<Rightarrow> p\<lparr>cascade := v, phase := (if needs_icw4 p then Expect_ICW4 else Ready)\<rparr>
     | Expect_ICW4 \<Rightarrow> p\<lparr>mode_8086 := bit v 0, auto_eoi := bit v 1, phase := Ready\<rparr>)"

text \<open>
  The vector an initialised controller puts on the bus for one of its lines: in 8086 mode the upper
  five bits of \<open>ICW2\<close> and the number of the line.  In the other mode it sends a call instruction of
  the 8085, and no vector.
\<close>

definition pic_vector :: "pic \<Rightarrow> nat \<Rightarrow> u8 option" where
  "pic_vector p line = (if phase p = Ready \<and> mode_8086 p then Some ((icw2 p AND 0xF8) OR of_nat line) else None)"

text \<open>
  The bus hands a wide output to 8-bit devices byte by byte, at consecutive ports, low byte first.
\<close>

fun bus_writes :: "io_event \<Rightarrow> (u16 \<times> u8) list" where
  "bus_writes (Out port v) = [(port, v)]"
| "bus_writes (Out16 port v) = [(port, ucast v), (port + 1, ucast (drop_bit 8 v))]"
| "bus_writes (Out32 port v) = [(port, ucast v), (port + 1, ucast (drop_bit 8 v)),
     (port + 2, ucast (drop_bit 16 v)), (port + 3, ucast (drop_bit 24 v))]"
| "bus_writes _ = []"

text \<open>A controller at command port \<open>c\<close>, after a history of accesses.\<close>

definition pic_write :: "u16 \<Rightarrow> pic \<Rightarrow> u16 \<times> u8 \<Rightarrow> pic" where
  "pic_write c p = (\<lambda>(port, v). if port = c then pic_command v p else if port = c + 1 then pic_data v p else p)"

definition pic_event :: "u16 \<Rightarrow> pic \<Rightarrow> io_event \<Rightarrow> pic" where
  "pic_event c p e = foldl (pic_write c) p (bus_writes e)"

definition pic_after :: "u16 \<Rightarrow> io_log \<Rightarrow> pic" where
  "pic_after c log = foldl (pic_event c) pic_reset log"

lemma pic_after_out: "pic_after c (outb port v log) =
    (if port = c then pic_command v (pic_after c log) else if port = c + 1 then pic_data v (pic_after c log) else pic_after c log)"
  by (simp add: pic_after_def outb_def pic_event_def pic_write_def)

text \<open>A 16-bit output is for an 8-bit device the same as two 8-bit outputs, a 32-bit one as two of 16 bits.\<close>

lemma pic_after_outw:
  "pic_after c (outw port v log) = pic_after c (outb (port + 1) (ucast (drop_bit 8 v)) (outb port (ucast v) log))"
  by (simp add: pic_after_def outb_def outw_def pic_event_def)

lemma pic_after_outl:
  "pic_after c (outl port v log) = pic_after c (outw (port + 2) (ucast (drop_bit 16 v)) (outw port (ucast v) log))"
proof -
  have "(ucast (drop_bit 8 (ucast w :: u16)) :: u8) = ucast (drop_bit 8 w)" "(ucast (ucast w :: u16) :: u8) = ucast w" for w :: u32
    by (rule bit_word_eqI, simp add: bit_simps)+
  then show ?thesis by (simp add: pic_after_def outw_def outl_def pic_event_def add.commute)
qed

lemma pic_after_in [simp]: "pic_after c (log @ [In port v]) = pic_after c log"
  by (simp add: pic_after_def pic_event_def)

lemma pic_after_wait [simp]: "c \<in> {PIC1_COMMAND, PIC2_COMMAND} \<Longrightarrow> pic_after c (io_wait log) = pic_after c log"
  by (auto simp: io_wait_def pic_after_out pic_consts)

text \<open>What the driver relies on when it reads the data ports: they show the mask.\<close>

locale pic_devices =
  fixes dev :: devices
  assumes read_mask1: "phase (pic_after 0x20 log) = Ready \<Longrightarrow> dev log 0x21 = mask_reg (pic_after 0x20 log)"
    and read_mask2: "phase (pic_after 0xA0 log) = Ready \<Longrightarrow> dev log 0xA1 = mask_reg (pic_after 0xA0 log)"
begin

lemma mask_of_port:
  assumes "phase (pic_after 0x20 log) = Ready" "phase (pic_after 0xA0 log) = Ready"
  shows "dev log (fst (irq_port line)) = mask_reg (pic_after (fst (irq_port line) - 1) log)"
  using read_mask1 [OF assms(1)] read_mask2 [OF assms(2)] by (simp add: irq_port_def pic_consts)

end

definition pic_machine :: devices where
  "pic_machine log port = (if port = 0x21 then mask_reg (pic_after 0x20 log)
     else if port = 0xA1 then mask_reg (pic_after 0xA0 log) else 0)"

interpretation pics: pic_devices pic_machine
  by unfold_locales (simp_all add: pic_machine_def)


section \<open>Properties\<close>

text \<open>An initialised controller as the kernel wants it, and the vectors of its lines.\<close>

definition pic_initialised :: "pic \<Rightarrow> bool" where
  "pic_initialised p \<longleftrightarrow> phase p = Ready \<and> mode_8086 p \<and> \<not> single p \<and> \<not> level_triggered p \<and> \<not> auto_eoi p \<and> mask_reg p = 0"

lemma vector_above_offset:
  assumes "n < 8"
  shows "(ucast (offset :: u32) AND 0xF8) OR of_nat n = (of_nat (8 * (unat offset div 8) + n) :: u8)"
proof -
  have b: "bit (0xF8 :: u8) i \<longleftrightarrow> 3 \<le> i \<and> i < 8" for i
    by (auto simp: bit_numeral_rec bit_1_iff numeral_eq_Suc split: nat.splits)
  have u: "unat (of_nat n :: u8) = take_bit 3 n" using assms by (simp add: unsigned_of_nat take_bit_nat_eq_self)
  have "\<not> bit (of_nat n :: u8) i" if "3 \<le> i" for i
  proof -
    have "bit (unat (of_nat n :: u8)) i \<longleftrightarrow> bit (of_nat n :: u8) i" by (simp only: bit_unsigned_iff) simp
    then show ?thesis using that unfolding u by (simp add: bit_take_bit_iff)
  qed
  then have "(ucast offset AND 0xF8 :: u8) AND of_nat n = 0"
    by (intro bit_word_eqI) (simp only: bit_and_iff b, auto)
  then have o: "(ucast offset AND 0xF8 :: u8) OR of_nat n = (ucast offset AND 0xF8) + of_nat n" by (rule disjunctive_add_eq_or [symmetric])
  have "ucast offset AND 0xF8 = (ucast (push_bit 3 (drop_bit 3 offset)) :: u8)"
    by (rule bit_word_eqI) (simp only: bit_and_iff b, auto simp: bit_simps)
  also have "\<dots> = of_nat (unat (push_bit 3 (drop_bit 3 offset)))" by simp
  also have "unat (push_bit 3 (drop_bit 3 offset)) = 8 * (unat offset div 8)"
  proof -
    have "8 * (unat offset div 8) \<le> unat offset" by simp
    also have "\<dots> < 2 ^ 32" using unsigned_less [of offset] by simp
    finally show ?thesis by (simp add: push_bit_eq_mult drop_bit_eq_div unat_word_ariths unat_div mult.commute)
  qed
  finally show ?thesis unfolding o by (simp only: of_nat_add)
qed

text \<open>
  C29. \<open>PIC_remap\<close> initialises both controllers completely, whatever happened on the ports before:
  neither waits for further initialisation words, both are in 8086 mode, edge triggered, without
  automatic end of interrupt and with all lines unmasked, and they are cascaded with the slave on
  line 2 of the master.  Line \<open>n\<close> of a controller then interrupts with the vector \<open>n\<close> above the
  requested offset (modulo 256) rounded down to a multiple of 8, the low three bits having no
  effect; for an offset that is a multiple of 8 it is exactly the offset plus \<open>n\<close>.
\<close>

theorem PIC_remap_programs:
  "(let m = pic_after PIC1_COMMAND (PIC_remap offset1 offset2 log); s = pic_after PIC2_COMMAND (PIC_remap offset1 offset2 log) in
    pic_initialised m \<and> cascade m = 0x04 \<and> pic_initialised s \<and> cascade s = 0x02 \<and>
    (\<forall>n<8. pic_vector m n = Some (of_nat (8 * (unat offset1 div 8) + n)) \<and>
       pic_vector s n = Some (of_nat (8 * (unat offset2 div 8) + n))))"
  unfolding Let_def pic_vector_def pic_initialised_def
  by (simp add: PIC_remap_def Let_def io_wait_def pic_after_out pic_command_def pic_data_def pic_consts vector_above_offset)

theorem PIC_remap_programs_witness:
  "pic_vector (pic_after PIC1_COMMAND (PIC_remap 0x20 0x2F [])) 0 = Some 0x20 \<and>
   pic_vector (pic_after PIC2_COMMAND (PIC_remap 0x20 0x2F [])) 7 = Some 0x2F"
  using PIC_remap_programs [of "0x20" "0x2F" "[]"] by (simp add: Let_def)

lemma bit_set_byte: "n < 8 \<Longrightarrow> (ucast (ucast (v :: u8) OR push_bit n (1 :: u32)) :: u8) = v OR push_bit n 1"
  by (rule bit_word_eqI) (auto simp: bit_simps)

lemma bit_clear_byte: "n < 8 \<Longrightarrow> (ucast (ucast (v :: u8) AND NOT (push_bit n (1 :: u32))) :: u8) = v AND NOT (push_bit n 1)"
  by (rule bit_word_eqI) (auto simp: bit_simps)

lemmas byte_bits = bit_set_byte [unfolded push_bit_of_1] bit_clear_byte [unfolded push_bit_of_1]

lemma irq_port_cases:
  assumes "line < 16"
  obtains c n where "irq_port line = (c + 1, n)" "c \<in> {0x20, 0xA0}" "n < 8" "c = (if line < 8 then 0x20 else 0xA0)"
    "unat n = unat line mod 8"
proof (cases "line < 8")
  case True
  then show thesis using that [of "0x20" line] by (simp add: irq_port_def pic_consts word_less_nat_alt)
next
  case False
  have "unat line < 16" "8 \<le> unat line" using assms False by (simp_all add: word_less_nat_alt)
  then have "unat (line - 8) = unat line - 8" by (simp add: unat_sub_if')
  then show thesis using that [of "0xA0" "line - 8"] False \<open>unat line < 16\<close> \<open>8 \<le> unat line\<close>
    by (simp add: irq_port_def pic_consts word_less_nat_alt mod_if)
qed

text \<open>
  C30. Masking and unmasking a line, on controllers whose data port shows the mask: \<open>IRQ_set_mask\<close> sets
  exactly the bit of that line in the mask of its controller, \<open>IRQ_clear_mask\<close> clears exactly that
  bit, and the other controller keeps its mask.
\<close>

theorem IRQ_mask_one_line:
  assumes "pic_devices dev" "line < 16" "phase (pic_after 0x20 log) = Ready" "phase (pic_after 0xA0 log) = Ready"
  shows "\<exists>log1 log2. IRQ_set_mask dev line log = Some log1 \<and> IRQ_clear_mask dev line log = Some log2 \<and>
    (let c = (if line < 8 then 0x20 else 0xA0); d = (if line < 8 then 0xA0 else 0x20); b = push_bit (unat line mod 8) 1 in
      mask_reg (pic_after c log1) = mask_reg (pic_after c log) OR b \<and> pic_after d log1 = pic_after d log \<and>
      mask_reg (pic_after c log2) = mask_reg (pic_after c log) AND NOT b \<and> pic_after d log2 = pic_after d log)"
proof -
  obtain c n where c: "irq_port line = (c + 1, n)" "c \<in> {0x20, 0xA0}" "n < 8" "c = (if line < 8 then 0x20 else 0xA0)"
    "unat n = unat line mod 8" using irq_port_cases [OF assms(2)] .
  have v: "dev log (c + 1) = mask_reg (pic_after c log)"
    using pic_devices.mask_of_port [OF assms(1,3,4), of line] c(1) by simp
  have n: "unat n < 8" using c(3) by (simp add: word_less_nat_alt)
  let ?v = "mask_reg (pic_after c log)"
  have s: "IRQ_set_mask dev line log = Some (outb (c + 1) (?v OR push_bit (unat n) 1) (log @ [In (c + 1) ?v]))"
    using c(1) v n by (simp add: IRQ_set_mask_def inb_def Let_def c_int_bit_def byte_bits)
  have r: "IRQ_clear_mask dev line log = Some (outb (c + 1) (?v AND NOT (push_bit (unat n) 1)) (log @ [In (c + 1) ?v]))"
    using c(1) v n by (simp add: IRQ_clear_mask_def inb_def Let_def c_int_bit_def byte_bits)
  show ?thesis
    using s r assms(3,4) c(2,4,5) by (auto simp: Let_def pic_after_out pic_data_def)
qed

theorem IRQ_mask_one_line_witness:
  "\<exists>log1. IRQ_set_mask pic_machine 9 (PIC_remap 0x20 0x28 []) = Some log1 \<and> mask_reg (pic_after 0xA0 log1) = 2 \<and>
     mask_reg (pic_after 0x20 log1) = 0"
proof -
  have r: "phase (pic_after 0x20 (PIC_remap 0x20 0x28 [])) = Ready" "phase (pic_after 0xA0 (PIC_remap 0x20 0x28 [])) = Ready"
    "mask_reg (pic_after 0x20 (PIC_remap 0x20 0x28 [])) = 0" "mask_reg (pic_after 0xA0 (PIC_remap 0x20 0x28 [])) = 0"
    by (simp_all add: PIC_remap_def Let_def io_wait_def pic_after_out pic_command_def pic_data_def pic_consts)
  show ?thesis using IRQ_mask_one_line [OF pics.pic_devices_axioms _ r(1,2), of 9] r(3,4) by (auto simp: Let_def)
qed

text \<open>
  C31. \<open>init_pit\<close> sends a divisor between 1 and 65535, low byte first, whose two bytes make up the
  quotient of the base frequency clamped to that range; a frequency of 0 divides by zero.
\<close>

theorem init_pit_divisor:
  "init_pit f log = (if f = 0 then None
     else let d = max 1 (min 65535 (1193182 div unat f)) in
       Some (log @ [Out 0x43 0x36, Out 0x40 (of_nat (d mod 256)), Out 0x40 (of_nat (d div 256))]))"
proof (cases "f = 0")
  case True
  then show ?thesis by (simp add: init_pit_def)
next
  case False
  let ?q = "PIT_BASE_FREQ div f"
  define w :: u32 where "w = (if (if ?q > 0xFFFF then 0xFFFF else ?q) = 0 then 1 else (if ?q > 0xFFFF then 0xFFFF else ?q))"
  let ?d = "max 1 (min 65535 (1193182 div unat f))"
  have q: "unat ?q = 1193182 div unat f" by (simp add: unat_div PIT_BASE_FREQ_def)
  have z: "?q = 0 \<longleftrightarrow> 1193182 div unat f = 0" using q by (metis unat_eq_zero)
  have w: "unat w = ?d" unfolding w_def using q z by (auto simp: word_less_nat_alt max_def min_def)
  have b: "(ucast (w AND 0xFF) :: u8) = of_nat (?d mod 256)" "(ucast (drop_bit 8 w AND 0xFF) :: u8) = of_nat (?d div 256)"
  proof -
    have d256: "?d div 256 < 256" by (simp add: div_less_iff_less_mult)
    have of_nat_unat_id: "of_nat (unat x) = x" for x :: u8 by simp
    have "w AND 0xFF = take_bit 8 w" "drop_bit 8 w AND 0xFF = take_bit 8 (drop_bit 8 w)"
      by (simp_all add: take_bit_eq_mask mask_eq_exp_minus_1)
    moreover have "unat (ucast (take_bit 8 w) :: u8) = ?d mod 256"
      unfolding unsigned_ucast_eq unsigned_take_bit_eq w by (simp add: take_bit_eq_mod)
    moreover have "unat (ucast (take_bit 8 (drop_bit 8 w)) :: u8) = (?d div 256) mod 256"
      unfolding unsigned_ucast_eq unsigned_take_bit_eq unsigned_drop_bit_eq w by (simp add: take_bit_eq_mod drop_bit_eq_div)
    ultimately show "(ucast (w AND 0xFF) :: u8) = of_nat (?d mod 256)" "(ucast (drop_bit 8 w AND 0xFF) :: u8) = of_nat (?d div 256)"
      by (metis of_nat_unat_id mod_less d256)+
  qed
  have "init_pit f log = Some (outb 0x40 (ucast (drop_bit 8 w AND 0xFF)) (outb 0x40 (ucast (w AND 0xFF)) (outb 0x43 0x36 log)))"
    using False by (simp add: init_pit_def Let_def w_def PIT_COMMAND_REG_def PIT_CHANNEL0_DATA_def)
  then show ?thesis using False b by (simp add: outb_def Let_def)
qed

end
