(* ===== verification/Local_APIC.thy ===== *)
theory Local_APIC
  imports VMM_Properties Heap_Model
begin

text \<open>
  The local interrupt controller, \<open>src/kernel/src/system/interrupt/APIC/apic.c\<close>, with the model-specific
  registers of \<open>src/kernel/src/system/cpu/msr.c\<close>.  Its registers are a page of device memory, mapped
  by the paging code at its direct-map address.
\<close>

section \<open>State\<close>

text \<open>
  The state extends that of the heap.  \<open>msrs\<close> are the model-specific registers, low and high half; \<open>mmio\<close> is the history of stores to
  device registers.  What \<open>cpuid\<close> returns and what a load from a device register returns are up to
  the hardware, hence arguments.
\<close>

record apic_state = heap_state +
  msrs :: "u32 \<Rightarrow> u32 \<times> u32"
  g_virt_apic :: u64
  mmio :: "(u64 \<times> u32) list"

type_synonym mmio_device = "(u64 \<times> u32) list \<Rightarrow> u64 \<Rightarrow> u32"

text \<open>
  An access to the register at \<open>offset\<close> of the device at \<open>base\<close>.  With base 0, no device is mapped
  there (the global pointers to devices are 0 until the device is set up), and the access is an
  error.
\<close>

definition mmio_write :: "u64 \<Rightarrow> u64 \<Rightarrow> u32 \<Rightarrow> 'a apic_state_scheme \<Rightarrow> 'a apic_state_scheme option" where
  "mmio_write base offset v s = (if base = NULL then None else Some (s\<lparr>mmio := mmio s @ [(base + offset, v)]\<rparr>))"

definition mmio_read :: "mmio_device \<Rightarrow> u64 \<Rightarrow> u64 \<Rightarrow> 'a apic_state_scheme \<Rightarrow> u32 option" where
  "mmio_read dev base offset s = (if base = NULL then None else Some (dev (mmio s) (base + offset)))"

section \<open>Processor registers\<close>

definition CPUID_FLAG_MSR :: u32 where "CPUID_FLAG_MSR = push_bit 5 1"
definition CPUID_FEAT_EDX_APIC :: u32 where "CPUID_FEAT_EDX_APIC = push_bit 9 1"

text \<open>\<open>cpuid\<close> gives the registers \<open>eax\<close> and \<open>edx\<close> for a request.\<close>

definition cpuHasMSR :: "(u32 \<Rightarrow> u32 \<times> u32) \<Rightarrow> bool" where
  "cpuHasMSR cpuid = (let (a, d) = cpuid 1 in d AND CPUID_FLAG_MSR \<noteq> 0)"

text \<open>\<open>get_model\<close> of \<open>cpuid.c\<close>: the register \<open>ebx\<close> of request 0, as an \<open>int\<close>.\<close>

definition get_model :: "(u32 \<Rightarrow> u32) \<Rightarrow> int" where
  "get_model cpuid_ebx = sint (cpuid_ebx 0)"

definition cpuGetMSR :: "u32 \<Rightarrow> 'a apic_state_scheme \<Rightarrow> u32 \<times> u32" where
  "cpuGetMSR msr s = msrs s msr"

definition cpuSetMSR :: "u32 \<Rightarrow> u32 \<Rightarrow> u32 \<Rightarrow> 'a apic_state_scheme \<Rightarrow> 'a apic_state_scheme" where
  "cpuSetMSR msr lo hi s = s\<lparr>msrs := (msrs s)(msr := (lo, hi))\<rparr>"

section \<open>The local interrupt controller\<close>

definition IA32_APIC_BASE_MSR :: u32 where "IA32_APIC_BASE_MSR = 0x1B"
definition IA32_APIC_BASE_MSR_BSP :: u32 where "IA32_APIC_BASE_MSR_BSP = 0x100"
definition IA32_APIC_BASE_MSR_ENABLE :: u32 where "IA32_APIC_BASE_MSR_ENABLE = 0x800"

definition check_apic :: "(u32 \<Rightarrow> u32 \<times> u32) \<Rightarrow> bool" where
  "check_apic cpuid = (let (eax, edx) = cpuid 1 in edx AND CPUID_FEAT_EDX_APIC \<noteq> 0)"

definition cpu_set_apic_base :: "u64 \<Rightarrow> 'a apic_state_scheme \<Rightarrow> 'a apic_state_scheme" where
  "cpu_set_apic_base apic s =
     (let eax = ucast ((apic AND 0xfffff000) OR ucast IA32_APIC_BASE_MSR_ENABLE);
          edx = ucast (drop_bit 32 apic AND 0x0f)
      in cpuSetMSR IA32_APIC_BASE_MSR eax edx s)"

text \<open>
  \<open>(edx & 0x0f) << 32\<close> shifts a 32-bit operand by 32.  \<open>shl\<close> is what the compiler makes of such a
  shift: \<open>c_shl32\<close> for the letter of the language, by which it is undefined, or \<open>x86_shl32\<close> for the
  instruction of the processor, which takes the count modulo 32.
\<close>

definition x86_shl32 :: "u32 \<Rightarrow> nat \<Rightarrow> u32 option" where
  "x86_shl32 x n = Some (push_bit (n mod 32) x)"


definition cpu_get_apic_base :: "(u32 \<Rightarrow> nat \<Rightarrow> u32 option) \<Rightarrow> 'a apic_state_scheme \<Rightarrow> u64 option" where
  "cpu_get_apic_base shl s =
     (let (eax, edx) = cpuGetMSR IA32_APIC_BASE_MSR s in
      do { hi \<leftarrow> shl (edx AND 0x0f) 32; Some (ucast ((eax AND 0xfffff000) OR hi)) })"

definition enable_apic :: "(u32 \<Rightarrow> nat \<Rightarrow> u32 option) \<Rightarrow> 'a apic_state_scheme \<Rightarrow> 'a apic_state_scheme option" where
  "enable_apic shl s =
     do { base \<leftarrow> cpu_get_apic_base shl s;
          let s = cpu_set_apic_base base s;
          apic_phys \<leftarrow> cpu_get_apic_base shl s;
          let s = s\<lparr>g_virt_apic := phy_to_virt apic_phys s\<rparr>;
          (ok, s) \<leftarrow> vmm_map (g_virt_apic s) apic_phys (PAGE_PRESENT OR PAGE_WRITABLE OR PAGE_PCD) s;
          mmio_write (g_virt_apic s) 0xF0 (0x100 OR 255) s }"

definition disable_apic :: "(u32 \<Rightarrow> nat \<Rightarrow> u32 option) \<Rightarrow> mmio_device \<Rightarrow> 'a apic_state_scheme \<Rightarrow> 'a apic_state_scheme option" where
  "disable_apic shl dev s =
     do { apic_phys \<leftarrow> cpu_get_apic_base shl s;
          let apic_virt = phy_to_virt apic_phys s;
          (ok, s) \<leftarrow> vmm_map apic_virt apic_phys (PAGE_PRESENT OR PAGE_WRITABLE OR PAGE_PCD) s;
          v \<leftarrow> mmio_read dev apic_virt 0xF0 s;
          mmio_write apic_virt 0xF0 (v AND NOT 0x100) s }"

definition write_lapic_register :: "u64 \<Rightarrow> u32 \<Rightarrow> u32 \<Rightarrow> 'a apic_state_scheme \<Rightarrow> 'a apic_state_scheme option" where
  "write_lapic_register lapic_base offset val s = mmio_write lapic_base (ucast offset) val s"

definition read_lapic_register :: "mmio_device \<Rightarrow> u64 \<Rightarrow> u32 \<Rightarrow> 'a apic_state_scheme \<Rightarrow> u32 option" where
  "read_lapic_register dev lapic_base offset s = mmio_read dev lapic_base (ucast offset) s"

definition APIC_EOI :: "'a apic_state_scheme \<Rightarrow> 'a apic_state_scheme option" where
  "APIC_EOI s = write_lapic_register (g_virt_apic s) 0xB0 0 s"

section \<open>Paging leaves the controller alone\<close>

lemma apic_fields:
  assumes "machine.more s' = machine.more (s :: 'a apic_state_scheme)"
  shows "msrs s' = msrs s" "g_virt_apic s' = g_virt_apic s" "mmio s' = mmio s" "heap_caches s' = heap_caches s"
    "apic_state.more s' = apic_state.more s"
  using assms by (cases s; cases s'; simp)+

lemma paging_apic [simp]:
  "paging_ok I (s\<lparr>msrs := x\<rparr>) \<longleftrightarrow> paging_ok I s" "paging_ok I (s\<lparr>g_virt_apic := g\<rparr>) \<longleftrightarrow> paging_ok I s"
  "paging_ok I (s\<lparr>mmio := l\<rparr>) \<longleftrightarrow> paging_ok I s"
  by (simp_all add: paging_ok_def pt_root_def)

lemma get_phys_apic [simp]:
  "vmm_get_phys v (s\<lparr>msrs := x\<rparr>) = vmm_get_phys v s" "vmm_get_phys v (s\<lparr>g_virt_apic := g\<rparr>) = vmm_get_phys v s"
  "vmm_get_phys v (s\<lparr>mmio := l\<rparr>) = vmm_get_phys v s"
  by (simp_all add: vmm_get_phys_def vmm_get_existing_level_def read64_def phy_to_virt_def read_cr3_def Let_def cong: option.case_cong)

section \<open>Enabling the controller\<close>

text \<open>The base address the register holds below 4 GiB.\<close>

definition apic_base :: "'a apic_state_scheme \<Rightarrow> u64" where
  "apic_base s = ucast (fst (msrs s IA32_APIC_BASE_MSR) AND 0xfffff000)"

lemma and_fffff000: "bit (x AND 0xfffff000 :: u32) i \<longleftrightarrow> 12 \<le> i \<and> bit x i"
proof -
  have eq: "(0xfffff000 :: u32) = push_bit 12 (mask 20)" by (simp add: mask_eq_exp_minus_1 push_bit_eq_mult)
  show ?thesis unfolding eq by (auto simp: bit_simps dest: bit_imp_le_length)
qed

lemma and_fffff000_64: "bit (x AND 0xfffff000 :: u64) i \<longleftrightarrow> 12 \<le> i \<and> i < 32 \<and> bit x i"
proof -
  have eq: "(0xfffff000 :: u64) = push_bit 12 (mask 20)" by (simp add: mask_eq_exp_minus_1 push_bit_eq_mult)
  show ?thesis unfolding eq by (auto simp: bit_simps)
qed

definition apic_enabled :: "'a apic_state_scheme \<Rightarrow> bool" where
  "apic_enabled s \<longleftrightarrow> bit (fst (msrs s IA32_APIC_BASE_MSR)) 11"

text \<open>
  The register page is below 4 GiB, where it is after reset: the operand of the shift is then 0.
  Any code for the shift that leaves 0 as it is will do: the instruction, or a constant 0.
\<close>

definition apic_low :: "'a apic_state_scheme \<Rightarrow> bool" where
  "apic_low s \<longleftrightarrow> snd (msrs s IA32_APIC_BASE_MSR) AND 0x0f = 0"

lemma x86_shl32_zero: "x86_shl32 0 n = Some 0"
  by (simp add: x86_shl32_def)

lemma get_base_low: "apic_low s \<Longrightarrow> shl 0 32 = Some 0 \<Longrightarrow> cpu_get_apic_base shl s = Some (apic_base s)"
  by (cases "msrs s IA32_APIC_BASE_MSR") (simp add: cpu_get_apic_base_def cpuGetMSR_def apic_base_def apic_low_def)

lemma apic_base_bits: "bit (apic_base s) i \<longleftrightarrow> 12 \<le> i \<and> bit (fst (msrs s IA32_APIC_BASE_MSR)) i"
  unfolding apic_base_def by (auto simp: bit_unsigned_iff and_fffff000 dest: bit_imp_le_length)

lemma set_base:
  assumes "\<forall>i. bit a i \<longrightarrow> 12 \<le> i \<and> i < 32"
  shows "apic_base (cpu_set_apic_base a s) = a" "apic_enabled (cpu_set_apic_base a s)"
    "snd (msrs (cpu_set_apic_base a s) IA32_APIC_BASE_MSR) = 0"
    "\<not> bit (fst (msrs (cpu_set_apic_base a s) IA32_APIC_BASE_MSR)) 8"
proof -
  have e: "bit IA32_APIC_BASE_MSR_ENABLE i \<longleftrightarrow> i = 11" for i
    using bit_push_bit_iff [of 11 "1 :: u32" i] by (auto simp: bit_1_iff IA32_APIC_BASE_MSR_ENABLE_def)
  have a: "a AND 0xfffff000 = a" by (rule bit_word_eqI) (use assms in \<open>auto simp: and_fffff000_64\<close>)
  have f: "bit (fst (msrs (cpu_set_apic_base a s) IA32_APIC_BASE_MSR)) i \<longleftrightarrow> bit a i \<or> i = 11" for i
    using assms by (auto simp: cpu_set_apic_base_def cpuSetMSR_def Let_def a bit_unsigned_iff bit_or_iff e)
  show "apic_base (cpu_set_apic_base a s) = a"
    by (rule bit_word_eqI) (use assms in \<open>auto simp: apic_base_bits f\<close>)
  show "apic_enabled (cpu_set_apic_base a s)" by (simp add: apic_enabled_def f)
  show "\<not> bit (fst (msrs (cpu_set_apic_base a s) IA32_APIC_BASE_MSR)) 8" using assms by (auto simp: f)
  have "drop_bit 32 a = 0" by (rule bit_word_eqI) (use assms in \<open>auto simp: bit_simps\<close>)
  then show "snd (msrs (cpu_set_apic_base a s) IA32_APIC_BASE_MSR) = 0" by (simp add: cpu_set_apic_base_def cpuSetMSR_def)
qed


lemma page_offset_add:
  fixes a h :: u64
  assumes "\<forall>i. bit a i \<longrightarrow> 12 \<le> i \<and> i < 32" "h AND 0xFFF = 0"
  shows "(a + h) AND 0xFFF = 0"
proof -
  have m: "x AND 0xFFF = 0 \<longleftrightarrow> aligned x" for x :: u64
  proof -
    have "x AND 0xFFF = take_bit 12 x" by (simp add: take_bit_eq_mask mask_eq_exp_minus_1)
    moreover have "take_bit 12 x = 0 \<longleftrightarrow> (\<forall>i<12. \<not> bit x i)" by (auto simp: bit_eq_iff bit_simps dest: bit_imp_le_length)
    ultimately show ?thesis by (simp add: aligned_iff)
  qed
  have "aligned a" using assms(1) by (auto simp: aligned_iff not_le [symmetric])
  moreover have "aligned h" using assms(2) m by simp
  ultimately have "aligned (a + h)" by (simp add: unat_word_ariths dvd_mod)
  then show ?thesis by (simp add: m)
qed

lemma apic_base_cong:
  assumes "msrs s' = msrs s"
  shows "apic_base s' = apic_base s" "apic_enabled s' = apic_enabled s" "apic_low s' = apic_low s"
  using assms by (simp_all add: apic_base_def apic_enabled_def apic_low_def)

lemma enable_apic_correct:
  fixes s :: "'a apic_state_scheme"
  assumes ok: "paging_ok I s" and h: "hhdm s = Some h" and v: "PML4_INDEX (apic_base s + h) \<in> I" "apic_base s + h \<noteq> NULL" "h AND 0xFFF = 0"
    and free: "3 \<le> card (free_set (buddy s))" and shl: "apic_low s" "shl 0 32 = Some 0"
  obtains s' where "enable_apic shl s = Some s'" "paging_ok I s'" "hhdm s' = Some h"
    "apic_base s' = apic_base s" "apic_enabled s'" "g_virt_apic s' = apic_base s + h"
    "mmio s' = mmio s @ [(apic_base s + h + 0xF0, 0x1FF)]" "vmm_get_phys (apic_base s + h) s' = Some (apic_base s)"
    "\<And>w. PML4_INDEX w \<in> I \<Longrightarrow> va_path w \<noteq> va_path (apic_base s + h) \<Longrightarrow> vmm_get_phys w s' = vmm_get_phys w s"
    "\<And>x. x \<notin> vm_area I s \<Longrightarrow> mem s' x = mem s x" "card (free_set (buddy s)) \<le> card (free_set (buddy s')) + 3"
    "heap_caches s' = heap_caches s" "apic_state.more s' = apic_state.more s" "vm_area I s' \<subseteq> vm_area I s"
proof -
  let ?a = "apic_base s" and ?f = "PAGE_PRESENT OR PAGE_WRITABLE OR PAGE_PCD"
  let ?s1 = "cpu_set_apic_base ?a s"
  let ?s2 = "?s1\<lparr>g_virt_apic := ?a + h\<rparr>"
  have a: "\<forall>i. bit ?a i \<longrightarrow> 12 \<le> i \<and> i < 32" by (auto simp: apic_base_bits dest: bit_imp_le_length)
  note sb = set_base [OF a, of s]
  have s1: "hhdm ?s1 = Some h" "buddy ?s2 = buddy s" "mem ?s2 = mem s" "hhdm ?s2 = hhdm s" "cr3 ?s2 = cr3 s" "mmio ?s1 = mmio s"
    "heap_caches ?s2 = heap_caches s" "apic_state.more ?s2 = apic_state.more s"
    using h by (simp_all add: cpu_set_apic_base_def cpuSetMSR_def Let_def)
  have ok2: "paging_ok I ?s2" and f: "flags_ok ?f"
    using paging_cong [OF s1(2-5)] ok
    by (simp_all add: flags_ok_def PAGE_PRESENT_def PAGE_WRITABLE_def PAGE_PCD_def PAGE_ADDR_MASK_def)
  from ok2 v(1) show thesis
  proof (cases rule: vmm_map_cases [where p = ?a and f = ?f, case_names fail mapped])
    case (fail s3)
    then show ?thesis using free s1(2) by simp
  next
    case (mapped s3)
    let ?s4 = "invlpg_tlb (?a + h) s3"
    let ?s' = "?s4\<lparr>mmio := mmio s @ [(?a + h + 0xF0, 0x1FF)]\<rparr>"
    have "machine.more ?s4 = machine.more ?s2" using mapped(2) by (simp add: vm_step_def invlpg_tlb_def)
    note more = apic_fields [OF this]
    have m: "(?a AND PAGE_ADDR_MASK) OR ((?a + h) AND 0xFFF) = ?a"
    proof -
      have "?a AND PAGE_ADDR_MASK = ?a" by (rule bit_word_eqI) (use a in \<open>auto simp: bit_and_iff PAGE_ADDR_MASK_bits\<close>)
      moreover have "(?a + h) AND 0xFFF = 0" using page_offset_add a v(3) by blast
      ultimately show ?thesis by simp
    qed
    show thesis
    proof (rule that [of ?s'])
      have "apic_low ?s1" using sb(3) by (simp add: apic_low_def)
      then show "enable_apic shl s = Some ?s'"
        using mapped(1) more s1(1,6) sb(1) v(2) get_base_low [of s shl] get_base_low [of ?s1 shl] shl
        by (simp add: enable_apic_def phy_to_virt_def mmio_write_def)
      show "paging_ok I ?s'" using mapped(2) by (simp add: vm_step_def)
      show "hhdm ?s' = Some h" using mapped(2) s1(4) h by (simp add: vm_step_def invlpg_tlb_def)
      have mm: "msrs ?s' = msrs ?s1" using more(1) by simp
      show "apic_base ?s' = ?a" "apic_enabled ?s'" using sb(1,2) apic_base_cong [OF mm] by simp_all
      show "vmm_get_phys (?a + h) ?s' = Some ?a"
        using vmm.map_this [OF ok2 _ f mapped(1), of "?a + h"] v(1) m by (simp add: phys_target_def)
      show "vmm_get_phys w ?s' = vmm_get_phys w s" if "PML4_INDEX w \<in> I" "va_path w \<noteq> va_path (?a + h)" for w
        using vmm.map_other [OF ok2 _ mapped(1), of w] v(1) that get_phys_cong [OF s1(3-5), of w] by simp
      show "mem ?s' x = mem s x" if "x \<notin> vm_area I s" for x
        using mapped(2) that s1(3) vm_area_cong [OF s1(2-5), of I] by (auto simp: vm_step_def invlpg_tlb_def)
      show "vm_area I ?s' \<subseteq> vm_area I s"
        using mapped(2) vm_area_cong [OF s1(2-5), of I] vm_area_cong [of ?s' s3 I] by (auto simp: vm_step_def invlpg_tlb_def)
      show "card (free_set (buddy s)) \<le> card (free_set (buddy ?s')) + 3" using mapped(5) s1(2) by (simp add: invlpg_tlb_def)
    qed (use more s1 in simp_all)
  qed
qed

text \<open>
  \<open>enable_apic\<close>, with a register page below 4 GiB, a shift compiled so that 0 stays 0 and three free
  frames: it returns; the register page stays at the base address the
  register holds, its enable bit is set, \<open>g_virt_apic\<close> is the page's direct-map address and translates
  to that base address, every other page translates as before, and the spurious-interrupt register
  is written once.
\<close>

lemma enable_apic_maps:
  fixes s :: "'a apic_state_scheme"
  assumes "paging_ok I s" "hhdm s = Some h" "PML4_INDEX (apic_base s + h) \<in> I" "apic_base s + h \<noteq> NULL" "h AND 0xFFF = 0"
    and "3 \<le> card (free_set (buddy s))" "apic_low s" "shl 0 32 = Some 0"
  shows "\<exists>s'. enable_apic shl s = Some s' \<and> paging_ok I s' \<and>
    apic_base s' = apic_base s \<and> apic_enabled s' \<and> g_virt_apic s' = apic_base s + h \<and>
    mmio s' = mmio s @ [(apic_base s + h + 0xF0, 0x1FF)] \<and> vmm_get_phys (g_virt_apic s') s' = Some (apic_base s) \<and>
    (\<forall>w. PML4_INDEX w \<in> I \<and> va_path w \<noteq> va_path (g_virt_apic s') \<longrightarrow> vmm_get_phys w s' = vmm_get_phys w s)"
  using assms
proof (cases rule: enable_apic_correct [case_names on])
  case (on s')
  then show ?thesis by (intro exI [of _ s']) simp
qed

text \<open>A machine at the base address the register has after reset.\<close>

definition demo_apic :: apic_state where
  "demo_apic = \<lparr>buddy = demo_one, mem = demo_mem, hhdm = Some HH, cr3 = 0x5018, tlb_flushed = [],
     heap_caches = \<lambda>_. \<lparr>object_size = 0, partial_pages = 0\<rparr>, msrs = \<lambda>_. (0xFEE00900, 0), g_virt_apic = 0, mmio = []\<rparr>"

text \<open>
  By the letter of the language the shift \<open>(edx & 0x0f) << 32\<close> on a 32-bit operand is undefined, and
  with it every call of \<open>enable_apic\<close>.  The instruction of the processor takes the count modulo 32: for a
  register page above 4 GiB it would mix the high half into the low address bits.
\<close>

lemma enable_apic_undefined: "enable_apic c_shl32 s = None" "disable_apic c_shl32 dev s = None"
  by (simp_all add: enable_apic_def disable_apic_def cpu_get_apic_base_def c_shl32_def split: prod.splits)

lemma get_base_x86:
  "cpu_get_apic_base x86_shl32 s = Some (ucast ((fst (msrs s IA32_APIC_BASE_MSR) AND 0xfffff000) OR (snd (msrs s IA32_APIC_BASE_MSR) AND 0x0f)))"
  by (simp add: cpu_get_apic_base_def cpuGetMSR_def x86_shl32_def split: prod.splits)

end
