(* ===== verification/Interrupts.thy ===== *)
theory Interrupts
  imports Local_APIC
begin

text \<open>
  Interrupt dispatch, \<open>interrupt_handler\<close> and \<open>irq_handler\<close> of \<open>src/kernel/src/system/interrupt/idt.c\<close>, and
  the clock tick of \<open>src/kernel/src/system/interrupt/irq/pit.c\<close>: which interrupts are acknowledged, counted
  and fatal.
\<close>

section \<open>Interrupt dispatch\<close>

text \<open>The frame the assembly stubs build on the stack, in the order of the source.\<close>

record Registers =
  reg_ds :: u64
  reg_r15 :: u64
  reg_r14 :: u64
  reg_r13 :: u64
  reg_r12 :: u64
  reg_r11 :: u64
  reg_r10 :: u64
  reg_r9 :: u64
  reg_r8 :: u64
  reg_rbp :: u64
  reg_rdi :: u64
  reg_rsi :: u64
  reg_rdx :: u64
  reg_rcx :: u64
  reg_rbx :: u64
  reg_rax :: u64
  reg_vectors :: u64
  reg_errorcode :: u64
  reg_rip :: u64
  reg_cs :: u64
  reg_rflags :: u64
  reg_rsp :: u64
  reg_ss :: u64

text \<open>The names of the exceptions, by vector.\<close>

definition g_Exceptions :: "string list" where
  "g_Exceptions = [''Divide by zero error'', ''Debug'', ''Non-maskable Interrupt'', ''Breakpoint'', ''Overflow'',
     ''Bound Range Exceeded'', ''Invalid Opcode'', ''Device Not Available'', ''Double Fault'',
     ''Coprocessor Segment Overrun'', ''Invalid TSS'', ''Segment Not Present'', ''Stack-Segment Fault'',
     ''General Protection Fault'', ''Page Fault'', ''Reserved'', ''x87 Floating-Point Exception'',
     ''Alignment Check'', ''Machine Check'', ''SIMD Floating-Point Exception'', ''Virtualization Exception'',
     ''Control Protection Exception '', ''Reserved'', ''Reserved'', ''Reserved'', ''Reserved'', ''Reserved'',
     ''Reserved'', ''Hypervisor Injection Exception'', ''VMM Communication Exception'', ''Security Exception'',
     ''Reserved'']"

text \<open>\<open>tick\<close> is the counter of \<open>pit.c\<close>; \<open>cpu_halted\<close> says that the processor executed \<open>cli; hlt\<close>.\<close>

record irq_state = apic_state +
  tick :: u64
  cpu_halted :: bool

definition irq_handler :: "Registers \<Rightarrow> 'a irq_state_scheme \<Rightarrow> 'a irq_state_scheme" where
  "irq_handler Reg s = (if reg_vectors Reg = 0x20 then s\<lparr>tick := tick s + 1\<rparr> else s)"

definition interrupt_handler :: "Registers \<Rightarrow> 'a irq_state_scheme \<Rightarrow> 'a irq_state_scheme option" where
  "interrupt_handler Reg s =
     do { s \<leftarrow> (if reg_vectors Reg > 31 \<and> reg_vectors Reg < 48 then APIC_EOI (irq_handler Reg s) else Some s);
          Some (if reg_vectors Reg < 32 then s\<lparr>cpu_halted := True\<rparr> else s) }"

text \<open>
  Interrupts arrive one after the other: the gates \<open>idt_init\<close> installs clear the interrupt flag, so
  that a handler is not interrupted.  A halted processor with interrupts disabled takes no more.
\<close>

fun deliver :: "Registers list \<Rightarrow> 'a irq_state_scheme \<Rightarrow> 'a irq_state_scheme option" where
  "deliver [] s = Some s"
| "deliver (r # rs) s = (if cpu_halted s then Some s else do { s \<leftarrow> interrupt_handler r s; deliver rs s })"

section \<open>Proofs\<close>

definition is_irq :: "Registers \<Rightarrow> bool" where
  "is_irq r \<longleftrightarrow> 31 < reg_vectors r \<and> reg_vectors r < 48"

definition is_exception :: "Registers \<Rightarrow> bool" where
  "is_exception r \<longleftrightarrow> reg_vectors r < 32"

lemma interrupt_handler_eq:
  assumes "g_virt_apic s \<noteq> NULL"
  shows "interrupt_handler r s = Some (s\<lparr>
    mmio := mmio s @ (if is_irq r then [(g_virt_apic s + 0xB0, 0)] else []),
    tick := tick s + (if reg_vectors r = 0x20 then 1 else 0),
    cpu_halted := (cpu_halted s \<or> is_exception r)\<rparr>)"
  using assms
  by (auto simp: interrupt_handler_def irq_handler_def APIC_EOI_def write_lapic_register_def mmio_write_def
    is_irq_def is_exception_def)

text \<open>The interrupts that are taken: all up to and including the first exception.\<close>

fun taken :: "Registers list \<Rightarrow> Registers list" where
  "taken [] = []"
| "taken (r # rs) = (if is_exception r then [r] else r # taken rs)"

text \<open>
  C32. Delivery of any sequence of interrupts once the local controller is set up: every interrupt up
  to the first exception is handled, each vector from 32 to 47 is acknowledged by exactly one store
  to the end-of-interrupt register, \<open>tick\<close> advances by one for each vector 0x20, nothing else of the
  state changes, and the processor is halted exactly when an exception (a vector below 32) came.
\<close>

theorem interrupts_delivered:
  fixes s :: "'a irq_state_scheme"
  assumes "g_virt_apic s \<noteq> NULL" "\<not> cpu_halted s"
  shows "deliver rs s = Some (s\<lparr>
    mmio := mmio s @ replicate (length (filter is_irq (taken rs))) (g_virt_apic s + 0xB0, 0),
    tick := tick s + of_nat (length (filter (\<lambda>r. reg_vectors r = 0x20) (taken rs))),
    cpu_halted := (\<exists>r\<in>set rs. is_exception r)\<rparr>)"
  using assms
proof (induction rs arbitrary: s)
  case Nil
  then show ?case by simp
next
  case (Cons r rs)
  show ?case
  proof (cases "is_exception r")
    case True
    then have "\<not> is_irq r" "reg_vectors r \<noteq> 0x20" by (auto simp: is_irq_def is_exception_def word_less_nat_alt)
    then show ?thesis using True Cons.prems by (cases rs) (simp_all add: interrupt_handler_eq)
  next
    case False
    then show ?thesis using Cons.prems by (simp add: interrupt_handler_eq Cons.IH)
  qed
qed

definition demo_regs :: "u64 \<Rightarrow> Registers" where
  "demo_regs v = \<lparr>reg_ds = 16, reg_r15 = 0, reg_r14 = 0, reg_r13 = 0, reg_r12 = 0, reg_r11 = 0, reg_r10 = 0,
     reg_r9 = 0, reg_r8 = 0, reg_rbp = 0, reg_rdi = 0, reg_rsi = 0, reg_rdx = 0, reg_rcx = 0, reg_rbx = 0,
     reg_rax = 0, reg_vectors = v, reg_errorcode = 0, reg_rip = 0, reg_cs = 8, reg_rflags = 2, reg_rsp = 0, reg_ss = 16\<rparr>"

definition demo_irq :: irq_state where
  "demo_irq = apic_state.extend (demo_apic\<lparr>g_virt_apic := HH + 0xFEE00000\<rparr>) \<lparr>tick = 7, cpu_halted = False\<rparr>"

theorem interrupts_delivered_witness:
  "\<exists>s'. deliver [demo_regs 0x20, demo_regs 0x21, demo_regs 0x30, demo_regs 0x20, demo_regs 14, demo_regs 0x20] demo_irq = Some s' \<and>
     tick s' = 9 \<and> length (mmio s') = 3 \<and> cpu_halted s'"
  using interrupts_delivered [of demo_irq "[demo_regs 0x20, demo_regs 0x21, demo_regs 0x30, demo_regs 0x20, demo_regs 14, demo_regs 0x20]"]
  by (simp add: demo_irq_def demo_apic_def demo_regs_def is_irq_def is_exception_def apic_state.defs)

text \<open>
  Before \<open>enable_apic\<close> has run \<open>g_virt_apic\<close> is 0, and acknowledging a vector from 32 to 47 would store
  to the address 0xB0: \<open>kmain\<close> enables interrupts in \<open>idt_init\<close>, before that point.
\<close>

lemma irq_before_enable:
  assumes "g_virt_apic s = NULL" "is_irq r"
  shows "interrupt_handler r s = None"
  using assms by (simp add: interrupt_handler_def irq_handler_def APIC_EOI_def write_lapic_register_def mmio_write_def is_irq_def)

end
