(* ===== verification/ACPI.thy ===== *)
theory ACPI
  imports VMM_Properties Mem_Functions
begin

text \<open>
  The firmware tables, \<open>src/kernel/src/drivers/ACPI/acpi.c\<close>: string comparison, checksums, and the search
  for a table through the XSDT or the RSDT, with the structures of \<open>acpi.h\<close> read at their offsets.
\<close>

section \<open>Tables in memory\<close>

text \<open>
  The structures of \<open>acpi.h\<close> are packed: each member starts where the one before it ends.  A structure
  is the list of its members with their sizes in bytes.
\<close>

type_synonym struct_layout = "(string \<times> nat) list"

fun offset_of :: "string \<Rightarrow> struct_layout \<Rightarrow> nat option" where
  "offset_of f [] = None"
| "offset_of f ((g, n) # l) = (if f = g then Some 0 else map_option ((+) n) (offset_of f l))"

definition size_of :: "struct_layout \<Rightarrow> nat" where
  "size_of l = sum_list (map snd l)"

definition RSDP_t :: struct_layout where
  "RSDP_t = [(''Signature'', 8), (''Checksum'', 1), (''OEMID'', 6), (''Revision'', 1), (''RsdtAddress'', 4)]"

definition XSDP_t :: struct_layout where
  "XSDP_t = [(''Signature'', 8), (''Checksum'', 1), (''OEMID'', 6), (''Revision'', 1), (''RsdtAddress'', 4),
     (''Length'', 4), (''XsdtAddress'', 8), (''ExtendedChecksum'', 1), (''reserved'', 3)]"

definition ACPISDTHeader :: struct_layout where
  "ACPISDTHeader = [(''Signature'', 4), (''Length'', 4), (''Revision'', 1), (''Checksum'', 1), (''OEMID'', 6),
     (''OEMTableID'', 8), (''OEMRevision'', 4), (''CreatorID'', 4), (''CreatorRevision'', 4)]"

text \<open>The offsets the operations below use, and that they are those of the structures.\<close>

abbreviation (input) XSDP_Revision :: u64 where "XSDP_Revision \<equiv> 15"
abbreviation (input) XSDP_RsdtAddress :: u64 where "XSDP_RsdtAddress \<equiv> 16"
abbreviation (input) XSDP_XsdtAddress :: u64 where "XSDP_XsdtAddress \<equiv> 24"
abbreviation (input) SDT_Signature :: u64 where "SDT_Signature \<equiv> 0"
abbreviation (input) SDT_Length :: u64 where "SDT_Length \<equiv> 4"
abbreviation (input) SDT_SIZE :: u64 where "SDT_SIZE \<equiv> 36"

lemma acpi_offsets:
  "offset_of ''Revision'' XSDP_t = Some (unat XSDP_Revision)" "offset_of ''RsdtAddress'' RSDP_t = Some (unat XSDP_RsdtAddress)"
  "offset_of ''XsdtAddress'' XSDP_t = Some (unat XSDP_XsdtAddress)" "offset_of ''Signature'' ACPISDTHeader = Some (unat SDT_Signature)"
  "offset_of ''Length'' ACPISDTHeader = Some (unat SDT_Length)" "size_of ACPISDTHeader = unat SDT_SIZE"
  by (simp_all add: XSDP_t_def RSDP_t_def ACPISDTHeader_def size_of_def)

section \<open>Operations\<close>

text \<open>
  Each access through \<open>s1\<close> or \<open>s2\<close> is undefined when the pointer is null; \<open>char\<close>s are compared as
  bytes, and their difference is taken after the conversion to \<open>unsigned char\<close>.
\<close>

definition char_at :: "u64 \<Rightarrow> memory \<Rightarrow> u8 option" where
  "char_at p m = (if p = NULL then None else Some (m p))"

function strncmp :: "u64 \<Rightarrow> u64 \<Rightarrow> u64 \<Rightarrow> memory \<Rightarrow> int option" where
  "strncmp s1 s2 n m =
     (if n > 0
      then do { c1 \<leftarrow> char_at s1 m;
                c2 \<leftarrow> char_at s2 m;
                if c1 \<noteq> 0 \<and> c1 = c2 then strncmp (s1 + 1) (s2 + 1) (n - 1) m
                else Some (uint c1 - uint c2) }
      else Some 0)"
  by pat_completeness auto
termination
  by (relation "measure (\<lambda>(_, _, n, _). unat n)") (auto simp: measure_unat word_gt_0)

declare strncmp.simps [simp del]

text \<open>The index \<open>i\<close> is an \<open>int\<close>: incrementing it past \<open>INT_MAX\<close> is undefined.\<close>

function checksum_loop :: "nat \<Rightarrow> u8 \<Rightarrow> u64 \<Rightarrow> 'a machine_scheme \<Rightarrow> u8 option" where
  "checksum_loop i acc tableHeader s =
     do { len \<leftarrow> read32 tableHeader SDT_Length s;
          if i < unat len
          then do { c \<leftarrow> read8 tableHeader (of_nat i) s;
                    if i \<ge> 2 ^ 31 - 1 then None else checksum_loop (i + 1) (acc + c) tableHeader s }
          else Some acc }"
  by pat_completeness auto
termination
  by (relation "measure (\<lambda>(i, _). 2 ^ 31 - i)") auto

declare checksum_loop.simps [simp del]

definition doChecksum :: "u64 \<Rightarrow> 'a machine_scheme \<Rightarrow> bool option" where
  "doChecksum tableHeader s = do { sum \<leftarrow> checksum_loop 0 0 tableHeader s; Some (sum = 0) }"

definition GetXSDT :: "u64 \<Rightarrow> 'a machine_scheme \<Rightarrow> u64 option" where
  "GetXSDT phy_address s =
     do { rev \<leftarrow> read8 phy_address XSDP_Revision s;
          if rev \<noteq> 2 then Some NULL
          else do { xsdt \<leftarrow> read64 phy_address XSDP_XsdtAddress s;
                    if xsdt = 0 then Some NULL else Some (phy_to_virt xsdt s) } }"

definition GetRSDT :: "u64 \<Rightarrow> 'a machine_scheme \<Rightarrow> u64 option" where
  "GetRSDT phy_address s =
     do { rsdt \<leftarrow> read32 phy_address XSDP_RsdtAddress s; Some (phy_to_virt (ucast rsdt) s) }"

text \<open>\<open>rsdt->entries[i]\<close> has 4 bytes, \<open>xsdt->PointerToOtherSDT[i]\<close> has 8.\<close>

definition rsdt_entry :: "u64 \<Rightarrow> u64 \<Rightarrow> 'a machine_scheme \<Rightarrow> u64 option" where
  "rsdt_entry rsdt i s = do { e \<leftarrow> read32 rsdt (SDT_SIZE + 4 * i) s; Some (ucast e) }"

definition xsdt_entry :: "u64 \<Rightarrow> u64 \<Rightarrow> 'a machine_scheme \<Rightarrow> u64 option" where
  "xsdt_entry xsdt i s = read64 xsdt (SDT_SIZE + 8 * i) s"

text \<open>The search loop, the same over both tables; \<open>entry\<close> reads the i-th address.\<close>

function table_loop :: "(u64 \<Rightarrow> 'a machine_scheme \<Rightarrow> u64 option) \<Rightarrow> u64 \<Rightarrow> u64 \<Rightarrow> u64 \<Rightarrow> 'a machine_scheme \<Rightarrow> u64 option" where
  "table_loop entry i entries_count Table_Sign s =
     (if i < entries_count
      then do { e \<leftarrow> entry i s;
                let h = phy_to_virt e s;
                c \<leftarrow> strncmp (h + SDT_Signature) Table_Sign 4 (mem s);
                if c = 0 then Some h else table_loop entry (i + 1) entries_count Table_Sign s }
      else Some NULL)"
  by pat_completeness auto
termination
  by (relation "measure (\<lambda>(_, i, n, _). unat n - unat i)") (auto simp: unat_Suc_less word_less_nat_alt)

declare table_loop.simps [simp del]

definition findTable :: "u64 \<Rightarrow> u64 \<Rightarrow> 'a machine_scheme \<Rightarrow> u64 option" where
  "findTable phy_address Table_Sign s =
     do { xsdt \<leftarrow> GetXSDT phy_address s;
          if xsdt = NULL
          then do { rsdt \<leftarrow> GetRSDT phy_address s;
                    len \<leftarrow> read32 rsdt SDT_Length s;
                    table_loop (rsdt_entry rsdt) 0 ((ucast len - SDT_SIZE) div 4) Table_Sign s }
          else do { len \<leftarrow> read32 xsdt SDT_Length s;
                    table_loop (xsdt_entry xsdt) 0 ((ucast len - SDT_SIZE) div 8) Table_Sign s } }"

section \<open>Strings and checksums\<close>

text \<open>The string of at most \<open>n\<close> characters at \<open>p\<close>, without its terminator.\<close>

fun cstring :: "nat \<Rightarrow> u64 \<Rightarrow> memory \<Rightarrow> u8 list" where
  "cstring 0 p m = []"
| "cstring (Suc n) p m = (if m p = 0 then [] else m p # cstring n (p + 1) m)"

lemma cstring_cong:
  "(\<And>x. x \<in> region p n \<Longrightarrow> m x = m' x) \<Longrightarrow> n \<le> 2 ^ 64 \<Longrightarrow> cstring n p m = cstring n p m'"
proof (induction n arbitrary: p)
  case (Suc n)
  have "region (p + 1) n \<subseteq> region p (Suc n)" using region_offset [of 1 n "Suc n" p] Suc.prems(2) by simp
  then show ?case using Suc.IH [of "p + 1"] Suc.prems region_nonempty [of "Suc n" p] by auto
qed simp

definition in_memory :: "u64 \<Rightarrow> nat \<Rightarrow> bool" where
  "in_memory p n \<longleftrightarrow> p \<noteq> NULL \<and> unat p + n \<le> 2 ^ 64"

lemma in_memory_Suc:
  assumes "in_memory p (Suc (Suc n))"
  shows "in_memory (p + 1) (Suc n)"
proof -
  have "unat (p + 1) = unat p + 1" using assms by (simp add: in_memory_def unat_word_ariths)
  then show ?thesis using assms by (auto simp: in_memory_def)
qed

text \<open>\<open>strncmp\<close> orders strings lexicographically, as the language standard asks.\<close>

lemma strncmp_correct:
  assumes "in_memory s1 (Suc k)" "in_memory s2 (Suc k)" "unat n \<le> Suc k"
  shows "\<exists>c. strncmp s1 s2 n m = Some c \<and> (c = 0 \<longleftrightarrow> cstring (unat n) s1 m = cstring (unat n) s2 m) \<and>
    (c < 0 \<longleftrightarrow> ord_class.lexordp (cstring (unat n) s1 m) (cstring (unat n) s2 m))"
  using assms
proof (induction s1 s2 n m arbitrary: k rule: strncmp.induct)
  case (1 s1 s2 n m)
  have p: "s1 \<noteq> NULL" "s2 \<noteq> NULL" using "1.prems" by (auto simp: in_memory_def)
  show ?case
  proof (cases "n > 0")
    case False
    then show ?thesis by (subst strncmp.simps) (simp add: word_gt_0)
  next
    case True
    then have n: "unat n = Suc (unat (n - 1))" by (simp add: unat_minus_one word_gt_0 unat_gt_0)
    show ?thesis
    proof (cases "m s1 \<noteq> 0 \<and> m s1 = m s2")
      case False
      have "strncmp s1 s2 n m = Some (uint (m s1) - uint (m s2))"
        using True False p by (subst strncmp.simps) (auto simp: char_at_def)
      moreover have "uint (m s2) \<noteq> 0 \<Longrightarrow> 0 < uint (m s2)" by (simp add: order_less_le)
      ultimately show ?thesis using False by (auto simp: n word_less_def word_uint_eq_iff)
    next
      case eq: True
      have rec: "strncmp s1 s2 n m = strncmp (s1 + 1) (s2 + 1) (n - 1) m"
        using True eq p by (subst strncmp.simps) (auto simp: char_at_def)
      show ?thesis
      proof (cases "n - 1 = 0")
        case True
        have "strncmp (s1 + 1) (s2 + 1) (n - 1) m = Some 0" using True by (subst strncmp.simps) simp
        then show ?thesis using rec True eq by (auto simp: n)
      next
        case False
        then obtain j where k: "k = Suc j" using "1.prems"(3) n by (cases k) (auto simp: unat_eq_zero)
        show ?thesis
          using "1.IH" [OF True, of "m s1" "m s2" j] in_memory_Suc "1.prems" eq p rec k
          by (auto simp: n char_at_def)
      qed
    qed
  qed
qed

text \<open>\<open>doChecksum\<close> adds up all bytes of the table, for tables shorter than 2 GiB.\<close>

lemma checksum_loop_correct:
  assumes "t \<noteq> NULL" "len = unat (load32 (t + SDT_Length) (mem s))" "len < 2 ^ 31" "i \<le> len"
  shows "checksum_loop i acc t s = Some (acc + (\<Sum>j = i..<len. mem s (t + of_nat j)))"
  using assms
proof (induction i acc t s rule: checksum_loop.induct)
  case (1 i acc t s)
  have len: "read32 t SDT_Length s = Some (load32 (t + SDT_Length) (mem s))" using "1.prems" by (simp add: read32_def)
  show ?case
  proof (cases "i < len")
    case False
    then show ?thesis using "1.prems" len by (subst checksum_loop.simps) simp
  next
    case True
    have "checksum_loop i acc t s = checksum_loop (i + 1) (acc + mem s (t + of_nat i)) t s"
      using True "1.prems" len by (subst checksum_loop.simps) (simp add: read8_def)
    also have "\<dots> = Some (acc + mem s (t + of_nat i) + (\<Sum>j = i + 1..<len. mem s (t + of_nat j)))"
      using True "1.prems" len by (intro "1.IH") (auto simp: read8_def)
    also have "\<dots> = Some (acc + (\<Sum>j = i..<len. mem s (t + of_nat j)))"
      using True by (simp add: sum.atLeast_Suc_lessThan [of i len])
    finally show ?thesis .
  qed
qed

lemma doChecksum_correct:
  assumes "t \<noteq> NULL" "unat (load32 (t + SDT_Length) (mem s)) < 2 ^ 31"
  shows "doChecksum t s = Some ((\<Sum>j < unat (load32 (t + SDT_Length) (mem s)). mem s (t + of_nat j)) = 0)"
  using checksum_loop_correct [OF assms(1) refl assms(2), of 0 0]
  by (simp add: doChecksum_def lessThan_atLeast0)

section \<open>Finding a table\<close>

text \<open>
  The physical addresses the root table lists: those of the XSDT when the pointer structure has
  revision 2 and names one, and those of the RSDT otherwise.
\<close>

definition uses_xsdt :: "u64 \<Rightarrow> 'a machine_scheme \<Rightarrow> bool" where
  "uses_xsdt rsdp s \<longleftrightarrow> mem s (rsdp + XSDP_Revision) = 2 \<and> load64 (rsdp + XSDP_XsdtAddress) (mem s) \<noteq> 0"

definition root_table :: "u64 \<Rightarrow> 'a machine_scheme \<Rightarrow> u64" where
  "root_table rsdp s =
     (if uses_xsdt rsdp s then load64 (rsdp + XSDP_XsdtAddress) (mem s) else ucast (load32 (rsdp + XSDP_RsdtAddress) (mem s)))"

definition root_length :: "u64 \<Rightarrow> 'a machine_scheme \<Rightarrow> nat" where
  "root_length rsdp s = unat (load32 (phy_to_virt (root_table rsdp s) s + SDT_Length) (mem s))"

definition root_entries :: "u64 \<Rightarrow> 'a machine_scheme \<Rightarrow> u64 list" where
  "root_entries rsdp s =
     (let r = phy_to_virt (root_table rsdp s) s + SDT_SIZE in
      if uses_xsdt rsdp s then map (\<lambda>i. load64 (r + 8 * of_nat i) (mem s)) [0..<(root_length rsdp s - 36) div 8]
      else map (\<lambda>i. ucast (load32 (r + 4 * of_nat i) (mem s))) [0..<(root_length rsdp s - 36) div 4])"

definition has_signature :: "u64 \<Rightarrow> 'a machine_scheme \<Rightarrow> u64 \<Rightarrow> bool" where
  "has_signature sign s t \<longleftrightarrow> cstring 4 (phy_to_virt t s) (mem s) = cstring 4 sign (mem s)"

lemma table_loop_correct:
  assumes "\<And>j. j < unat n \<Longrightarrow> entry (of_nat j) s = Some (e j)"
    and "\<And>j. j < unat n \<Longrightarrow> in_memory (phy_to_virt (e j) s) 4" "in_memory sign 4"
  shows "table_loop entry i n sign s =
    Some (case find (has_signature sign s) (map e [unat i..<unat n]) of None \<Rightarrow> NULL | Some t \<Rightarrow> phy_to_virt t s)"
  using assms
proof (induction entry i n sign s rule: table_loop.induct)
  case (1 entry i n sign s)
  show ?case
  proof (cases "i < n")
    case False
    then show ?thesis by (subst table_loop.simps) (simp add: word_less_nat_alt)
  next
    case True
    then have lt: "unat i < unat n" by (simp add: word_less_nat_alt)
    have e: "entry i s = Some (e (unat i))" using "1.prems"(1) [OF lt] by simp
    obtain c where c: "strncmp (phy_to_virt (e (unat i)) s) sign 4 (mem s) = Some c"
      "c = 0 \<longleftrightarrow> has_signature sign s (e (unat i))"
      using strncmp_correct [of "phy_to_virt (e (unat i)) s" 3 sign 4 "mem s"] "1.prems"(2) [OF lt] "1.prems"(3)
      by (auto simp: has_signature_def)
    have up: "[unat i..<unat n] = unat i # [unat (i + 1)..<unat n]"
      using lt unat_Suc_less [OF True] by (simp add: upt_conv_Cons)
    show ?thesis
    proof (cases "c = 0")
      case True
      then show ?thesis using \<open>i < n\<close> e c by (subst table_loop.simps) (simp add: up)
    next
      case False
      have "table_loop entry i n sign s = table_loop entry (i + 1) n sign s"
        using \<open>i < n\<close> e c False by (subst table_loop.simps) simp
      then show ?thesis using "1.IH" [OF True e refl _ False] c False "1.prems" by (simp add: up)
    qed
  qed
qed

lemma entries_count:
  assumes "36 \<le> unat (len :: u32)"
  shows "unat ((ucast len - SDT_SIZE) div k :: u64) = (unat len - 36) div unat k"
  using assms by (simp add: unat_div unat_sub word_le_nat_alt)

text \<open>A root table shorter than its header makes the count wrap around: the search then runs over 2^60 entries and more.\<close>

lemma entries_count_underflow:
  assumes "unat (len :: u32) < 36"
  shows "2 ^ 60 \<le> unat ((ucast len - SDT_SIZE) div 8 :: u64)"
proof -
  have "unat (ucast len - SDT_SIZE :: u64) = 2 ^ 64 + unat len - 36"
    using assms by (simp add: unat_sub_if' word_le_nat_alt)
  then show ?thesis by (simp add: unat_div)
qed

lemma findTable_correct:
  assumes "rsdp \<noteq> NULL" "phy_to_virt (root_table rsdp s) s \<noteq> NULL" "36 \<le> root_length rsdp s" "in_memory sign 4"
    and "\<forall>t\<in>set (root_entries rsdp s). in_memory (phy_to_virt t s) 4"
  shows "findTable rsdp sign s = Some
    (case find (has_signature sign s) (root_entries rsdp s) of None \<Rightarrow> NULL | Some t \<Rightarrow> phy_to_virt t s)"
proof (cases "uses_xsdt rsdp s")
  case True
  let ?r = "phy_to_virt (root_table rsdp s) s"
  let ?len = "load32 (?r + SDT_Length) (mem s)" and ?e = "\<lambda>j. load64 (?r + SDT_SIZE + 8 * of_nat j) (mem s)"
  let ?n = "(ucast ?len - SDT_SIZE) div 8 :: u64"
  have x: "GetXSDT rsdp s = Some ?r" using assms(1) True by (simp add: GetXSDT_def pointer_access uses_xsdt_def root_table_def)
  have n: "unat ?n = (root_length rsdp s - 36) div 8"
    using entries_count [of ?len 8] assms(3) by (simp add: root_length_def)
  have "table_loop (xsdt_entry ?r) 0 ?n sign s = Some
    (case find (has_signature sign s) (map ?e [unat (0 :: u64)..<unat ?n]) of None \<Rightarrow> NULL | Some t \<Rightarrow> phy_to_virt t s)"
    using assms(2,4,5) by (intro table_loop_correct)
      (auto simp: xsdt_entry_def read64_def n root_entries_def True add.assoc)
  then show ?thesis using x assms(2) True
    by (simp add: findTable_def read32_def root_entries_def n [symmetric] del: upt_conv_Nil)
next
  case False
  let ?r = "phy_to_virt (root_table rsdp s) s"
  let ?len = "load32 (?r + SDT_Length) (mem s)" and ?e = "\<lambda>j. ucast (load32 (?r + SDT_SIZE + 4 * of_nat j) (mem s)) :: u64"
  let ?n = "(ucast ?len - SDT_SIZE) div 4 :: u64"
  have x: "GetXSDT rsdp s = Some NULL" "GetRSDT rsdp s = Some ?r"
    using assms(1) False by (auto simp: GetXSDT_def GetRSDT_def pointer_access uses_xsdt_def root_table_def)
  have n: "unat ?n = (root_length rsdp s - 36) div 4"
    using entries_count [of ?len 4] assms(3) by (simp add: root_length_def)
  have "table_loop (rsdt_entry ?r) 0 ?n sign s = Some
    (case find (has_signature sign s) (map ?e [unat (0 :: u64)..<unat ?n]) of None \<Rightarrow> NULL | Some t \<Rightarrow> phy_to_virt t s)"
    using assms(2,4,5) by (intro table_loop_correct)
      (auto simp: rsdt_entry_def read32_def n root_entries_def False add.assoc)
  then show ?thesis using x assms(2) False
    by (simp add: findTable_def read32_def root_entries_def n [symmetric] del: upt_conv_Nil)
qed

text \<open>
  C34. \<open>findTable\<close> agrees with a search through the list of tables: it returns the first table of the
  root table whose signature is the one asked for (compared over four characters), and null when
  there is none.  The root table must be at least as long as its header, and the tables it lists
  must be addressable.
\<close>

theorem findTable_first:
  assumes "rsdp \<noteq> NULL" "phy_to_virt (root_table rsdp s) s \<noteq> NULL" "36 \<le> root_length rsdp s" "in_memory sign 4"
    and "\<forall>t\<in>set (root_entries rsdp s). in_memory (phy_to_virt t s) 4"
  shows "findTable rsdp sign s = Some
    (case find (has_signature sign s) (root_entries rsdp s) of None \<Rightarrow> NULL | Some t \<Rightarrow> phy_to_virt t s)"
  using findTable_correct [OF assms] .

section \<open>The tables depend on memory only\<close>

lemma phy_to_virt_cong: "hhdm s' = hhdm s \<Longrightarrow> phy_to_virt p s' = phy_to_virt p s"
  by (simp add: phy_to_virt_def)

lemma table_loop_cong:
  assumes "\<And>i. entry i s' = entry i s" "mem s' = mem s" "hhdm s' = hhdm s"
  shows "table_loop entry i n sign s' = table_loop entry i n sign s"
proof (induction "unat n - unat i" arbitrary: i rule: less_induct)
  case less
  show ?case
  proof (cases "i < n")
    case False
    then show ?thesis by (simp add: table_loop.simps [of _ i])
  next
    case True
    have "table_loop entry (i + 1) n sign s' = table_loop entry (i + 1) n sign s"
      using True unat_Suc_less [OF True] by (intro less.hyps) (simp add: word_less_nat_alt)
    then show ?thesis
      using assms phy_to_virt_cong [OF assms(3)] by (simp add: table_loop.simps [of _ i] Let_def cong: Option.bind_cong if_cong)
  qed
qed

lemma findTable_cong:
  fixes s s' :: "'a machine_scheme"
  assumes "mem s' = mem s" "hhdm s' = hhdm s"
  shows "findTable r g s' = findTable r g s"
proof -
  have "table_loop (rsdt_entry x) i n g s' = table_loop (rsdt_entry x) i n g s" for x i n
    using assms by (intro table_loop_cong) (simp_all add: rsdt_entry_def read32_def)
  moreover have "table_loop (xsdt_entry x) i n g s' = table_loop (xsdt_entry x) i n g s" for x i n
    using assms by (intro table_loop_cong) (simp_all add: xsdt_entry_def read64_def)
  ultimately show ?thesis
    using assms phy_to_virt_cong [OF assms(2)]
    by (simp add: findTable_def GetXSDT_def GetRSDT_def read8_def read32_def read64_def cong: Option.bind_cong if_cong)
qed

section \<open>A machine with tables\<close>

text \<open>
  Firmware tables: the pointer structure at physical address 0x1000, an XSDT at 0x2000 that lists the
  tables at 0x3000 (\<open>FACP\<close>) and 0x4000 (\<open>APIC\<close>), and the string \<open>"APIC"\<close> of the kernel (\<open>SIGN\<close>).
\<close>

primrec poke :: "u64 \<Rightarrow> u8 list \<Rightarrow> memory \<Rightarrow> memory" where
  "poke a [] m = m"
| "poke a (b # bs) m = (poke (a + 1) bs m)(a := b)"

abbreviation RSDP :: u64 where "RSDP \<equiv> 0xFFFF800000001000"
abbreviation SIGN :: u64 where "SIGN \<equiv> 0xFFFFFFFF80009000"

definition demo_tables_mem :: memory where
  "demo_tables_mem =
     poke (HH + 0x100F) [2] (poke (HH + 0x1018) [0x00, 0x20] (poke (HH + 0x2004) [52] (poke (HH + 0x2024) [0x00, 0x30]
     (poke (HH + 0x202C) [0x00, 0x40] (poke (HH + 0x3000) [0x46, 0x41, 0x43, 0x50] (poke (HH + 0x4000) [0x41, 0x50, 0x49, 0x43]
     (poke SIGN [0x41, 0x50, 0x49, 0x43] (\<lambda>_. 0))))))))"

definition demo_acpi :: machine where
  "demo_acpi = demo_machine\<lparr>mem := demo_tables_mem\<rparr>"

lemma load_le_numeral: "load_le (numeral k) a m = ucast (m a) OR push_bit 8 (load_le (pred_numeral k) (a + 1) m)"
  by (simp add: numeral_eq_Suc)

lemma cstring_numeral:
  "cstring (numeral k) p m = (if m p = 0 then [] else m p # cstring (pred_numeral k) (p + 1) m)"
  by (simp add: numeral_eq_Suc)

lemmas load_eval = load32_def load64_def load_le_numeral

theorem findTable_first_witness: "findTable RSDP SIGN demo_acpi = Some (HH + 0x4000)"
proof -
  note d = demo_acpi_def demo_machine_def demo_tables_mem_def phy_to_virt_def
  have r: "uses_xsdt RSDP demo_acpi" by (simp add: uses_xsdt_def load_eval d)
  have t: "root_table RSDP demo_acpi = 0x2000" by (simp add: root_table_def r) (simp add: load_eval d)
  have l: "root_length RSDP demo_acpi = 52" by (simp add: root_length_def t) (simp add: load_eval d)
  have u: "[0..<2] = [0, Suc 0]" by (simp add: upt_rec)
  have e: "root_entries RSDP demo_acpi = [0x3000, 0x4000]"
    by (simp add: root_entries_def u r t l) (simp add: load_eval d)
  have f: "\<not> has_signature SIGN demo_acpi 0x3000" "has_signature SIGN demo_acpi 0x4000"
    by (simp_all add: has_signature_def cstring_numeral d)
  have h: "phy_to_virt p demo_acpi = p + HH" for p by (simp add: d)
  show ?thesis
    using findTable_first [of RSDP demo_acpi SIGN] r t l e f h by (simp add: in_memory_def)
qed

end
