(* ===== verification/IOAPIC_Model.thy ===== *)
theory IOAPIC_Model
  imports Interrupts ACPI
begin

text \<open>
  The I/O interrupt controllers, \<open>src/kernel/src/drivers/interrupt/APIC/ioapic.c\<close> and \<open>ioapic.h\<close>, with the
  records of the interrupt table (\<open>src/kernel/src/drivers/ACPI/madt.h\<close>) read at their offsets.
\<close>

section \<open>State\<close>

text \<open>
  The arrays hold pointers to records of the interrupt table (MADT) and the addresses of each
  controller; they are zero until \<open>init_IOAPIC\<close> runs.
\<close>

record ioapic_state = irq_state +
  ioapic_entries :: "nat \<Rightarrow> u64"
  iso_entries :: "nat \<Rightarrow> u64"
  phys_address :: "nat \<Rightarrow> u64"
  virt_Address :: "nat \<Rightarrow> u64"
  ioapic_count :: u32
  iso_count :: u32
  IOAPICVER :: u32
  IOAPICID :: u32

text \<open>The packed structures of \<open>madt.h\<close> the code reads, and the offsets it uses.\<close>

definition MADT_t :: struct_layout where
  "MADT_t = [(''h'', size_of ACPISDTHeader), (''Local_APIC_Address'', 4), (''Flags'', 4)]"

definition IOAPIC :: struct_layout where
  "IOAPIC = [(''Entry_type'', 1), (''Record_Length'', 1), (''IOAPIC_ID'', 1), (''Reserved'', 1), (''IOAPIC_Address'', 4), (''GSI_base'', 4)]"

definition IOAPIC_ISO :: struct_layout where
  "IOAPIC_ISO = [(''Entry_type'', 1), (''Record_Length'', 1), (''Bus_Source'', 1), (''IRQ_Source'', 1), (''GSI'', 4), (''Flags'', 2)]"

abbreviation (input) MADT_SIZE :: u64 where "MADT_SIZE \<equiv> 44"
abbreviation (input) IOAPIC_Address :: u64 where "IOAPIC_Address \<equiv> 4"
abbreviation (input) IOAPIC_GSI_base :: u64 where "IOAPIC_GSI_base \<equiv> 8"
abbreviation (input) ISO_IRQ_Source :: u64 where "ISO_IRQ_Source \<equiv> 3"
abbreviation (input) ISO_GSI :: u64 where "ISO_GSI \<equiv> 4"

lemma madt_offsets:
  "size_of MADT_t = unat MADT_SIZE" "offset_of ''IOAPIC_Address'' IOAPIC = Some (unat IOAPIC_Address)"
  "offset_of ''GSI_base'' IOAPIC = Some (unat IOAPIC_GSI_base)" "offset_of ''IRQ_Source'' IOAPIC_ISO = Some (unat ISO_IRQ_Source)"
  "offset_of ''GSI'' IOAPIC_ISO = Some (unat ISO_GSI)"
  by (simp_all add: MADT_t_def IOAPIC_def IOAPIC_ISO_def ACPISDTHeader_def size_of_def)

section \<open>Reading the interrupt table\<close>

text \<open>
  \<open>array\<close> is a null pointer or an array of \<open>max_count\<close> pointers.  A pointer that runs past the end of
  the address space is undefined.
\<close>

definition ptr_add :: "u64 \<Rightarrow> u64 \<Rightarrow> u64 option" where
  "ptr_add p n = (if unat p + unat n < 2 ^ 64 then Some (p + n) else None)"

function find_entries_loop :: "u64 \<Rightarrow> u64 \<Rightarrow> u32 \<Rightarrow> (nat \<Rightarrow> u64) option \<Rightarrow> u32 \<Rightarrow> u32 \<Rightarrow> 'a machine_scheme \<Rightarrow>
  (u32 \<times> (nat \<Rightarrow> u64) option) option" where
  "find_entries_loop ptr entries_end typ array max_count count s =
     (if ptr < entries_end
      then do { entry_type \<leftarrow> read8 ptr 0 s;
                entry_length \<leftarrow> read8 ptr 1 s;
                let (array, count) =
                  (case array of
                     Some a \<Rightarrow> if ucast entry_type = typ \<and> count < max_count
                               then (Some (a(unat count := ptr)), count + 1) else (array, count)
                   | None \<Rightarrow> (array, count));
                if entry_length = 0 then Some (count, array)
                else do { ptr' \<leftarrow> ptr_add ptr (ucast entry_length);
                          find_entries_loop ptr' entries_end typ array max_count count s } }
      else Some (count, array))"
  by pat_completeness auto
termination
  by (relation "measure (\<lambda>(ptr, e, _). unat e - unat ptr)")
    (auto simp: ptr_add_def word_less_nat_alt unat_add_less unat_gt_0 split: if_splits intro!: diff_less_mono2)

declare find_entries_loop.simps [simp del]

definition FindEntries :: "u64 \<Rightarrow> u32 \<Rightarrow> (nat \<Rightarrow> u64) option \<Rightarrow> u32 \<Rightarrow> 'a machine_scheme \<Rightarrow>
  (u32 \<times> (nat \<Rightarrow> u64) option) option" where
  "FindEntries madt_header typ array max_count s =
     do { len \<leftarrow> read32 madt_header SDT_Length s;
          entries_end \<leftarrow> ptr_add madt_header (ucast len);
          ptr \<leftarrow> ptr_add madt_header MADT_SIZE;
          find_entries_loop ptr entries_end typ array max_count 0 s }"

section \<open>Controller registers\<close>

text \<open>\<open>virt_Address[index]\<close> has 16 elements; \<open>dev\<close> answers loads from device registers.\<close>

definition ioapic_read :: "mmio_device \<Rightarrow> u8 \<Rightarrow> u8 \<Rightarrow> 'a ioapic_state_scheme \<Rightarrow> (u32 \<times> 'a ioapic_state_scheme) option" where
  "ioapic_read dev regOff index s =
     do { base \<leftarrow> arr_get 16 (virt_Address s) (unat index);
          s \<leftarrow> mmio_write base 0 (ucast regOff) s;
          v \<leftarrow> mmio_read dev base 0x10 s;
          Some (v, s) }"

definition ioapic_write :: "u8 \<Rightarrow> u32 \<Rightarrow> u8 \<Rightarrow> 'a ioapic_state_scheme \<Rightarrow> 'a ioapic_state_scheme option" where
  "ioapic_write regOff data index s =
     do { base \<leftarrow> arr_get 16 (virt_Address s) (unat index);
          s \<leftarrow> mmio_write base 0 (ucast regOff) s;
          mmio_write base 0x10 data s }"

section \<open>Initialisation\<close>

text \<open>The four loops of \<open>init_IOAPIC\<close>.  They count a \<open>size_t\<close> up to a 32-bit count.\<close>

function copy_ioapic_loop :: "nat \<Rightarrow> (nat \<Rightarrow> u64) \<Rightarrow> 'a ioapic_state_scheme \<Rightarrow> 'a ioapic_state_scheme option" where
  "copy_ioapic_loop i ioapic_ptr s =
     (if i < unat (ioapic_count s)
      then do { p \<leftarrow> arr_get 16 ioapic_ptr i;
                a \<leftarrow> arr_set 16 (ioapic_entries s) i p;
                copy_ioapic_loop (i + 1) ioapic_ptr (s\<lparr>ioapic_entries := a\<rparr>) }
      else Some s)"
  by pat_completeness auto
termination
  by (relation "measure (\<lambda>(i, _, s). unat (ioapic_count s) - i)") auto

function copy_iso_loop :: "nat \<Rightarrow> (nat \<Rightarrow> u64) \<Rightarrow> 'a ioapic_state_scheme \<Rightarrow> 'a ioapic_state_scheme option" where
  "copy_iso_loop i iso_ptr s =
     (if i < unat (iso_count s)
      then do { p \<leftarrow> arr_get 256 iso_ptr i;
                a \<leftarrow> arr_set 256 (iso_entries s) i p;
                copy_iso_loop (i + 1) iso_ptr (s\<lparr>iso_entries := a\<rparr>) }
      else Some s)"
  by pat_completeness auto
termination
  by (relation "measure (\<lambda>(i, _, s). unat (iso_count s) - i)") auto

function phys_loop :: "nat \<Rightarrow> 'a ioapic_state_scheme \<Rightarrow> 'a ioapic_state_scheme option" where
  "phys_loop i s =
     (if i < unat (ioapic_count s)
      then do { e \<leftarrow> arr_get 16 (ioapic_entries s) i;
                addr \<leftarrow> read32 e IOAPIC_Address s;
                a \<leftarrow> arr_set 16 (phys_address s) i (ucast addr);
                phys_loop (i + 1) (s\<lparr>phys_address := a\<rparr>) }
      else Some s)"
  by pat_completeness auto
termination
  by (relation "measure (\<lambda>(i, s). unat (ioapic_count s) - i)") auto

text \<open>The address of a fresh page is mapped to the controller; whether either call fails is not looked at.\<close>

definition map_ioapic :: "nat \<Rightarrow> 'a ioapic_state_scheme \<Rightarrow> 'a ioapic_state_scheme option" where
  "map_ioapic i s =
     do { (page, s) \<leftarrow> machine_alloc_page s;
          a \<leftarrow> arr_set 16 (virt_Address s) i (phy_to_virt page s);
          let s = s\<lparr>virt_Address := a\<rparr>;
          p \<leftarrow> arr_get 16 (phys_address s) i;
          (ok, s) \<leftarrow> vmm_map (a i) p (PAGE_PRESENT OR PAGE_WRITABLE OR PAGE_PCD) s;
          Some s }"

fun virt_loop :: "nat \<Rightarrow> nat \<Rightarrow> 'a ioapic_state_scheme \<Rightarrow> 'a ioapic_state_scheme option" where
  "virt_loop i 0 s = Some s"
| "virt_loop i (Suc n) s = do { s \<leftarrow> map_ioapic i s; virt_loop (i + 1) n s }"

text \<open>The two local arrays start out as zeros; only the elements that \<open>FindEntries\<close> stored are read.\<close>

definition init_IOAPIC :: "mmio_device \<Rightarrow> u64 \<Rightarrow> 'a ioapic_state_scheme \<Rightarrow> 'a ioapic_state_scheme option" where
  "init_IOAPIC dev madt_header s =
     do { (n, ioapic_ptr) \<leftarrow> FindEntries madt_header 1 (Some (\<lambda>_. 0)) 16 s;
          s \<leftarrow> copy_ioapic_loop 0 (the ioapic_ptr) (s\<lparr>ioapic_count := n\<rparr>);
          (k, iso_ptr) \<leftarrow> FindEntries madt_header 2 (Some (\<lambda>_. 0)) 256 s;
          s \<leftarrow> copy_iso_loop 0 (the iso_ptr) (s\<lparr>iso_count := k\<rparr>);
          s \<leftarrow> phys_loop 0 s;
          s \<leftarrow> virt_loop 0 (unat (ioapic_count s)) s;
          (v, s) \<leftarrow> ioapic_read dev 0x01 0 s;
          let s = s\<lparr>IOAPICVER := v\<rparr>;
          (d, s) \<leftarrow> ioapic_read dev 0x00 0 s;
          Some (s\<lparr>IOAPICID := d\<rparr>) }"


section \<open>Routing an interrupt\<close>

function iso_loop :: "nat \<Rightarrow> u8 \<Rightarrow> 'a ioapic_state_scheme \<Rightarrow> u32 option" where
  "iso_loop i irq s =
     (if i < unat (iso_count s)
      then do { e \<leftarrow> arr_get 256 (iso_entries s) i;
                src \<leftarrow> read8 e ISO_IRQ_Source s;
                if src = irq then read32 e ISO_GSI s else iso_loop (i + 1) irq s }
      else Some (ucast irq))"
  by pat_completeness auto
termination
  by (relation "measure (\<lambda>(i, _, s). unat (iso_count s) - i)") auto

definition Get_iso_gsi :: "u8 \<Rightarrow> 'a ioapic_state_scheme \<Rightarrow> u32 option" where
  "Get_iso_gsi irq s = iso_loop 0 irq s"

text \<open>The offsets are computed as \<open>int\<close> and cut to 8 bits.\<close>

definition OffsetLower :: "u8 \<Rightarrow> u8" where
  "OffsetLower pin = word_of_int (0x10 + uint pin * 2)"

definition OffsetUpper :: "u8 \<Rightarrow> u8" where
  "OffsetUpper pin = word_of_int (0x10 + uint pin * 2 + 1)"

definition Get_pin :: "u64 \<Rightarrow> u8 \<Rightarrow> 'a ioapic_state_scheme \<Rightarrow> u8 option" where
  "Get_pin ioapic_entry irq s =
     do { gsi \<leftarrow> Get_iso_gsi irq s;
          base \<leftarrow> read32 ioapic_entry IOAPIC_GSI_base s;
          Some (ucast (gsi - base)) }"

text \<open>The register is cut to 8 bits before it is shifted by 24.\<close>

definition Get_APICID :: "mmio_device \<Rightarrow> 'a ioapic_state_scheme \<Rightarrow> u8 option" where
  "Get_APICID dev s =
     do { v \<leftarrow> read_lapic_register dev (g_virt_apic s) 0x20 s;
          let lapic_id = (ucast v :: u8);
          Some (word_of_int (drop_bit 24 (uint lapic_id))) }"

section \<open>Redirection entries\<close>

text \<open>
  The union \<open>RedirectionEntry\<close> is a 64-bit word.  Its bit fields lie from the lowest bit upwards, as
  the x86-64 ABI lays them out: the first bit and the width of each.
\<close>

datatype redir_field = Redir_vector | Delivery_Mode | Destination_Mode | Delivery_Status | Pin_Polarity
  | Remote_IRR | Trigger_Mode | Redir_Mask | Redir_Reserved | Redir_destination

fun field_pos :: "redir_field \<Rightarrow> nat \<times> nat" where
  "field_pos Redir_vector = (0, 8)"
| "field_pos Delivery_Mode = (8, 3)"
| "field_pos Destination_Mode = (11, 1)"
| "field_pos Delivery_Status = (12, 1)"
| "field_pos Pin_Polarity = (13, 1)"
| "field_pos Remote_IRR = (14, 1)"
| "field_pos Trigger_Mode = (15, 1)"
| "field_pos Redir_Mask = (16, 1)"
| "field_pos Redir_Reserved = (17, 39)"
| "field_pos Redir_destination = (56, 8)"

definition get_field :: "redir_field \<Rightarrow> u64 \<Rightarrow> u64" where
  "get_field f w = (let (lo, n) = field_pos f in take_bit n (drop_bit lo w))"

definition set_field :: "redir_field \<Rightarrow> u64 \<Rightarrow> u64 \<Rightarrow> u64" where
  "set_field f v w =
     (let (lo, n) = field_pos f in (w AND NOT (push_bit lo (mask n))) OR push_bit lo (take_bit n v))"

definition lowerDword :: "u64 \<Rightarrow> u32" where "lowerDword w = ucast w"
definition upperDword :: "u64 \<Rightarrow> u32" where "upperDword w = ucast (drop_bit 32 w)"

definition writeRedir :: "u8 \<Rightarrow> u8 \<Rightarrow> u8 \<Rightarrow> u8 \<Rightarrow> u8 \<Rightarrow> u8 \<Rightarrow> u8 \<Rightarrow> u64 \<Rightarrow> u64" where
  "writeRedir vec delv_mode dest_mode polarity trigger msk dest Redir =
     (let Redir = set_field Redir_vector (ucast vec) Redir;
          Redir = set_field Delivery_Mode (ucast delv_mode) Redir;
          Redir = set_field Destination_Mode (ucast dest_mode) Redir;
          Redir = set_field Pin_Polarity (ucast polarity) Redir;
          Redir = set_field Trigger_Mode (ucast trigger) Redir;
          Redir = set_field Redir_Mask (ucast msk) Redir
      in set_field Redir_destination (ucast dest) Redir)"

definition loadRedir :: "u64 \<Rightarrow> u64 \<Rightarrow> u8 \<Rightarrow> 'a ioapic_state_scheme \<Rightarrow> 'a ioapic_state_scheme option" where
  "loadRedir Redir ioapic_entry irq s =
     do { pin \<leftarrow> Get_pin ioapic_entry irq s;
          s \<leftarrow> ioapic_write (OffsetLower pin) (lowerDword Redir) 0 s;
          ioapic_write (OffsetUpper pin) (upperDword Redir) 0 s }"

declare copy_ioapic_loop.simps [simp del] copy_iso_loop.simps [simp del] phys_loop.simps [simp del] iso_loop.simps [simp del]

end
