(* ===== verification/IOAPIC.thy ===== *)
theory IOAPIC
  imports IOAPIC_Model
begin

text \<open>
  What the code of the I/O interrupt controllers does: the walk over the records of the interrupt
  table, the arrays \<open>init_IOAPIC\<close> fills, the pages it maps, source overrides, and redirection entries as
  bit fields and as device registers.
\<close>

section \<open>Records of the interrupt table\<close>

text \<open>
  A sequence of records, each a type and a length, laid out in memory from \<open>p\<close> on, and the addresses
  of the records of one type.
\<close>

type_synonym madt_record = "u8 \<times> u8"

fun laid_out :: "u64 \<Rightarrow> madt_record list \<Rightarrow> memory \<Rightarrow> bool" where
  "laid_out p [] m = True"
| "laid_out p ((t, l) # rs) m = (m p = t \<and> m (p + 1) = l \<and> l \<noteq> 0 \<and> laid_out (p + ucast l) rs m)"

fun records_size :: "madt_record list \<Rightarrow> nat" where
  "records_size [] = 0"
| "records_size ((t, l) # rs) = unat l + records_size rs"

fun records_of :: "u32 \<Rightarrow> u64 \<Rightarrow> madt_record list \<Rightarrow> u64 list" where
  "records_of typ p [] = []"
| "records_of typ p ((t, l) # rs) = (if ucast t = typ then [p] else []) @ records_of typ (p + ucast l) rs"

text \<open>Storing a list into an array from an index on.\<close>

fun put_list :: "nat \<Rightarrow> 'a list \<Rightarrow> (nat \<Rightarrow> 'a) \<Rightarrow> nat \<Rightarrow> 'a" where
  "put_list i [] a = a"
| "put_list i (x # xs) a = put_list (Suc i) xs (a(i := x))"

lemma put_list_nth: "put_list i xs a j = (if i \<le> j \<and> j < i + length xs then xs ! (j - i) else a j)"
  by (induction xs arbitrary: i a) (auto simp: nth_Cons' le_Suc_eq Suc_diff_le less_diff_conv2)

lemma map_put_list: "map (put_list 0 xs a) [0..<length xs] = xs"
  by (rule nth_equalityI) (simp_all add: put_list_nth)

lemma find_entries_loop_records:
  assumes "laid_out p rs (mem s)" "unat p + records_size rs = unat e" "p \<noteq> NULL" "unat c \<le> unat n"
  shows "find_entries_loop p e typ (Some a) n c s =
    Some (c + of_nat (min (unat n - unat c) (length (records_of typ p rs))),
          Some (put_list (unat c) (take (unat n - unat c) (records_of typ p rs)) a))"
  using assms
proof (induction rs arbitrary: p a c)
  case Nil
  then show ?case by (subst find_entries_loop.simps) (simp add: word_less_nat_alt)
next
  case (Cons r rs)
  obtain t l where r: "r = (t, l)" by fastforce
  have l: "l \<noteq> 0" "0 < unat l" and m: "mem s p = t" "mem s (p + 1) = l" using Cons.prems(1) by (auto simp: r unat_gt_0)
  have lt: "p < e" using Cons.prems(2) l by (simp add: r word_less_nat_alt)
  have u: "unat (p + ucast l) = unat p + unat l" "unat p + unat l < 2 ^ 64"
    using Cons.prems(2) unat_less_2p [of e] unat_add_less [of p "ucast l"] by (simp_all add: r)
  have nn: "p + ucast l \<noteq> NULL" using u(1) l(2) by (metis add_is_0 less_numeral_extra(3) unat_0)
  let ?hit = "ucast t = typ \<and> c < n"
  let ?a = "if ?hit then a(unat c := p) else a" and ?c = "if ?hit then c + 1 else c"
  have step: "find_entries_loop p e typ (Some a) n c s = find_entries_loop (p + ucast l) e typ (Some ?a) n ?c s"
    using lt m l(1) u(2) Cons.prems(3) by (subst find_entries_loop.simps) (simp add: read8_def ptr_add_def)
  have c: "?hit \<Longrightarrow> unat (c + 1) = Suc (unat c)" using unat_Suc_less by blast
  have "find_entries_loop (p + ucast l) e typ (Some ?a) n ?c s =
    Some (?c + of_nat (min (unat n - unat ?c) (length (records_of typ (p + ucast l) rs))),
          Some (put_list (unat ?c) (take (unat n - unat ?c) (records_of typ (p + ucast l) rs)) ?a))"
    using Cons.prems u nn c by (intro Cons.IH) (auto simp: r word_less_nat_alt)
  then show ?case
    unfolding step
    using c Cons.prems(4) by (auto simp: r word_less_nat_alt Suc_diff_Suc min_def)
qed

definition madt_holds :: "u64 \<Rightarrow> madt_record list \<Rightarrow> 'a machine_scheme \<Rightarrow> bool" where
  "madt_holds madt rs s \<longleftrightarrow> madt \<noteq> NULL \<and> unat madt + 44 + records_size rs < 2 ^ 64 \<and>
     unat (load32 (madt + SDT_Length) (mem s)) = 44 + records_size rs \<and> laid_out (madt + MADT_SIZE) rs (mem s)"

lemma madt_holds_cong: "mem s' = mem s \<Longrightarrow> madt_holds madt rs s' \<longleftrightarrow> madt_holds madt rs s"
  by (simp add: madt_holds_def)

lemma FindEntries_holds:
  assumes "madt_holds madt rs s"
  shows "FindEntries madt typ (Some a) n s =
    Some (of_nat (min (unat n) (length (records_of typ (madt + MADT_SIZE) rs))),
          Some (put_list 0 (take (unat n) (records_of typ (madt + MADT_SIZE) rs)) a))"
proof -
  let ?e = "madt + ucast (load32 (madt + SDT_Length) (mem s))"
  have u: "unat (madt + MADT_SIZE) = unat madt + 44" "unat ?e = unat madt + (44 + records_size rs)"
    using assms unat_add_less [of madt MADT_SIZE] unat_add_less [of madt "ucast (load32 (madt + SDT_Length) (mem s))"]
    by (auto simp: madt_holds_def)
  have "madt + MADT_SIZE \<noteq> NULL" using u(1) by (metis add_is_0 unat_0 zero_neq_numeral)
  then have "find_entries_loop (madt + MADT_SIZE) ?e typ (Some a) n 0 s =
    Some (of_nat (min (unat n) (length (records_of typ (madt + MADT_SIZE) rs))),
          Some (put_list 0 (take (unat n) (records_of typ (madt + MADT_SIZE) rs)) a))"
    using find_entries_loop_records [of "madt + MADT_SIZE" rs s ?e 0 n "typ" a] assms u by (simp add: madt_holds_def)
  then show ?thesis using assms by (simp add: FindEntries_def read32_def ptr_add_def madt_holds_def)
qed

text \<open>
  Whatever the table holds, the walk ends: a record of length 0 stops it, and every other record
  moves it forward.  What it reports are addresses inside the table, of records of the type.
\<close>

lemma find_entries_loop_returns:
  assumes "p \<noteq> NULL" "unat e + 255 < 2 ^ 64" "lo \<le> unat p" "unat c \<le> unat n"
    and "\<forall>i<unat c. lo \<le> unat (a i) \<and> unat (a i) < unat e \<and> ucast (mem s (a i)) = typ"
  shows "\<exists>c' a'. find_entries_loop p e typ (Some a) n c s = Some (c', Some a') \<and> unat c' \<le> unat n \<and>
    (\<forall>i<unat c'. lo \<le> unat (a' i) \<and> unat (a' i) < unat e \<and> ucast (mem s (a' i)) = typ)"
  using assms
proof (induction "unat e - unat p" arbitrary: p a c rule: less_induct)
  case less
  show ?case
  proof (cases "p < e")
    case False
    then show ?thesis using less.prems by (subst find_entries_loop.simps) auto
  next
    case True
    let ?hit = "ucast (mem s p) = typ \<and> c < n" and ?l = "mem s (p + 1)"
    let ?a = "if ?hit then a(unat c := p) else a" and ?c = "if ?hit then c + 1 else c"
    have c: "?hit \<Longrightarrow> unat (c + 1) = Suc (unat c)" using unat_Suc_less by blast
    have lt: "unat p < unat e" using True by (simp add: word_less_nat_alt)
    have inv: "unat ?c \<le> unat n" "\<forall>i<unat ?c. lo \<le> unat (?a i) \<and> unat (?a i) < unat e \<and> ucast (mem s (?a i)) = typ"
      using less.prems c lt by (auto simp: word_less_nat_alt less_Suc_eq)
    show ?thesis
    proof (cases "?l = 0")
      case True
      then have "find_entries_loop p e typ (Some a) n c s = Some (?c, Some ?a)"
        using \<open>p < e\<close> less.prems by (subst find_entries_loop.simps) (simp add: read8_def)
      then show ?thesis using inv by blast
    next
      case False
      have "unat ?l < 256" using unat_less_2p [of ?l] by simp
      then have b: "unat p + unat ?l < 2 ^ 64" using less.prems(2) lt by simp
      then have u: "unat (p + ucast ?l) = unat p + unat ?l" using unat_add_less [of p "ucast ?l"] by simp
      have l: "0 < unat ?l" using False by (simp add: unat_gt_0)
      have nn: "p + ucast ?l \<noteq> NULL" using u l by (metis add_is_0 less_numeral_extra(3) unat_0)
      have "find_entries_loop p e typ (Some a) n c s = find_entries_loop (p + ucast ?l) e typ (Some ?a) n ?c s"
        using \<open>p < e\<close> less.prems False b by (subst find_entries_loop.simps) (simp add: read8_def ptr_add_def)
      moreover have "unat e - unat (p + ucast ?l) < unat e - unat p" using u l lt by simp
      ultimately show ?thesis using less.hyps [of "p + ucast ?l" ?c ?a] nn less.prems(2,3) u inv by simp
    qed
  qed
qed

section \<open>Interrupt source overrides\<close>

definition overrides :: "'a ioapic_state_scheme \<Rightarrow> u64 list" where
  "overrides s = map (iso_entries s) [0..<unat (iso_count s)]"

lemma iso_loop_find:
  assumes "unat (iso_count s) \<le> 256" "\<forall>e\<in>set (overrides s). e \<noteq> NULL" "i \<le> unat (iso_count s)"
  shows "iso_loop i irq s = Some (case find (\<lambda>e. mem s (e + ISO_IRQ_Source) = irq) (drop i (overrides s)) of
    None \<Rightarrow> ucast irq | Some e \<Rightarrow> load32 (e + ISO_GSI) (mem s))"
  using assms
proof (induction i irq s rule: iso_loop.induct)
  case (1 i irq s)
  show ?case
  proof (cases "i < unat (iso_count s)")
    case False
    then show ?thesis using "1.prems" by (subst iso_loop.simps) (simp add: overrides_def)
  next
    case True
    let ?e = "iso_entries s i"
    have d: "drop i (overrides s) = ?e # drop (i + 1) (overrides s)"
      using True by (simp add: overrides_def drop_map upt_conv_Cons [of i])
    have e: "?e \<noteq> NULL" "arr_get 256 (iso_entries s) i = Some ?e"
      using True "1.prems" by (auto simp: overrides_def arr_get_def)
    then have r: "read8 ?e ISO_IRQ_Source s = Some (mem s (?e + ISO_IRQ_Source))" by (simp add: read8_def)
    show ?thesis
    proof (cases "mem s (?e + ISO_IRQ_Source) = irq")
      case hit: True
      then show ?thesis unfolding d using True e by (subst iso_loop.simps) (simp add: pointer_access)
    next
      case miss: False
      have "iso_loop i irq s = iso_loop (i + 1) irq s"
        using True e r miss by (subst iso_loop.simps) simp
      then show ?thesis unfolding d using "1.IH" [OF True e(2) r miss] "1.prems" True miss by simp
    qed
  qed
qed

section \<open>Pages of the direct map\<close>

lemma va_path_bits:
  assumes "va_path x = va_path y" "12 \<le> i" "i < 48"
  shows "bit x i \<longleftrightarrow> bit y i"
proof -
  have eq: "bit x (k + j) \<longleftrightarrow> bit y (k + j)" if "take_bit 9 (drop_bit k x) = take_bit 9 (drop_bit k y)" "j < 9" for k j
  proof -
    have "bit (take_bit 9 (drop_bit k x)) j = bit (take_bit 9 (drop_bit k y)) j" using that(1) by simp
    then show ?thesis using that(2) by (simp add: bit_take_bit_iff bit_drop_bit_eq)
  qed
  have f: "take_bit 9 (drop_bit 39 x) = take_bit 9 (drop_bit 39 y)" "take_bit 9 (drop_bit 30 x) = take_bit 9 (drop_bit 30 y)"
    "take_bit 9 (drop_bit 21 x) = take_bit 9 (drop_bit 21 y)" "take_bit 9 (drop_bit 12 x) = take_bit 9 (drop_bit 12 y)"
    using assms(1) by (simp_all add: va_path_def PML4_INDEX_def PDPT_INDEX_def PD_INDEX_def PT_INDEX_def take_bit_9)
  consider "i < 21" | "21 \<le> i" "i < 30" | "30 \<le> i" "i < 39" | "39 \<le> i" by linarith
  then show ?thesis
  proof cases
    case 1 then show ?thesis using eq [OF f(4), of "i - 12"] assms(2) by simp
  next
    case 2 then show ?thesis using eq [OF f(3), of "i - 21"] by simp
  next
    case 3 then show ?thesis using eq [OF f(2), of "i - 30"] by simp
  next
    case 4 then show ?thesis using eq [OF f(1), of "i - 39"] assms(3) by simp
  qed
qed

lemma direct_map_pages_apart:
  assumes "hhdm_ok h" "aligned h" "aligned p" "aligned q" "unat p < 2 ^ 30" "unat q < 2 ^ 30" "va_path (p + h) = va_path (q + h)"
  shows "p = q"
proof -
  have u: "unat (p + h) = unat p + unat h" "unat (q + h) = unat q + unat h"
    using assms by (auto simp: hhdm_ok_def intro!: unat_add_less)
  have a: "aligned (p + h)" "aligned (q + h)" using assms(2-4) by (simp_all add: u)
  have "take_bit 48 (p + h) = take_bit 48 (q + h)"
  proof (rule bit_word_eqI)
    fix i :: nat
    show "bit (take_bit 48 (p + h)) i = bit (take_bit 48 (q + h)) i"
      using a va_path_bits [OF assms(7), of i] by (cases "i < 12") (auto simp: aligned_iff bit_take_bit_iff)
  qed
  then have "take_bit 48 (unat (p + h)) = take_bit 48 (unat (q + h))" by (simp only: unsigned_take_bit_eq [symmetric])
  then have eq: "(unat p + unat h) mod 2 ^ 48 = (unat q + unat h) mod 2 ^ 48" by (simp only: take_bit_eq_mod u)
  have small: "b = c" if "c \<le> b" "b < 2 ^ 30" "(b + d) mod 2 ^ 48 = (c + d) mod 2 ^ 48" for b c d :: nat
  proof -
    have "2 ^ 48 dvd (b + d) - (c + d)" using that mod_eq_dvd_iff_nat [of "c + d" "b + d" "2 ^ 48"] by simp
    then have "2 ^ 48 dvd b - c" by simp
    then show ?thesis using that by (auto dest!: dvd_imp_le)
  qed
  have "unat p = unat q"
    using small [of "unat q" "unat p" "unat h"] small [of "unat p" "unat q" "unat h"] eq assms(5,6) by linarith
  then show ?thesis by simp
qed

section \<open>Loops of \<open>init_IOAPIC\<close>\<close>

definition copy_range :: "nat \<Rightarrow> nat \<Rightarrow> (nat \<Rightarrow> 'a) \<Rightarrow> (nat \<Rightarrow> 'a) \<Rightarrow> nat \<Rightarrow> 'a" where
  "copy_range lo hi f g = (\<lambda>j. if lo \<le> j \<and> j < hi then f j else g j)"

lemma copy_range_empty: "\<not> lo < hi \<Longrightarrow> copy_range lo hi f g = g"
  by (auto simp: copy_range_def fun_eq_iff)

lemma copy_range_step:
  "lo < hi \<Longrightarrow> copy_range (Suc lo) hi f (g(lo := f lo)) = copy_range lo hi f g"
  "lo < hi \<Longrightarrow> copy_range (Suc lo) hi f (\<lambda>a. if a = lo then f lo else g a) = copy_range lo hi f g"
  by (auto simp: copy_range_def fun_eq_iff)

lemma map_copy_range: "map (copy_range 0 n f g) [0..<n] = map f [0..<n]"
  by (simp add: copy_range_def)

lemma copy_ioapic_loop_correct:
  assumes "unat (ioapic_count s) \<le> 16"
  shows "copy_ioapic_loop i f s = Some (s\<lparr>ioapic_entries := copy_range i (unat (ioapic_count s)) f (ioapic_entries s)\<rparr>)"
  using assms
proof (induction i f s rule: copy_ioapic_loop.induct)
  case (1 i f s)
  show ?case
  proof (cases "i < unat (ioapic_count s)")
    case False
    then show ?thesis by (subst copy_ioapic_loop.simps) (simp add: copy_range_empty)
  next
    case True
    then have i: "i < 16" using "1.prems" by simp
    have "copy_ioapic_loop i f s = copy_ioapic_loop (i + 1) f (s\<lparr>ioapic_entries := (ioapic_entries s)(i := f i)\<rparr>)"
      using True i by (subst copy_ioapic_loop.simps) (simp add: c_eval)
    then show ?thesis using "1.IH" [OF True, of "f i" "(ioapic_entries s)(i := f i)"] True i "1.prems"
      by (simp add: c_eval copy_range_step)
  qed
qed

lemma copy_iso_loop_correct:
  assumes "unat (iso_count s) \<le> 256"
  shows "copy_iso_loop i f s = Some (s\<lparr>iso_entries := copy_range i (unat (iso_count s)) f (iso_entries s)\<rparr>)"
  using assms
proof (induction i f s rule: copy_iso_loop.induct)
  case (1 i f s)
  show ?case
  proof (cases "i < unat (iso_count s)")
    case False
    then show ?thesis by (subst copy_iso_loop.simps) (simp add: copy_range_empty)
  next
    case True
    then have i: "i < 256" using "1.prems" by simp
    have "copy_iso_loop i f s = copy_iso_loop (i + 1) f (s\<lparr>iso_entries := (iso_entries s)(i := f i)\<rparr>)"
      using True i by (subst copy_iso_loop.simps) (simp add: c_eval)
    then show ?thesis using "1.IH" [OF True, of "f i" "(iso_entries s)(i := f i)"] True i "1.prems"
      by (simp add: c_eval copy_range_step)
  qed
qed

definition ioapic_addr :: "'a ioapic_state_scheme \<Rightarrow> nat \<Rightarrow> u64" where
  "ioapic_addr s j = ucast (load32 (ioapic_entries s j + IOAPIC_Address) (mem s))"

lemma phys_loop_correct:
  assumes "unat (ioapic_count s) \<le> 16" "\<forall>j<unat (ioapic_count s). ioapic_entries s j \<noteq> NULL"
  shows "phys_loop i s = Some (s\<lparr>phys_address := copy_range i (unat (ioapic_count s)) (ioapic_addr s) (phys_address s)\<rparr>)"
  using assms
proof (induction i s rule: phys_loop.induct)
  case (1 i s)
  show ?case
  proof (cases "i < unat (ioapic_count s)")
    case False
    then show ?thesis by (subst phys_loop.simps) (simp add: copy_range_empty)
  next
    case True
    then have i: "i < 16" "ioapic_entries s i \<noteq> NULL" using "1.prems" by auto
    let ?v = "load32 (ioapic_entries s i + IOAPIC_Address) (mem s)"
    let ?s = "s\<lparr>phys_address := (phys_address s)(i := ioapic_addr s i)\<rparr>"
    have a: "ioapic_addr ?s = ioapic_addr s" by (simp add: ioapic_addr_def fun_eq_iff)
    have "phys_loop i s = phys_loop (i + 1) ?s"
      using True i by (subst phys_loop.simps) (simp add: c_eval read32_def ioapic_addr_def)
    moreover have "phys_loop (i + 1) ?s = Some (?s\<lparr>phys_address := copy_range (i + 1) (unat (ioapic_count ?s)) (ioapic_addr ?s) (phys_address ?s)\<rparr>)"
      using "1.IH" [OF True, of "ioapic_entries s i" ?v "(phys_address s)(i := ucast ?v)"] i "1.prems"
      by (simp add: c_eval read32_def ioapic_addr_def [abs_def] fun_upd_def)
    ultimately show ?thesis using True by (simp only: a) (simp add: copy_range_step)
  qed
qed

section \<open>Mapping the controllers\<close>

definition direct_map_in :: "u64 set \<Rightarrow> u64 \<Rightarrow> bool" where
  "direct_map_in I h \<longleftrightarrow> (\<forall>p. unat p < 2 ^ 30 \<longrightarrow> PML4_INDEX (p + h) \<in> I)"

lemma machine_alloc_page_available:
  assumes "buddy_wf (buddy s)" "free_set (buddy s) \<noteq> {}"
  obtains page b where "machine_alloc_page s = Some (page, s\<lparr>buddy := b\<rparr>)" "aligned page" "unat page < 2 ^ 30" "buddy_wf b"
    "unat page div 4096 \<in> free_set (buddy s)" "free_set b = free_set (buddy s) - {unat page div 4096}"
    "allocated_set b = insert (unat page div 4096) (allocated_set (buddy s))"
proof -
  obtain page b where a: "buddy_alloc_pages 1 (buddy s) = Some (page, b)" "page \<noteq> BUDDY_INVALID_ADDRESS"
    using alloc_page_available [OF assms] by blast
  note f = buddy.single.alloc1_fresh [OF assms(1) a] and n = buddy.single.alloc1_new [OF assms(1) a]
  have "unat page < (unat page div 4096 + 1) * 4096" by simp
  also have "\<dots> \<le> NPAGES * 4096" using n(2) by (intro mult_le_mono1) simp
  finally have u: "unat page < 2 ^ 30" by simp
  have "buddy_wf b" using buddy.single.alloc1_returns [OF assms(1)] a by auto
  then show thesis
    using that [of page b] a(1) u f n(3) by (simp add: machine_alloc_page_def buddy_alloc_page_def dvd_eq_mod_eq_0)
qed

section \<open>What \<open>init_IOAPIC\<close> leaves alone\<close>

definition kept :: "'a ioapic_state_scheme \<Rightarrow> 'a ioapic_state_scheme \<Rightarrow> bool" where
  "kept s s' \<longleftrightarrow> heap_caches s' = heap_caches s \<and> msrs s' = msrs s \<and> g_virt_apic s' = g_virt_apic s \<and> tick s' = tick s \<and>
     cpu_halted s' = cpu_halted s \<and> ioapic_state.more s' = ioapic_state.more s"

lemma kept_refl [simp]: "kept s s"
  by (simp add: kept_def)

lemma kept_trans: "kept s t \<Longrightarrow> kept t u \<Longrightarrow> kept s u"
  by (simp add: kept_def)

lemma kept_more: "machine.more s' = machine.more s \<Longrightarrow> kept s s'"
  by (cases s; cases s') (simp add: kept_def)

text \<open>One controller: with four free frames, its address is mapped at the direct-map address of a fresh page.\<close>

definition ioapic_flags :: u64 where "ioapic_flags = PAGE_PRESENT OR PAGE_WRITABLE OR PAGE_PCD"

lemma ioapic_flags_ok: "flags_ok ioapic_flags"
  by (simp add: ioapic_flags_def flags_ok_def PAGE_PRESENT_def PAGE_WRITABLE_def PAGE_PCD_def PAGE_ADDR_MASK_def)

lemma ioapic_fields:
  assumes "machine.more s' = machine.more (s :: 'a ioapic_state_scheme)"
  shows "mmio s' = mmio s" "ioapic_entries s' = ioapic_entries s" "iso_entries s' = iso_entries s" "phys_address s' = phys_address s"
    "virt_Address s' = virt_Address s" "ioapic_count s' = ioapic_count s" "iso_count s' = iso_count s"
  using assms by (cases s; cases s'; simp)+

lemma map_ioapic_correct:
  fixes s :: "'a ioapic_state_scheme"
  assumes ok: "paging_ok I s" and h: "hhdm s = Some h" "direct_map_in I h" and i: "i < 16" and free: "4 \<le> card (free_set (buddy s))"
  obtains page s' where "map_ioapic i s = Some s'" "paging_ok I s'" "hhdm s' = Some h"
    "virt_Address s' = (virt_Address s)(i := page + h)" "aligned page" "unat page < 2 ^ 30"
    "unat page div 4096 \<in> free_set (buddy s)" "unat page div 4096 \<notin> free_set (buddy s')"
    "free_set (buddy s') \<subseteq> free_set (buddy s)" "card (free_set (buddy s)) \<le> card (free_set (buddy s')) + 4"
    "vmm_get_phys (page + h) s' = Some (phys_target (phys_address s i) (page + h))"
    "\<And>w. PML4_INDEX w \<in> I \<Longrightarrow> va_path w \<noteq> va_path (page + h) \<Longrightarrow> vmm_get_phys w s' = vmm_get_phys w s"
    "phys_address s' = phys_address s" "ioapic_count s' = ioapic_count s" "ioapic_entries s' = ioapic_entries s"
    "iso_count s' = iso_count s" "iso_entries s' = iso_entries s" "mmio s' = mmio s" "kept s s'" "vm_confined I s s'"
proof -
  have wf: "buddy_wf (buddy s)" using ok by (simp add: paging_ok_def)
  have ne: "free_set (buddy s) \<noteq> {}" using free by auto
  from wf ne show thesis
  proof (cases rule: machine_alloc_page_available [case_names page])
    case (page pg b)
    let ?s1 = "s\<lparr>buddy := b\<rparr>\<lparr>virt_Address := (virt_Address s)(i := pg + h)\<rparr>"
    have ok1: "paging_ok I ?s1"
      using paging_alloc [OF ok page(4)] page(6) paging_cong [of ?s1 "s\<lparr>buddy := b\<rparr>" I] by auto
    have fin: "finite (free_set (buddy s))" using free by (simp add: card_ge_0_finite)
    have c1: "card (free_set (buddy s)) = Suc (card (free_set (buddy ?s1)))"
      using card_Suc_Diff1 [OF fin page(5)] by (simp add: page(6))
    have v: "PML4_INDEX (pg + h) \<in> I" using h(2) page(3) by (simp add: direct_map_in_def)
    from ok1 v show thesis
    proof (cases rule: vmm_map_cases [where p = "phys_address s i" and f = ioapic_flags, case_names fail mapped])
      case (fail s2)
      then show ?thesis using c1 free by simp
    next
      case (mapped s2)
      let ?s' = "invlpg_tlb (pg + h) s2"
      note mp = mapped(1)
      have more: "machine.more ?s' = machine.more ?s1" using mapped(2) by (simp add: vm_step_def invlpg_tlb_def)
      note F = ioapic_fields [OF more]
      have "kept s ?s1" by (simp add: kept_def)
      then have kept: "kept s ?s'" using kept_more [OF more] kept_trans by blast
      have ev: "map_ioapic i s = Some ?s'"
        using page(1) mp i h by (simp add: map_ioapic_def phy_to_virt_def ioapic_flags_def c_eval)
      show thesis
      proof (rule that [OF ev])
        show "paging_ok I ?s'" using mapped(2) by (simp add: vm_step_def)
        show "hhdm ?s' = Some h" using mapped(2) h by (simp add: vm_step_def invlpg_tlb_def)
        show "virt_Address ?s' = (virt_Address s)(i := pg + h)" using F(5) by simp
        show "aligned pg" "unat pg < 2 ^ 30" "unat pg div 4096 \<in> free_set (buddy s)" using page by auto
        show "unat pg div 4096 \<notin> free_set (buddy ?s')" "free_set (buddy ?s') \<subseteq> free_set (buddy s)"
          using mapped(2) page(6) by (auto simp: vm_step_def invlpg_tlb_def)
        have "vm_confined I s ?s1" using page(6) by (intro vm_confined_alloc) auto
        then show "vm_confined I s ?s'"
          using vm_confined_trans [OF _ vm_step_confined [OF mapped(2)]] vm_confined_trans [OF _ vm_confined_alloc [of ?s' s2 I], of s]
          by (simp add: invlpg_tlb_def)
        show "card (free_set (buddy s)) \<le> card (free_set (buddy ?s')) + 4"
          using mapped(5) c1 by (simp add: invlpg_tlb_def)
        show "vmm_get_phys (pg + h) ?s' = Some (phys_target (phys_address s i) (pg + h))"
          using vmm.map_this [OF ok1 _ ioapic_flags_ok mp _ refl] v by simp
        show "vmm_get_phys w ?s' = vmm_get_phys w s" if "PML4_INDEX w \<in> I" "va_path w \<noteq> va_path (pg + h)" for w
          using vmm.map_other [OF ok1 _ mp, of w] v that get_phys_cong [of ?s1 s w] by simp
      qed (use F kept in simp_all)
    qed
  qed
qed

definition controller_mapped :: "u64 \<Rightarrow> 'a ioapic_state_scheme \<Rightarrow> nat \<Rightarrow> bool" where
  "controller_mapped h s j \<longleftrightarrow> (\<exists>page. virt_Address s j = page + h \<and> aligned page \<and> unat page < 2 ^ 30 \<and>
     unat page div 4096 \<notin> free_set (buddy s) \<and>
     vmm_get_phys (page + h) s = Some (phys_target (phys_address s j) (page + h)))"

lemma virt_loop_correct:
  fixes s :: "'a ioapic_state_scheme"
  assumes "paging_ok I s" "hhdm s = Some h" "direct_map_in I h" "aligned h" "i + n \<le> 16" "4 * n \<le> card (free_set (buddy s))"
    and "\<forall>j<i. controller_mapped h s j" "inj_on (virt_Address s) {..<i}"
  shows "\<exists>s'. virt_loop i n s = Some s' \<and> paging_ok I s' \<and> hhdm s' = Some h \<and>
    (\<forall>j<i + n. controller_mapped h s' j) \<and> inj_on (virt_Address s') {..<i + n} \<and>
    phys_address s' = phys_address s \<and> ioapic_count s' = ioapic_count s \<and> ioapic_entries s' = ioapic_entries s \<and>
    iso_count s' = iso_count s \<and> iso_entries s' = iso_entries s \<and> mmio s' = mmio s \<and> kept s s' \<and> vm_confined I s s'"
  using assms
proof (induction n arbitrary: i s)
  case 0
  then show ?case by simp
next
  case (Suc n)
  have i: "i < 16" and free: "4 \<le> card (free_set (buddy s))" using Suc.prems(5,6) by auto
  have hok: "hhdm_ok h" using Suc.prems(1,2) by (auto simp: paging_ok_def)
  from Suc.prems(1-3) i free show ?case
  proof (cases rule: map_ioapic_correct [case_names ok])
    case (ok page s1)
    have apart: "va_path (q + h) \<noteq> va_path (page + h)" "q \<noteq> page"
      if "aligned q" "unat q < 2 ^ 30" "unat q div 4096 \<notin> free_set (buddy s)" for q
      using direct_map_pages_apart [OF hok Suc.prems(4) that(1) ok(5) that(2) ok(6)] ok(7) that(3) by auto
    have old: "controller_mapped h s1 j \<and> virt_Address s1 j \<noteq> page + h" if j: "j < i" for j
    proof -
      obtain q where q: "virt_Address s j = q + h" "aligned q" "unat q < 2 ^ 30" "unat q div 4096 \<notin> free_set (buddy s)"
        "vmm_get_phys (q + h) s = Some (phys_target (phys_address s j) (q + h))"
        using Suc.prems(7) j by (auto simp: controller_mapped_def)
      have "PML4_INDEX (q + h) \<in> I" using Suc.prems(3) q(3) by (simp add: direct_map_in_def)
      then show ?thesis
        using q ok(12) [of "q + h"] apart [OF q(2-4)] ok(4,9,13) j by (auto simp: controller_mapped_def)
    qed
    have new: "\<forall>j<Suc i. controller_mapped h s1 j"
      using old ok(4,5,6,8,11,13) by (auto simp: less_Suc_eq controller_mapped_def)
    have "inj_on (virt_Address s1) {..<i}" using Suc.prems(8) ok(4) by (simp add: inj_on_def)
    moreover have "virt_Address s1 i \<notin> virt_Address s1 ` {..<i}" using old ok(4) by fastforce
    ultimately have inj: "inj_on (virt_Address s1) {..<Suc i}" by (simp add: lessThan_Suc)
    have "\<exists>s'. virt_loop (Suc i) n s1 = Some s' \<and> paging_ok I s' \<and> hhdm s' = Some h \<and>
      (\<forall>j<Suc i + n. controller_mapped h s' j) \<and> inj_on (virt_Address s') {..<Suc i + n} \<and>
      phys_address s' = phys_address s1 \<and> ioapic_count s' = ioapic_count s1 \<and> ioapic_entries s' = ioapic_entries s1 \<and>
      iso_count s' = iso_count s1 \<and> iso_entries s' = iso_entries s1 \<and> mmio s' = mmio s1 \<and> kept s1 s' \<and> vm_confined I s1 s'"
      using Suc.prems ok(2,3,10) new inj by (intro Suc.IH) auto
    then show ?thesis using ok(1,13-18) kept_trans [OF ok(19)] vm_confined_trans [OF ok(20)] by auto
  qed
qed

text \<open>The two register reads at the end of \<open>init_IOAPIC\<close>.\<close>

lemma ioapic_read_eq:
  assumes "unat k < 16" "virt_Address s (unat k) \<noteq> NULL"
  shows "ioapic_read dev r k s = (let log = mmio s @ [(virt_Address s (unat k), ucast r)] in
    Some (dev log (virt_Address s (unat k) + 0x10), s\<lparr>mmio := log\<rparr>))"
  using assms by (simp add: ioapic_read_def c_eval mmio_write_def mmio_read_def Let_def)

lemma controller_not_null: "paging_ok I s \<Longrightarrow> hhdm s = Some h \<Longrightarrow> controller_mapped h s j \<Longrightarrow> virt_Address s j \<noteq> NULL"
  using direct_map_not_null by (auto simp: controller_mapped_def paging_ok_def)

lemma records_of_not_null:
  assumes "unat p + records_size rs < 2 ^ 64" "p \<noteq> NULL"
  shows "\<forall>e\<in>set (records_of typ p rs). e \<noteq> NULL"
  using assms
proof (induction rs arbitrary: p)
  case (Cons r rs)
  obtain t l where r: "r = (t, l)" by fastforce
  have u: "unat (p + ucast l) = unat p + unat l" using Cons.prems(1) unat_add_less [of p "ucast l"] by (simp add: r)
  then have "p + ucast l \<noteq> NULL" using Cons.prems(2) by (metis add_is_0 unat_0 unat_inj_iff)
  then show ?case using Cons.IH [of "p + ucast l"] Cons.prems u by (auto simp: r)
qed simp

text \<open>The part of \<open>init_IOAPIC\<close> that reads the table.\<close>

lemma init_tables:
  fixes s :: "'a ioapic_state_scheme"
  assumes holds: "madt_holds madt rs s" and "length (records_of 1 (madt + MADT_SIZE) rs) \<le> 16"
  obtains s1 s2 s3 a b where
    "FindEntries madt 1 (Some (\<lambda>_. 0)) 16 s = Some (of_nat (length (records_of 1 (madt + MADT_SIZE) rs)), Some a)"
    "copy_ioapic_loop 0 a (s\<lparr>ioapic_count := of_nat (length (records_of 1 (madt + MADT_SIZE) rs))\<rparr>) = Some s1"
    "FindEntries madt 2 (Some (\<lambda>_. 0)) 256 s1 = Some (of_nat (length (take 256 (records_of 2 (madt + MADT_SIZE) rs))), Some b)"
    "copy_iso_loop 0 b (s1\<lparr>iso_count := of_nat (length (take 256 (records_of 2 (madt + MADT_SIZE) rs)))\<rparr>) = Some s2"
    "phys_loop 0 s2 = Some s3"
    "buddy s3 = buddy s" "mem s3 = mem s" "hhdm s3 = hhdm s" "cr3 s3 = cr3 s" "mmio s3 = mmio s"
    "unat (ioapic_count s3) = length (records_of 1 (madt + MADT_SIZE) rs)"
    "map (ioapic_entries s3) [0..<unat (ioapic_count s3)] = records_of 1 (madt + MADT_SIZE) rs"
    "overrides s3 = take 256 (records_of 2 (madt + MADT_SIZE) rs)"
    "\<forall>j<unat (ioapic_count s3). phys_address s3 j = ucast (load32 (records_of 1 (madt + MADT_SIZE) rs ! j + IOAPIC_Address) (mem s))"
    "kept s s3"
proof -
  let ?ps = "records_of 1 (madt + MADT_SIZE) rs" and ?os = "take 256 (records_of 2 (madt + MADT_SIZE) rs)"
  have n: "unat (of_nat (length ?ps) :: u32) = length ?ps" "unat (of_nat (length ?os) :: u32) = length ?os"
    using assms(2) by (simp_all add: unat_of_nat)
  let ?a = "put_list 0 ?ps (\<lambda>_. 0)" and ?b = "put_list 0 ?os (\<lambda>_. 0)"
  let ?s1 = "s\<lparr>ioapic_count := of_nat (length ?ps), ioapic_entries := copy_range 0 (length ?ps) ?a (ioapic_entries s)\<rparr>"
  let ?s2 = "?s1\<lparr>iso_count := of_nat (length ?os), iso_entries := copy_range 0 (length ?os) ?b (iso_entries s)\<rparr>"
  let ?s3 = "?s2\<lparr>phys_address := copy_range 0 (length ?ps) (ioapic_addr ?s2) (phys_address s)\<rparr>"
  have e: "ioapic_entries ?s2 j = ?ps ! j" if "j < length ?ps" for j using that by (simp add: copy_range_def put_list_nth)
  have nn: "\<forall>p\<in>set ?ps. p \<noteq> NULL"
  proof (rule records_of_not_null)
    have "unat (madt + MADT_SIZE) = unat madt + 44" using holds unat_add_less [of madt MADT_SIZE] by (auto simp: madt_holds_def)
    then show "unat (madt + MADT_SIZE) + records_size rs < 2 ^ 64" "madt + MADT_SIZE \<noteq> NULL"
      using holds by (auto simp: madt_holds_def)
  qed
  show thesis
  proof (rule that [of ?a ?s1 ?b ?s2 ?s3])
    show "FindEntries madt 1 (Some (\<lambda>_. 0)) 16 s = Some (of_nat (length ?ps), Some ?a)"
      using FindEntries_holds [OF holds, of 1 "\<lambda>_. 0" 16] assms(2) by (simp add: min_def)
    show "copy_ioapic_loop 0 ?a (s\<lparr>ioapic_count := of_nat (length ?ps)\<rparr>) = Some ?s1"
      using copy_ioapic_loop_correct [of "s\<lparr>ioapic_count := of_nat (length ?ps)\<rparr>" 0 ?a] n assms(2) by simp
    have "madt_holds madt rs ?s1" using holds by (simp add: madt_holds_def)
    then show "FindEntries madt 2 (Some (\<lambda>_. 0)) 256 ?s1 = Some (of_nat (length ?os), Some ?b)"
      using FindEntries_holds [of madt rs ?s1 2 "\<lambda>_. 0" 256] by (simp add: min.commute)
    show "copy_iso_loop 0 ?b (?s1\<lparr>iso_count := of_nat (length ?os)\<rparr>) = Some ?s2"
      using copy_iso_loop_correct [of "?s1\<lparr>iso_count := of_nat (length ?os)\<rparr>" 0 ?b] n by simp
    show "phys_loop 0 ?s2 = Some ?s3"
      using phys_loop_correct [of ?s2 0] n assms(2) e nn by simp
    show "map (ioapic_entries ?s3) [0..<unat (ioapic_count ?s3)] = ?ps"
      using n e by (intro nth_equalityI) simp_all
    have "map (copy_range 0 (length ?os) ?b (iso_entries s)) [0..<length ?os] = ?os" by (simp only: map_copy_range map_put_list)
    then show "overrides ?s3 = ?os" unfolding overrides_def using n by simp
    show "\<forall>j<unat (ioapic_count ?s3). phys_address ?s3 j = ucast (load32 (?ps ! j + IOAPIC_Address) (mem s))"
      using n e by (simp add: copy_range_def ioapic_addr_def)
  qed (use n in \<open>simp_all add: kept_def\<close>)
qed

lemma init_IOAPIC_correct:
  fixes s :: "'a ioapic_state_scheme"
  assumes "paging_ok I s" "hhdm s = Some h" "direct_map_in I h" "aligned h" "madt_holds madt rs s"
    and "ps = records_of 1 (madt + MADT_SIZE) rs" "ps \<noteq> []" "length ps \<le> 16" "4 * length ps \<le> card (free_set (buddy s))"
  shows "\<exists>s' v. init_IOAPIC dev madt s = Some s' \<and> paging_ok I s' \<and> hhdm s' = Some h \<and> kept s s' \<and>
    map (ioapic_entries s') [0..<unat (ioapic_count s')] = ps \<and>
    overrides s' = take 256 (records_of 2 (madt + MADT_SIZE) rs) \<and>
    (\<forall>j<length ps. controller_mapped h s' j \<and> phys_address s' j = ucast (load32 (ps ! j + IOAPIC_Address) (mem s))) \<and>
    inj_on (virt_Address s') {..<length ps} \<and>
    v = virt_Address s' 0 \<and> mmio s' = mmio s @ [(v, 1), (v, 0)] \<and>
    IOAPICVER s' = dev (mmio s @ [(v, 1)]) (v + 0x10) \<and> IOAPICID s' = dev (mmio s') (v + 0x10) \<and> vm_confined I s s'"
proof -
  have len: "length (records_of 1 (madt + MADT_SIZE) rs) \<le> 16" using assms(6,8) by simp
  from assms(5) len show ?thesis
  proof (cases rule: init_tables [case_names read])
    case (read s1 s2 s3 a b)
    have ok: "paging_ok I s3" "hhdm s3 = Some h" using paging_cong [OF read(6-9)] read(8) assms(1,2) by simp_all
    obtain s4 where s4: "virt_loop 0 (length ps) s3 = Some s4" "paging_ok I s4" "hhdm s4 = Some h"
      "\<forall>j<length ps. controller_mapped h s4 j" "inj_on (virt_Address s4) {..<length ps}"
      "phys_address s4 = phys_address s3" "ioapic_count s4 = ioapic_count s3" "ioapic_entries s4 = ioapic_entries s3"
      "iso_count s4 = iso_count s3" "iso_entries s4 = iso_entries s3" "mmio s4 = mmio s3" "kept s3 s4" "vm_confined I s3 s4"
      using virt_loop_correct [OF ok assms(3,4), of 0 "length ps"] assms(8,9) read(6) by auto
    let ?v = "virt_Address s4 0"
    let ?s' = "s4\<lparr>mmio := mmio s @ [(?v, 1), (?v, 0)], IOAPICVER := dev (mmio s @ [(?v, 1)]) (?v + 0x10),
      IOAPICID := dev (mmio s @ [(?v, 1), (?v, 0)]) (?v + 0x10)\<rparr>"
    have v: "?v \<noteq> NULL" using controller_not_null [OF s4(2,3)] s4(4) assms(7) by simp
    have n: "unat (ioapic_count s3) = length ps" using read(11) assms(6) by simp
    have "init_IOAPIC dev madt s = Some ?s'"
      using read(1-5,10) s4(1,11) n v by (simp add: init_IOAPIC_def ioapic_read_eq Let_def)
    moreover have "paging_ok I ?s'" using s4(2) paging_cong [of ?s' s4 I] by simp
    moreover have "controller_mapped h ?s' j" if "j < length ps" for j
      using s4(4) that get_phys_cong [of ?s' s4] by (auto simp: controller_mapped_def)
    moreover have "overrides ?s' = take 256 (records_of 2 (madt + MADT_SIZE) rs)"
      using read(13) s4(9,10) by (simp add: overrides_def)
    moreover have "kept s ?s'" using kept_trans [OF read(15) s4(12)] by (simp add: kept_def)
    moreover have "vm_confined I s ?s'"
      using vm_confined_trans [OF vm_confined_trans [OF vm_confined_alloc [of s3 s I] s4(13)] vm_confined_alloc [of ?s' s4 I]] read(6-9) by simp
    ultimately show ?thesis using read(12,14) s4(3,5-8) n assms(6) by (intro exI [of _ ?s'] exI [of _ ?v]) auto
  qed
qed

section \<open>Redirection entries\<close>

lemma field_pos_range: "fst (field_pos f) + snd (field_pos f) \<le> 64"
  by (cases f) simp_all

lemma field_pos_apart: "f \<noteq> g \<Longrightarrow> fst (field_pos f) + snd (field_pos f) \<le> fst (field_pos g) \<or>
  fst (field_pos g) + snd (field_pos g) \<le> fst (field_pos f)"
  by (cases f; cases g) simp_all

lemma bit_set_field:
  "bit (set_field f v w) i \<longleftrightarrow> i < 64 \<and> (if fst (field_pos f) \<le> i \<and> i < fst (field_pos f) + snd (field_pos f)
     then bit v (i - fst (field_pos f)) else bit w i)"
  using field_pos_range [of f]
  by (auto simp: set_field_def bit_simps split: prod.splits dest: bit_imp_le_length)

lemma bit_get_field:
  "bit (get_field f w) i \<longleftrightarrow> i < snd (field_pos f) \<and> bit w (fst (field_pos f) + i)"
  using field_pos_range [of f]
  by (auto simp: get_field_def bit_simps split: prod.splits dest: bit_imp_le_length)

lemma get_set_field:
  "get_field f (set_field g v w) = (if f = g then take_bit (snd (field_pos f)) v else get_field f w)"
proof (rule bit_word_eqI)
  fix i :: nat assume "i < LENGTH(64)"
  show "bit (get_field f (set_field g v w)) i = bit (if f = g then take_bit (snd (field_pos f)) v else get_field f w) i"
    using field_pos_apart [of f g] field_pos_range [of f]
    by (auto simp: bit_get_field bit_set_field bit_take_bit_iff)
qed

lemma dwords_join: "ucast (lowerDword w) OR push_bit 32 (ucast (upperDword w)) = (w :: u64)"
  by (rule bit_word_eqI) (auto simp: lowerDword_def upperDword_def bit_simps)

text \<open>
  The register file behind the two windows of a controller with \<open>pins\<close> inputs: a store to the base
  selects a register, a store to the base + 0x10 writes the selected one, as far as the data sheet
  lets software write it: the identification in bits 24 to 27 of register 0, and of the redirection
  registers, two for each input from 0x10 on, all but the bits of \<open>Delivery_Status\<close>, \<open>Remote_IRR\<close> and
  \<open>Reserved\<close>.  Version, arbitration and registers that do not exist ignore a store.
  \<open>register_window\<close> states this for any device, and the redirection entry of an input is two of
  its registers.
\<close>

definition redirection :: "(u8 \<Rightarrow> u32) \<Rightarrow> u8 \<Rightarrow> u64" where
  "redirection r pin = ucast (r (0x10 + 2 * pin)) OR push_bit 32 (ucast (r (0x11 + 2 * pin)))"

definition redir_low_writable :: u32 where "redir_low_writable = 0x0001AFFF"
definition redir_high_writable :: u32 where "redir_high_writable = 0xFF000000"

definition io_writable :: "nat \<Rightarrow> u8 \<Rightarrow> u32" where
  "io_writable pins r =
     (if r = 0 then 0x0F000000
      else if 0x10 \<le> r \<and> unat r < 16 + 2 * pins then if even (unat r) then redir_low_writable else redir_high_writable
      else 0)"

text \<open>What a store leaves in a register, and in a whole entry.\<close>

definition merged :: "'a::len word \<Rightarrow> 'a word \<Rightarrow> 'a word \<Rightarrow> 'a word" where
  "merged W new old = (new AND W) OR (old AND NOT W)"

definition redir_writable :: u64 where
  "redir_writable = ucast redir_low_writable OR push_bit 32 (ucast redir_high_writable)"

definition read_only :: "redir_field \<Rightarrow> bool" where
  "read_only f \<longleftrightarrow> f \<in> {Delivery_Status, Remote_IRR, Redir_Reserved}"

lemma bit_redir_writable: "bit redir_writable i \<longleftrightarrow> i < 12 \<or> i = 13 \<or> i = 15 \<or> i = 16 \<or> 56 \<le> i \<and> i < 64"
proof -
  have e: "redir_writable = mask 12 OR push_bit 13 (mask 1) OR push_bit 15 (mask 2) OR push_bit 56 (mask 8)"
    by (simp add: redir_writable_def redir_low_writable_def redir_high_writable_def mask_eq_exp_minus_1)
  show ?thesis unfolding e by (simp only: bit_or_iff bit_push_bit_iff bit_mask_iff) auto
qed

lemma merged_field: "get_field f (merged redir_writable w old) = (if read_only f then get_field f old else get_field f w)"
proof -
  have "bit redir_writable (fst (field_pos f) + i) \<longleftrightarrow> \<not> read_only f" if "i < snd (field_pos f)" for i
    using that by (cases f) (auto simp: bit_redir_writable read_only_def)
  then show ?thesis
    using field_pos_range [of f] by (intro bit_word_eqI) (auto simp: bit_get_field merged_def bit_or_iff bit_and_iff bit_not_iff)
qed

lemma merged_dwords:
  "ucast (merged redir_low_writable (lowerDword w) x) OR push_bit 32 (ucast (merged redir_high_writable (upperDword w) y)) =
   merged redir_writable w (ucast x OR push_bit 32 (ucast y))" (is "?l = ?r")
proof (rule bit_word_eqI)
  fix n :: nat
  have "\<not> bit (A :: u32) n" if "32 \<le> n" for A using that by (auto dest: bit_imp_le_length)
  then show "bit ?l n \<longleftrightarrow> bit ?r n" if "n < LENGTH(64)"
    using that by (cases "n < 32") (auto simp: merged_def redir_writable_def lowerDword_def upperDword_def bit_simps)
qed

locale register_window =
  fixes base :: u64 and pins :: nat and reg :: "(u64 \<times> u32) list \<Rightarrow> u8 \<Rightarrow> u32"
  assumes store_reg: "reg (log @ [(base, ucast r), (base + 0x10, v)]) =
      (reg log)(r := merged (io_writable pins r) v (reg log r))"
    and pins_fit: "pins \<le> 120"
begin

lemma redirection_programmed:
  assumes "unat pin < pins" "unat q < 120"
  shows "redirection (reg (log @ [(base, ucast (0x10 + 2 * pin)), (base + 0x10, lowerDword w),
      (base, ucast (0x11 + 2 * pin)), (base + 0x10, upperDword w)])) q =
    (if q = pin then merged redir_writable w (redirection (reg log) q) else redirection (reg log) q)"
proof -
  have e: "log @ [(base, ucast (0x10 + 2 * pin)), (base + 0x10, lowerDword w), (base, ucast (0x11 + 2 * pin)), (base + 0x10, upperDword w)] =
    (log @ [(base, ucast (0x10 + 2 * pin)), (base + 0x10, lowerDword w)]) @ [(base, ucast (0x11 + 2 * pin)), (base + 0x10, upperDword w)]"
    by simp
  have pin: "unat pin < 120" using assms(1) pins_fit by simp
  have u: "unat (0x10 + 2 * x :: u8) = 16 + 2 * unat x" "unat (0x11 + 2 * x :: u8) = 17 + 2 * unat x" if "unat x < 120" for x
    using that by (simp_all add: unat_word_ariths)
  have ne: "(0x11 + 2 * x :: u8) \<noteq> 0x10 + 2 * y" if "unat x < 120" "unat y < 120" for x y
  proof
    assume "(0x11 + 2 * x :: u8) = 0x10 + 2 * y"
    then have "17 + 2 * unat x = 16 + 2 * unat y" using u that by metis
    then show False by presburger
  qed
  have eq: "(0x10 + 2 * x :: u8) = 0x10 + 2 * y \<longleftrightarrow> x = y" "(0x11 + 2 * x :: u8) = 0x11 + 2 * y \<longleftrightarrow> x = y"
    if "unat x < 120" "unat y < 120" for x y
    using u [OF that(1)] u [OF that(2)] by (metis add_left_cancel mult_left_cancel unat_inj_iff zero_neq_numeral)+
  have "io_writable pins (0x10 + 2 * pin) = redir_low_writable" "io_writable pins (0x11 + 2 * pin) = redir_high_writable"
    using u [OF pin] assms(1) unat_gt_0 [of "0x10 + 2 * pin"] unat_gt_0 [of "0x11 + 2 * pin"]
    by (auto simp: io_writable_def word_le_nat_alt)
  then show ?thesis
    unfolding redirection_def e store_reg using ne [OF pin assms(2)] ne [OF assms(2) pin] eq [OF assms(2) pin]
    by (auto simp: merged_dwords)
qed

end

record io_regs =
  io_select :: u8
  io_reg :: "u8 \<Rightarrow> u32"

definition io_store :: "u64 \<Rightarrow> nat \<Rightarrow> u64 \<times> u32 \<Rightarrow> io_regs \<Rightarrow> io_regs" where
  "io_store base pins w d =
     (if fst w = base then d\<lparr>io_select := ucast (snd w)\<rparr>
      else if fst w = base + 0x10
      then d\<lparr>io_reg := (io_reg d)(io_select d := merged (io_writable pins (io_select d)) (snd w) (io_reg d (io_select d)))\<rparr>
      else d)"

lemma ucast_ucast_u8: "ucast (ucast (r :: u8) :: u32) = r"
  by (rule bit_word_eqI) (simp add: bit_simps)

text \<open>A controller after a history of stores, from any contents of its registers.\<close>

definition io_regs_after :: "io_regs \<Rightarrow> u64 \<Rightarrow> nat \<Rightarrow> (u64 \<times> u32) list \<Rightarrow> io_regs" where
  "io_regs_after d base pins log = fold (io_store base pins) log d"

lemma io_window: "pins \<le> 120 \<Longrightarrow> register_window base pins (\<lambda>log. io_reg (io_regs_after d base pins log))"
  by unfold_locales (simp_all add: io_regs_after_def io_store_def ucast_ucast_u8)

text \<open>The 24 inputs of the common controller.\<close>

interpretation io: register_window base 24 "\<lambda>log. io_reg (io_regs_after d base 24 log)" for base d
  by (rule io_window) simp

end
