(* ===== verification/IOAPIC_Properties.thy ===== *)
theory IOAPIC_Properties
  imports IOAPIC
begin

text \<open>
  The properties of the I/O interrupt controller code, with witnesses on a machine whose interrupt
  table has one controller and one override (\<open>demo_ioapic\<close>).
\<close>

section \<open>A machine with a controller\<close>

text \<open>
  The interrupt table at physical address 0x4000 has one controller record, for the device at
  0xFEC00000, and one override, of source 0 by interrupt 2.
\<close>

abbreviation MADT :: u64 where "MADT \<equiv> 0xFFFF800000004000"

definition demo_madt_mem :: memory where
  "demo_madt_mem = poke (HH + 0x4004) [66] (poke (HH + 0x402C) [1, 12, 0, 0, 0, 0, 0xC0, 0xFE, 0, 0, 0, 0]
     (poke (HH + 0x4038) [2, 10, 0, 0, 2, 0, 0, 0, 0, 0] demo_tables_mem))"

definition demo_ioapic :: ioapic_state where
  "demo_ioapic = \<lparr>buddy = demo_state, mem = demo_madt_mem, hhdm = Some HH, cr3 = 0x5018, tlb_flushed = [],
     heap_caches = \<lambda>_. \<lparr>object_size = 0, partial_pages = 0\<rparr>, msrs = \<lambda>_. (0xFEE00900, 0), g_virt_apic = HH + 0xFEE00000,
     mmio = [], tick = 0, cpu_halted = False, ioapic_entries = \<lambda>_. 0, iso_entries = \<lambda>_. 0, phys_address = \<lambda>_. 0,
     virt_Address = \<lambda>_. 0, ioapic_count = 0, iso_count = 0, IOAPICVER = 0, IOAPICID = 0\<rparr>"

lemma demo_direct_map: "direct_map_in {256} HH"
  unfolding direct_map_in_def
proof (intro allI impI)
  fix p :: u64 assume p: "unat p < 2 ^ 30"
  have u: "unat (p + HH) = unat p + unat HH" using p by (intro unat_add_less) simp
  have "unat (PML4_INDEX (p + HH)) = take_bit 9 (drop_bit 39 (unat (p + HH)))"
    by (simp only: PML4_INDEX_def take_bit_9 unsigned_take_bit_eq unsigned_drop_bit_eq)
      (simp add: take_bit_nat_eq_self unat_less_2p [where 'a = 64, simplified])
  also have "\<dots> = (unat p + unat HH) div 2 ^ 39 mod 2 ^ 9" by (simp only: take_bit_eq_mod drop_bit_eq_div u)
  also have "\<dots> = (unat p + 33554176 * 2 ^ 39) div 2 ^ 39 mod 2 ^ 9" by simp
  also have "\<dots> = 256" using p by (subst div_mult_self1) simp_all
  finally have "unat (PML4_INDEX (p + HH)) = unat (256 :: u64)" by simp
  then show "PML4_INDEX (p + HH) \<in> {256}" by (simp only: unat_inj_iff singleton_iff)
qed

lemma demo_ioapic_paging: "paging_ok {256} demo_ioapic"
proof -
  have e: "entry_at HH demo_madt_mem 0x5000 256 = 0"
    by (simp add: entry_at_def demo_madt_mem_def demo_tables_mem_def load_eval)
  have w: "walk HH demo_madt_mem 0x5000 p = Some t \<Longrightarrow> p \<in> paths 3 {256} \<Longrightarrow> p = [] \<and> t = 0x5000" for p t
    by (cases p) (auto simp: e paths_def)
  have "pt_tree {256} HH 0x5000 demo_madt_mem {256, 257, 258, 259}"
    unfolding pt_tree_def by (auto dest!: w)
  then show ?thesis
    using demo_wf demo_free(1) by (simp add: paging_ok_def demo_ioapic_def hhdm_ok_def pt_root_def PAGE_ADDR_MASK_def)
qed

lemma demo_madt: "madt_holds MADT [(1, 12), (2, 10)] demo_ioapic"
  by (simp add: madt_holds_def demo_ioapic_def) (simp add: demo_madt_mem_def demo_tables_mem_def load_eval)


section \<open>Properties\<close>

text \<open>
  C35. \<open>FindEntries\<close> on a table made of records: it collects the addresses of the records of the type
  asked for, in order and up to the size of the array, and returns their number.
\<close>

theorem FindEntries_records:
  assumes "madt_holds madt rs s"
  shows "\<exists>c a'. FindEntries madt typ (Some a) n s = Some (c, Some a') \<and>
    map a' [0..<unat c] = take (unat n) (records_of typ (madt + MADT_SIZE) rs)"
proof -
  let ?ps = "take (unat n) (records_of typ (madt + MADT_SIZE) rs)"
  have c: "unat (of_nat (length ?ps) :: u32) = length ?ps"
    using unat_less_2p [of n] by (simp add: unat_of_nat min_def)
  show ?thesis
    using FindEntries_holds [OF assms, of "typ" a n] c map_put_list [of ?ps a]
    by (intro exI [of _ "of_nat (length ?ps)"] exI [of _ "put_list 0 ?ps a"]) (simp add: min.commute)
qed

theorem FindEntries_records_witness:
  "\<exists>c a'. FindEntries MADT 2 (Some (\<lambda>_. 0)) 256 demo_ioapic = Some (c, Some a') \<and> map a' [0..<unat c] = [0xFFFF800000004038]"
  using FindEntries_records [OF demo_madt, of 2 "\<lambda>_. 0" 256] by simp

text \<open>
  C36. \<open>FindEntries\<close> ends on every table, however malformed, that does not reach to the end of the
  address space: it reports at most as many entries as the array holds, and only addresses inside
  the table, beyond its header, at which a byte of the type asked for stands.
\<close>

theorem FindEntries_returns:
  assumes "madt \<noteq> NULL" "unat madt + unat (load32 (madt + SDT_Length) (mem s)) + 255 < 2 ^ 64" "unat madt + 44 < 2 ^ 64"
  shows "\<exists>c a'. FindEntries madt typ (Some a) n s = Some (c, Some a') \<and> c \<le> n \<and>
    (\<forall>i<unat c. unat madt + 44 \<le> unat (a' i) \<and> unat (a' i) < unat madt + unat (load32 (madt + SDT_Length) (mem s)) \<and>
       ucast (mem s (a' i)) = typ)"
proof -
  let ?len = "load32 (madt + SDT_Length) (mem s)"
  have u: "unat (madt + MADT_SIZE) = unat madt + 44" "unat (madt + ucast ?len) = unat madt + unat ?len"
    using assms unat_add_less [of madt MADT_SIZE] unat_add_less [of madt "ucast ?len"] by auto
  have nn: "madt + MADT_SIZE \<noteq> NULL" using u(1) by (metis add_is_0 unat_0 zero_neq_numeral)
  have ev: "FindEntries madt typ (Some a) n s = find_entries_loop (madt + MADT_SIZE) (madt + ucast ?len) typ (Some a) n 0 s"
    using assms by (simp add: FindEntries_def read32_def ptr_add_def)
  show ?thesis
    unfolding ev using find_entries_loop_returns [OF nn, of "madt + ucast ?len" "unat madt + 44" 0 n a s "typ"] u assms(2)
    by (auto simp: word_le_nat_alt)
qed

theorem FindEntries_returns_witness:
  "\<exists>c a'. FindEntries MADT 1 (Some (\<lambda>_. 0)) 16 demo_ioapic = Some (c, Some a') \<and> c \<le> 16 \<and>
     a' ` {..<unat c} \<subseteq> {x. unat MADT + 44 \<le> unat x \<and> unat x < unat MADT + 66 \<and> mem demo_ioapic x = 1}"
proof -
  have l: "load32 (MADT + SDT_Length) (mem demo_ioapic) = 66"
    by (simp add: demo_ioapic_def demo_madt_mem_def demo_tables_mem_def load_eval)
  have u: "ucast (x :: u8) = (1 :: u32) \<Longrightarrow> x = 1" for x by (metis ucast_ucast_u8 unsigned_1)
  show ?thesis using FindEntries_returns [of MADT demo_ioapic 1 "\<lambda>_. 0" 16] unfolding l by (auto dest: u)
qed


text \<open>
  C37. \<open>init_IOAPIC\<close> with a table of at most 16 controllers and four free frames for each: it returns;
  the arrays hold the controllers and the first 256 overrides of the table in order; each
  controller's device address is mapped at an address of its own, the direct-map address of a page
  taken from the allocator; the version and identification registers of the first controller are
  read through its window; the paging invariant still holds; and of memory, only page tables and
  free frames have changed.
\<close>

theorem init_IOAPIC_ready:
  fixes s :: "'a ioapic_state_scheme"
  assumes "paging_ok I s" "hhdm s = Some h" "direct_map_in I h" "aligned h" "madt_holds madt rs s"
    and "ps = records_of 1 (madt + MADT_SIZE) rs" "ps \<noteq> []" "length ps \<le> 16" "4 * length ps \<le> card (free_set (buddy s))"
  shows "\<exists>s' v. init_IOAPIC dev madt s = Some s' \<and> paging_ok I s' \<and> hhdm s' = Some h \<and> kept s s' \<and>
    map (ioapic_entries s') [0..<unat (ioapic_count s')] = ps \<and>
    overrides s' = take 256 (records_of 2 (madt + MADT_SIZE) rs) \<and>
    (\<forall>j<length ps. controller_mapped h s' j \<and> phys_address s' j = ucast (load32 (ps ! j + IOAPIC_Address) (mem s))) \<and>
    inj_on (virt_Address s') {..<length ps} \<and>
    v = virt_Address s' 0 \<and> mmio s' = mmio s @ [(v, 1), (v, 0)] \<and>
    IOAPICVER s' = dev (mmio s @ [(v, 1)]) (v + 0x10) \<and> IOAPICID s' = dev (mmio s') (v + 0x10) \<and> vm_confined I s s'"
  using init_IOAPIC_correct [OF assms] .

theorem init_IOAPIC_ready_witness:
  "\<exists>s'. init_IOAPIC (\<lambda>_ _. 0x170011) MADT demo_ioapic = Some s' \<and> ioapic_count s' = 1 \<and> iso_count s' = 1 \<and>
     phys_address s' 0 = 0xFEC00000 \<and> IOAPICVER s' = 0x170011"
proof -
  let ?ps = "records_of 1 (MADT + MADT_SIZE) [(1, 12), (2, 10)]"
  have ps: "?ps = [0xFFFF80000000402C]" by simp
  have c: "card (free_set (buddy demo_ioapic)) = 4" "hhdm demo_ioapic = Some HH" using demo_free(1) by (simp_all add: demo_ioapic_def)
  have a: "load32 (0xFFFF80000000402C + IOAPIC_Address) (mem demo_ioapic) = 0xFEC00000"
    by (simp add: demo_ioapic_def demo_madt_mem_def demo_tables_mem_def load_eval)
  obtain s' where s': "init_IOAPIC (\<lambda>_ _. 0x170011) MADT demo_ioapic = Some s'"
    "map (ioapic_entries s') [0..<unat (ioapic_count s')] = ?ps" "overrides s' = take 256 (records_of 2 (MADT + MADT_SIZE) [(1, 12), (2, 10)])"
    "phys_address s' 0 = 0xFEC00000" "IOAPICVER s' = 0x170011"
    using init_IOAPIC_ready [OF demo_ioapic_paging c(2) demo_direct_map _ demo_madt refl, of "\<lambda>_ _. 0x170011"] c(1) ps a by auto
  have "unat (ioapic_count s') = unat (1 :: u32)" using arg_cong [OF s'(2), of length] ps by simp
  moreover have "unat (iso_count s') = unat (1 :: u32)" using arg_cong [OF s'(3), of length] by (simp add: overrides_def)
  ultimately show ?thesis using s' by (simp only: unat_inj_iff) blast
qed


lemma loadRedir_log:
  assumes "Get_pin e irq s = Some pin" "virt_Address s 0 \<noteq> NULL"
  shows "loadRedir r e irq s = Some (s\<lparr>mmio := mmio s @
    [(virt_Address s 0, ucast (0x10 + 2 * pin)), (virt_Address s 0 + 0x10, lowerDword r),
     (virt_Address s 0, ucast (0x11 + 2 * pin)), (virt_Address s 0 + 0x10, upperDword r)]\<rparr>)"
proof -
  have "OffsetLower pin = 0x10 + 2 * pin" "OffsetUpper pin = 0x11 + 2 * pin"
    by (simp_all add: OffsetLower_def OffsetUpper_def)
  then show ?thesis using assms by (simp add: loadRedir_def ioapic_write_def c_eval mmio_write_def)
qed

text \<open>The input an interrupt is routed to, from the overrides of the table and the record of the controller.\<close>

lemma Get_pin_routed:
  assumes "unat (iso_count s) \<le> 256" "\<forall>r\<in>set (overrides s). r \<noteq> NULL" "e \<noteq> NULL"
  shows "Get_pin e irq s = Some (ucast ((case find (\<lambda>r. mem s (r + ISO_IRQ_Source) = irq) (overrides s) of
      None \<Rightarrow> ucast irq | Some r \<Rightarrow> load32 (r + ISO_GSI) (mem s)) - load32 (e + IOAPIC_GSI_base) (mem s)))"
  using iso_loop_find [OF assms(1,2), of 0 irq] assms(3) by (simp add: Get_pin_def Get_iso_gsi_def read32_def)

text \<open>
  C38. Programming a redirection entry.  The interrupt is given by its line \<open>irq\<close>, its global number
  \<open>gsi\<close> is that of the first override of the line in the table, or the line itself when there is
  none, and the first controller, with record \<open>e\<close>, takes the numbers from its \<open>GSI_base\<close> on, one for each
  of its \<open>pins\<close> inputs; let \<open>gsi\<close> be one of them.  After \<open>writeRedir\<close> and \<open>loadRedir\<close> the entry of the input
  \<open>gsi - GSI_base\<close> has the arguments in its fields, each cut to the width of the field; the status bits
  and the reserved bits, which software cannot write, are as before; and so are the entries of all
  other inputs and, of the kernel's state, everything but the device.
\<close>

theorem loadRedir_programs:
  fixes s :: "'a ioapic_state_scheme"
  assumes "unat (iso_count s) \<le> 256" "\<forall>r\<in>set (overrides s). r \<noteq> NULL"
    and "e = ioapic_entries s 0" "e \<noteq> NULL" "virt_Address s 0 \<noteq> NULL"
    and "gsi = (case find (\<lambda>r. mem s (r + ISO_IRQ_Source) = irq) (overrides s) of None \<Rightarrow> ucast irq
           | Some r \<Rightarrow> load32 (r + ISO_GSI) (mem s))"
    and "gsi_base = load32 (e + IOAPIC_GSI_base) (mem s)"
    and "unat gsi_base \<le> unat gsi" "unat gsi < unat gsi_base + pins" "pins \<le> 120"
    and "pin = of_nat (unat gsi - unat gsi_base)"
    and "entry = (\<lambda>t. redirection (io_reg (io_regs_after d (virt_Address s 0) pins (mmio t))))"
  shows "\<exists>s' w. loadRedir (writeRedir vec delv dst pol trg msk dest r) e irq s = Some s' \<and> s' = s\<lparr>mmio := mmio s'\<rparr> \<and>
    w = entry s' pin \<and> get_field Redir_vector w = ucast vec \<and> get_field Delivery_Mode w = take_bit 3 (ucast delv) \<and>
    get_field Destination_Mode w = take_bit 1 (ucast dst) \<and> get_field Pin_Polarity w = take_bit 1 (ucast pol) \<and>
    get_field Trigger_Mode w = take_bit 1 (ucast trg) \<and> get_field Redir_Mask w = take_bit 1 (ucast msk) \<and>
    get_field Redir_destination w = ucast dest \<and>
    (\<forall>f\<in>{Delivery_Status, Remote_IRR, Redir_Reserved}. get_field f w = get_field f (entry s pin)) \<and>
    (\<forall>q. unat q < 120 \<and> q \<noteq> pin \<longrightarrow> entry s' q = entry s q)"
proof -
  let ?w = "writeRedir vec delv dst pol trg msk dest r"
  have b: "take_bit 8 (ucast x :: u64) = ucast x" for x :: u8
    by (rule bit_word_eqI) (auto simp: bit_simps dest: bit_imp_le_length)
  have pin: "unat (gsi - gsi_base) = unat gsi - unat gsi_base" using assms(8) by (simp add: unat_sub_if')
  then have "Get_pin e irq s = Some pin"
    unfolding Get_pin_routed [OF assms(1,2,4)] assms(6,7) [symmetric] assms(11) pin [symmetric] by simp
  then obtain s' where s': "loadRedir ?w e irq s = Some s'" "s' = s\<lparr>mmio := mmio s'\<rparr>"
    "mmio s' = mmio s @ [(virt_Address s 0, ucast (0x10 + 2 * pin)), (virt_Address s 0 + 0x10, lowerDword ?w),
     (virt_Address s 0, ucast (0x11 + 2 * pin)), (virt_Address s 0 + 0x10, upperDword ?w)]"
    using loadRedir_log [OF _ assms(5), of e irq pin ?w] by auto
  have "unat gsi - unat gsi_base < pins" "unat gsi - unat gsi_base < 2 ^ 8" using assms(8-10) by simp_all
  then have p: "unat pin < pins" unfolding assms(11) by (simp only: unsigned_of_nat) (simp add: take_bit_nat_eq_self)
  have w: "entry s' q = (if q = pin then merged redir_writable ?w (entry s q) else entry s q)" if "unat q < 120" for q
    unfolding assms(12) s'(3) using register_window.redirection_programmed [OF io_window [OF assms(10)] p that] by simp
  have p': "unat pin < 120" using p assms(10) by simp
  show ?thesis
    by (intro exI [of _ s'] exI [of _ "entry s' pin"] conjI ballI allI impI s'(1,2) refl)
       (use p' in \<open>auto simp: w merged_field read_only_def writeRedir_def Let_def get_set_field b\<close>)
qed

definition demo_ioapic_on :: ioapic_state where
  "demo_ioapic_on = demo_ioapic\<lparr>virt_Address := (\<lambda>_. 0)(0 := HH + 0x100000), ioapic_entries := (\<lambda>_. 0)(0 := 0xFFFF80000000402C),
     ioapic_count := 1, iso_entries := (\<lambda>_. 0)(0 := 0xFFFF800000004038), iso_count := 1\<rparr>"

lemma demo_routes:
  "overrides demo_ioapic_on = [0xFFFF800000004038]" "ioapic_entries demo_ioapic_on 0 = 0xFFFF80000000402C"
  "mem demo_ioapic_on 0xFFFF80000000403B = 0" "load32 0xFFFF80000000403C (mem demo_ioapic_on) = 2"
  "load32 0xFFFF800000004034 (mem demo_ioapic_on) = 0" "virt_Address demo_ioapic_on 0 = HH + 0x100000" "unat (iso_count demo_ioapic_on) = 1"
  by (simp_all add: overrides_def demo_ioapic_on_def) (simp_all add: demo_ioapic_def demo_madt_mem_def demo_tables_mem_def load_eval)

definition demo_io_reset :: io_regs where
  "demo_io_reset = \<lparr>io_select = 0, io_reg = \<lambda>r. if 0x10 \<le> r \<and> even (unat r) then 0x10000 else if r = 1 then 0x170011 else 0\<rparr>"

theorem loadRedir_programs_witness:
  "\<exists>s' w. loadRedir (writeRedir 0x20 0 0 0 0 0 7 0) 0xFFFF80000000402C 0 demo_ioapic_on = Some s' \<and>
     w = redirection (io_reg (io_regs_after demo_io_reset (HH + 0x100000) 24 (mmio s'))) 2 \<and>
     get_field Redir_vector w = 0x20 \<and> get_field Redir_Mask w = 0 \<and> get_field Redir_destination w = 7"
proof -
  have "(case find (\<lambda>r. mem demo_ioapic_on (r + ISO_IRQ_Source) = 0) (overrides demo_ioapic_on) of None \<Rightarrow> ucast (0 :: u8)
      | Some r \<Rightarrow> load32 (r + ISO_GSI) (mem demo_ioapic_on)) = (2 :: u32)"
    "load32 (0xFFFF80000000402C + IOAPIC_GSI_base) (mem demo_ioapic_on) = 0" by (simp_all add: demo_routes)
  then show ?thesis
    using loadRedir_programs [of demo_ioapic_on "0xFFFF80000000402C" 2 0 0 24 2
      "\<lambda>t. redirection (io_reg (io_regs_after demo_io_reset (virt_Address demo_ioapic_on 0) 24 (mmio t)))" demo_io_reset "0x20" 0 0 0 0 0 7 0]
    by (auto simp: demo_routes)
qed

text \<open>
  \<open>loadRedir\<close> stores to the window of the first controller whatever record it is given: for an input of
  another controller, with a window of its own, the registers of that controller do not change.
\<close>

lemma loadRedir_other_controller:
  assumes "loadRedir r e irq s = Some s'" "v = virt_Address s 0" "u \<notin> {v, v + 0x10}" "u + 0x10 \<notin> {v, v + 0x10}"
  shows "io_regs_after d u pins (mmio s') = io_regs_after d u pins (mmio s)"
proof -
  have a: "arr_get 16 f 0 = Some (f 0)" for f :: "nat \<Rightarrow> u64" by (simp add: arr_get_def)
  have "\<exists>a b. mmio s' = mmio s @ [(v, a), (v + 0x10, lowerDword r), (v, b), (v + 0x10, upperDword r)]"
    using assms(1,2) by (auto simp: loadRedir_def ioapic_write_def mmio_write_def a bind_eq_Some_conv split: if_splits)
  then show ?thesis using assms(3,4) by (auto simp: io_regs_after_def io_store_def)
qed

text \<open>\<open>Get_APICID\<close> is always 0: the register is cut to its low byte before its top byte is taken.\<close>

lemma Get_APICID_zero: "g_virt_apic s \<noteq> NULL \<Longrightarrow> Get_APICID dev s = Some 0"
proof -
  have "drop_bit 24 (uint (x :: u8)) = 0" for x
  proof -
    have "uint x < 2 ^ 24" using uint_lt2p [of x] by simp
    then show ?thesis by (simp add: drop_bit_eq_div)
  qed
  then show "g_virt_apic s \<noteq> NULL \<Longrightarrow> Get_APICID dev s = Some 0"
    by (simp add: Get_APICID_def read_lapic_register_def mmio_read_def)
qed

text \<open>\<open>findTable\<close> gives \<open>NULL\<close> for a table that is not there; \<open>init_IOAPIC\<close> then reads through the null pointer.\<close>

lemma init_IOAPIC_null: "init_IOAPIC dev NULL s = None"
  by (simp add: init_IOAPIC_def FindEntries_def read32_def)

end
