(* ===== verification/Boot_Protocol.thy ===== *)
theory Boot_Protocol
  imports Yoix_Prelude
begin

text \<open>
  The requests the kernel makes to the boot loader, \<open>src/kernel/src/main.c\<close>, with the part of the protocol's
  header \<open>src/kernel/src/boot/limine.h\<close> that they use, and the section of the image they are placed in.
\<close>

section \<open>The macros of \<open>limine.h\<close>\<close>

definition LIMINE_REQUESTS_START_MARKER :: "u64 list" where
  "LIMINE_REQUESTS_START_MARKER = [0xf6b8f4b39de7d1ae, 0xfab91a6940fcb9cf, 0x785c6ed015d3e316, 0x181e920a7852b9d9]"

definition LIMINE_REQUESTS_END_MARKER :: "u64 list" where
  "LIMINE_REQUESTS_END_MARKER = [0xadc0e0531bb10d03, 0x9572709f31764c62]"

definition LIMINE_BASE_REVISION :: "u64 \<Rightarrow> u64 list" where
  "LIMINE_BASE_REVISION n = [0xf9562b2d5c95a6c8, 0x6a7b384944536bdc, n]"

definition LIMINE_BASE_REVISION_SUPPORTED :: "u64 list \<Rightarrow> bool" where
  "LIMINE_BASE_REVISION_SUPPORTED v \<longleftrightarrow> v ! 2 = 0"

definition LIMINE_COMMON_MAGIC :: "u64 list" where
  "LIMINE_COMMON_MAGIC = [0xc7b1dd30df4c8b88, 0x0a82e883a194f07b]"

definition LIMINE_HHDM_REQUEST_ID :: "u64 list" where
  "LIMINE_HHDM_REQUEST_ID = LIMINE_COMMON_MAGIC @ [0x48dcf1cb8ad2b852, 0x63984e959a98244b]"

definition LIMINE_FRAMEBUFFER_REQUEST_ID :: "u64 list" where
  "LIMINE_FRAMEBUFFER_REQUEST_ID = LIMINE_COMMON_MAGIC @ [0x9d5827dcd881dd75, 0xa3148604f6fab11b]"

definition LIMINE_MEMMAP_REQUEST_ID :: "u64 list" where
  "LIMINE_MEMMAP_REQUEST_ID = LIMINE_COMMON_MAGIC @ [0x67cf3d9d378a806f, 0xe304acdfc50c3c62]"

definition LIMINE_RSDP_REQUEST_ID :: "u64 list" where
  "LIMINE_RSDP_REQUEST_ID = LIMINE_COMMON_MAGIC @ [0xc5e77b6b397e7b43, 0x27637845accdcf3c]"

lemmas limine_ids = LIMINE_HHDM_REQUEST_ID_def LIMINE_FRAMEBUFFER_REQUEST_ID_def LIMINE_MEMMAP_REQUEST_ID_def
  LIMINE_RSDP_REQUEST_ID_def LIMINE_COMMON_MAGIC_def

section \<open>The requests of \<open>main.c\<close>\<close>

text \<open>A request: four words of identification, the revision, and the pointer to the answer, initially null.\<close>

record limine_request =
  request_id :: "u64 list"
  request_revision :: u64
  response :: u64

definition limine_base_revision :: "u64 list" where
  "limine_base_revision = LIMINE_BASE_REVISION 6"

definition framebuffer_request :: limine_request where
  "framebuffer_request = \<lparr>request_id = LIMINE_FRAMEBUFFER_REQUEST_ID, request_revision = 0, response = 0\<rparr>"

definition memmap_request :: limine_request where
  "memmap_request = \<lparr>request_id = LIMINE_MEMMAP_REQUEST_ID, request_revision = 0, response = 0\<rparr>"

definition hhdm_request :: limine_request where
  "hhdm_request = \<lparr>request_id = LIMINE_HHDM_REQUEST_ID, request_revision = 0, response = 0\<rparr>"

definition RSDP_request :: limine_request where
  "RSDP_request = \<lparr>request_id = LIMINE_RSDP_REQUEST_ID, request_revision = 2, response = 0\<rparr>"

definition limine_requests_start_marker :: "u64 list" where
  "limine_requests_start_marker = LIMINE_REQUESTS_START_MARKER"

definition limine_requests_end_marker :: "u64 list" where
  "limine_requests_end_marker = LIMINE_REQUESTS_END_MARKER"

lemmas limine_requests = framebuffer_request_def memmap_request_def hhdm_request_def RSDP_request_def

section \<open>The section in the image\<close>

text \<open>The words of the section \<open>.limine_requests\<close>: between the markers, in the order of declaration.\<close>

definition request_words :: "limine_request \<Rightarrow> u64 list" where
  "request_words r = request_id r @ [request_revision r, response r]"

definition limine_section :: "u64 list" where
  "limine_section = limine_requests_start_marker @ limine_base_revision @
     concat (map request_words [framebuffer_request, memmap_request, hhdm_request, RSDP_request]) @ limine_requests_end_marker"

lemmas limine_words = limine_section_def request_words_def limine_requests limine_ids limine_base_revision_def LIMINE_BASE_REVISION_def
  limine_requests_start_marker_def LIMINE_REQUESTS_START_MARKER_def limine_requests_end_marker_def LIMINE_REQUESTS_END_MARKER_def

text \<open>
  The boot loader looks for the identification at every word, and stores the address of its answer
  to the sixth word from there.
\<close>

fun find_id :: "nat \<Rightarrow> u64 list \<Rightarrow> u64 list \<Rightarrow> nat list" where
  "find_id i ident [] = []"
| "find_id i ident (w # ws) = (if take (length ident) (w # ws) = ident then [i] else []) @ find_id (i + 1) ident ws"

text \<open>
  Each identification is in the section exactly once, at its request, and the base revision too; an
  answer therefore goes to the member \<open>response\<close> of the request it is for.
\<close>

lemma requests_found:
  "find_id 0 (request_id framebuffer_request) limine_section = [7]" "find_id 0 (request_id memmap_request) limine_section = [13]"
  "find_id 0 (request_id hhdm_request) limine_section = [19]" "find_id 0 (request_id RSDP_request) limine_section = [25]"
  "find_id 0 (take 2 limine_base_revision) limine_section = [4]"
  by (simp_all add: limine_words)

text \<open>A boot loader that does not know the revision leaves the array as it is, and the kernel stops.\<close>

lemma base_revision_unanswered: "\<not> LIMINE_BASE_REVISION_SUPPORTED limine_base_revision"
  by (simp add: LIMINE_BASE_REVISION_SUPPORTED_def limine_base_revision_def LIMINE_BASE_REVISION_def)

end
