(* ===== verification/Boot.thy ===== *)
theory Boot
  imports IOAPIC_Properties Descriptor_Tables Heap Boot_Protocol
begin

text \<open>
  The entry point of the kernel, \<open>kmain\<close> in \<open>src/kernel/src/main.c\<close>: the guards on what the boot loader
  hands over, the pattern on the screen, and the components brought up in order.  This is where the
  descriptor tables, the page allocator, the heap, paging, the interrupt controllers and the firmware
  tables meet.
\<close>

section \<open>What the boot loader hands over\<close>

text \<open>
  The answers to the requests in \<open>main.c\<close>: \<open>None\<close> where the response is null.  \<open>base_revision\<close> is the
  array \<open>limine_base_revision\<close> as the boot loader leaves it.  The answer to
  \<open>hhdm_request\<close> is the \<open>hhdm\<close> of the machine.
\<close>

record framebuffer =
  fb_address :: u64
  fb_width :: u64
  fb_height :: u64
  fb_pitch :: u64

record boot_info =
  base_revision :: "u64 list"
  framebuffers :: "framebuffer list option"
  memmap :: "limine_memmap_response option"
  rsdp_address :: "u64 option"

record kernel_state = ioapic_state +
  tables :: idt_state

section \<open>The pattern on the screen\<close>

definition put_pixel :: "framebuffer \<Rightarrow> u64 \<Rightarrow> u64 \<Rightarrow> 'a machine_scheme \<Rightarrow> 'a machine_scheme option" where
  "put_pixel fb y x s =
     (let nX = ucast (x * 255 div fb_width fb) :: u32; nY = ucast (y * 255 div fb_height fb) :: u32
      in write32 (fb_address fb) (4 * (y * (fb_pitch fb div 4) + x)) (push_bit 8 nY OR nX) s)"

function draw_row :: "framebuffer \<Rightarrow> u64 \<Rightarrow> u64 \<Rightarrow> 'a machine_scheme \<Rightarrow> 'a machine_scheme option" where
  "draw_row fb y x s =
     (if x < fb_width fb then do { s \<leftarrow> put_pixel fb y x s; draw_row fb y (x + 1) s } else Some s)"
  by pat_completeness auto
termination
  by (relation "measure (\<lambda>(fb, _, x, _). unat (fb_width fb) - unat x)") (auto simp: unat_Suc_less word_less_nat_alt)

function draw_rows :: "framebuffer \<Rightarrow> u64 \<Rightarrow> 'a machine_scheme \<Rightarrow> 'a machine_scheme option" where
  "draw_rows fb y s =
     (if y < fb_height fb then do { s \<leftarrow> draw_row fb y 0 s; draw_rows fb (y + 1) s } else Some s)"
  by pat_completeness auto
termination
  by (relation "measure (\<lambda>(fb, y, _). unat (fb_height fb) - unat y)") (auto simp: unat_Suc_less word_less_nat_alt)

declare draw_row.simps [simp del] draw_rows.simps [simp del]

section \<open>\<open>kmain\<close>\<close>

text \<open>
  \<open>hcf\<close> never returns; \<open>kmain\<close> ends in one of its calls of it.  Where the linker puts \<open>gdt\<close>, \<open>idt\<close> and
  the string \<open>"APIC"\<close>, the addresses of the interrupt stubs, what device registers answer and what
  the compiler makes of the oversized shift in \<open>apic.c\<close> are arguments.
\<close>

datatype hcf_call = Hcf_revision | Hcf_framebuffer | Hcf_memmap | Hcf_hhdm | Hcf_rsdp | Hcf_done

record link_env =
  gdt_addr :: u64
  idt_addr :: u64
  isr_stubs :: "nat \<Rightarrow> u64"
  apic_sign :: u64
  device :: mmio_device
  shift32 :: "u32 \<Rightarrow> nat \<Rightarrow> u32 option"

definition start_memory :: "link_env \<Rightarrow> framebuffer \<Rightarrow> limine_memmap_response option \<Rightarrow> 'a kernel_state_scheme \<Rightarrow>
  'a kernel_state_scheme option" where
  "start_memory env fb mm s =
     do { s \<leftarrow> draw_rows fb 0 s;
          let s = s\<lparr>tables := initGdt (gdt_addr env) (tables s)\<rparr>;
          let s = s\<lparr>tables := idt_init (idt_addr env) (isr_stubs env) (tables s)\<rparr>;
          b \<leftarrow> buddy_init mm (buddy s);
          let s = s\<lparr>buddy := b\<rparr>;
          let s = heap_init s;
          enable_apic (shift32 env) s }"

definition start_kernel :: "link_env \<Rightarrow> framebuffer \<Rightarrow> limine_memmap_response option \<Rightarrow> u64 \<Rightarrow> 'a kernel_state_scheme \<Rightarrow>
  'a kernel_state_scheme option" where
  "start_kernel env fb mm rsdp s =
     do { s \<leftarrow> start_memory env fb mm s;
          madt \<leftarrow> findTable rsdp (apic_sign env) s;
          init_IOAPIC (device env) madt s }"

definition kmain :: "link_env \<Rightarrow> boot_info \<Rightarrow> 'a kernel_state_scheme \<Rightarrow> (hcf_call \<times> 'a kernel_state_scheme) option" where
  "kmain env info s =
     (if \<not> LIMINE_BASE_REVISION_SUPPORTED (base_revision info) then Some (Hcf_revision, s)
      else case framebuffers info of
        None \<Rightarrow> Some (Hcf_framebuffer, s)
      | Some [] \<Rightarrow> Some (Hcf_framebuffer, s)
      | Some (fb # fbs) \<Rightarrow>
          if (case memmap info of None \<Rightarrow> True | Some r \<Rightarrow> entry_count r = 0 \<or> entries r = None) then Some (Hcf_memmap, s)
          else if hhdm s = None then Some (Hcf_hhdm, s)
          else case rsdp_address info of
            None \<Rightarrow> Some (Hcf_rsdp, s)
          | Some rsdp \<Rightarrow> do { s \<leftarrow> start_kernel env fb (memmap info) rsdp s; Some (Hcf_done, s) })"

section \<open>Drawing\<close>

text \<open>The bytes of the screen.  Drawing writes these and nothing else.\<close>

definition screen :: "framebuffer \<Rightarrow> u64 set" where
  "screen fb = {fb_address fb + 4 * (y * (fb_pitch fb div 4) + x) + of_nat k | x y k. x < fb_width fb \<and> y < fb_height fb \<and> k < 4}"

definition drawn :: "framebuffer \<Rightarrow> 'a machine_scheme \<Rightarrow> 'a machine_scheme \<Rightarrow> bool" where
  "drawn fb s s' \<longleftrightarrow> (\<exists>m. s' = s\<lparr>mem := m\<rparr> \<and> (\<forall>a. a \<notin> screen fb \<longrightarrow> m a = mem s a))"

lemma drawn_refl: "drawn fb s s"
  by (auto simp: drawn_def intro: exI [of _ "mem s"])

lemma drawn_trans: "drawn fb s t \<Longrightarrow> drawn fb t u \<Longrightarrow> drawn fb s u"
  by (auto simp: drawn_def)

lemma put_pixel_drawn:
  assumes "fb_address fb \<noteq> NULL" "x < fb_width fb" "y < fb_height fb"
  shows "\<exists>s'. put_pixel fb y x s = Some s' \<and> drawn fb s s'"
proof -
  let ?a = "fb_address fb + 4 * (y * (fb_pitch fb div 4) + x)"
  have "store32 v ?a m a = m a" if "a \<notin> screen fb" for v m a
  proof -
    have "a \<notin> region ?a 4" using that assms(2,3) by (fastforce simp: region_def screen_def)
    then show ?thesis by (simp add: store32_def store_le_outside)
  qed
  then show ?thesis using assms(1) by (auto simp: put_pixel_def Let_def write32_def drawn_def)
qed

lemma draw_row_drawn:
  "fb_address fb \<noteq> NULL \<Longrightarrow> y < fb_height fb \<Longrightarrow> \<exists>s'. draw_row fb y x s = Some s' \<and> drawn fb s s'"
proof (induction fb y x s rule: draw_row.induct)
  case (1 fb y x s)
  show ?case
  proof (cases "x < fb_width fb")
    case False
    then show ?thesis by (subst draw_row.simps) (simp add: drawn_refl)
  next
    case True
    obtain t where t: "put_pixel fb y x s = Some t" "drawn fb s t" using put_pixel_drawn [OF "1.prems"(1) True "1.prems"(2)] by blast
    obtain u where "draw_row fb y (x + 1) t = Some u" "drawn fb t u" using "1.IH" [OF True t(1) "1.prems"] by blast
    then show ?thesis using True t drawn_trans by (subst draw_row.simps) auto
  qed
qed

lemma draw_rows_drawn: "fb_address fb \<noteq> NULL \<Longrightarrow> \<exists>s'. draw_rows fb y s = Some s' \<and> drawn fb s s'"
proof (induction fb y s rule: draw_rows.induct)
  case (1 fb y s)
  show ?case
  proof (cases "y < fb_height fb")
    case False
    then show ?thesis by (subst draw_rows.simps) (simp add: drawn_refl)
  next
    case True
    obtain t where t: "draw_row fb y 0 s = Some t" "drawn fb s t" using draw_row_drawn [OF "1.prems" True] by blast
    obtain u where "draw_rows fb (y + 1) t = Some u" "drawn fb t u" using "1.IH" [OF True t(1) "1.prems"] by blast
    then show ?thesis using True t drawn_trans by (subst draw_rows.simps) auto
  qed
qed

text \<open>Without a screen address drawing fails at the first pixel; in any case a result is a drawing.\<close>

lemma put_pixel_Some: "put_pixel fb y x s = Some u \<Longrightarrow> x < fb_width fb \<Longrightarrow> y < fb_height fb \<Longrightarrow> drawn fb s u"
  using put_pixel_drawn [of fb x y s] by (cases "fb_address fb = NULL") (auto simp: put_pixel_def Let_def write32_def)

lemma draw_row_Some: "draw_row fb y x s = Some u \<Longrightarrow> y < fb_height fb \<Longrightarrow> drawn fb s u"
proof (induction fb y x s rule: draw_row.induct)
  case (1 fb y x s)
  show ?case
  proof (cases "x < fb_width fb")
    case True
    then obtain t where t: "put_pixel fb y x s = Some t" "draw_row fb y (x + 1) t = Some u"
      using "1.prems"(1) draw_row.simps [of fb y x s] by (auto simp: bind_eq_Some_conv)
    show ?thesis using drawn_trans [OF put_pixel_Some [OF t(1) True "1.prems"(2)] "1.IH" [OF True t "1.prems"(2)]] .
  qed (use "1.prems"(1) draw_row.simps [of fb y x s] drawn_refl in auto)
qed

lemma draw_rows_Some: "draw_rows fb y s = Some u \<Longrightarrow> drawn fb s u"
proof (induction fb y s rule: draw_rows.induct)
  case (1 fb y s)
  show ?case
  proof (cases "y < fb_height fb")
    case True
    then obtain t where t: "draw_row fb y 0 s = Some t" "draw_rows fb (y + 1) t = Some u"
      using "1.prems" draw_rows.simps [of fb y s] by (auto simp: bind_eq_Some_conv)
    show ?thesis using drawn_trans [OF draw_row_Some [OF t(1) True] "1.IH" [OF True t]] .
  qed (use "1.prems" draw_rows.simps [of fb y s] drawn_refl in auto)
qed

section \<open>The pattern\<close>

definition pixel_addr :: "framebuffer \<Rightarrow> u64 \<Rightarrow> u64 \<Rightarrow> u64" where
  "pixel_addr fb y x = fb_address fb + 4 * (y * (fb_pitch fb div 4) + x)"

definition pixel_colour :: "framebuffer \<Rightarrow> u64 \<Rightarrow> u64 \<Rightarrow> u32" where
  "pixel_colour fb y x = push_bit 8 (ucast (y * 255 div fb_height fb)) OR ucast (x * 255 div fb_width fb)"

text \<open>A line is at least as long as its pixels, and the screen fits into the address space.\<close>

definition screen_ok :: "framebuffer \<Rightarrow> bool" where
  "screen_ok fb \<longleftrightarrow> fb_address fb \<noteq> NULL \<and> unat (fb_width fb) \<le> unat (fb_pitch fb div 4) \<and>
     4 * (unat (fb_height fb) * unat (fb_pitch fb div 4)) \<le> 2 ^ 64"

lemma pixel_index:
  assumes "screen_ok fb" "x < fb_width fb" "y < fb_height fb"
  shows "unat (4 * (y * (fb_pitch fb div 4) + x)) = 4 * (unat y * unat (fb_pitch fb div 4) + unat x)"
    "unat y * unat (fb_pitch fb div 4) + unat x < unat (fb_height fb) * unat (fb_pitch fb div 4)"
proof -
  let ?S = "unat (fb_pitch fb div 4)" and ?H = "unat (fb_height fb)"
  have a: "unat x < ?S" "unat y < ?H" "4 * (?H * ?S) \<le> 2 ^ 64" using assms by (auto simp: screen_ok_def word_less_nat_alt)
  have "unat y * ?S + unat x < Suc (unat y) * ?S" using a(1) by simp
  also have "\<dots> \<le> ?H * ?S" using a(2) by (intro mult_le_mono1) simp
  finally show b: "unat y * ?S + unat x < ?H * ?S" .
  have m: "unat (y * (fb_pitch fb div 4)) = unat y * ?S" using b a(3) by (subst unat_mult_lem [symmetric]) simp
  then have s: "unat (y * (fb_pitch fb div 4) + x) = unat y * ?S + unat x" using b a(3) by (subst unat_add_less) simp_all
  have "unat (4 :: u64) * unat (y * (fb_pitch fb div 4) + x) < 2 ^ LENGTH(64)" using s b a(3) by simp
  then show "unat (4 * (y * (fb_pitch fb div 4) + x)) = 4 * (unat y * ?S + unat x)"
    using s unat_mult_lem [of 4 "y * (fb_pitch fb div 4) + x"] by simp
qed

lemma pixels_apart:
  assumes "screen_ok fb" "x < fb_width fb" "y < fb_height fb" "x' < fb_width fb" "y' < fb_height fb" "\<not> (x' = x \<and> y' = y)"
  shows "region (pixel_addr fb y' x') 4 \<inter> region (pixel_addr fb y x) 4 = {}"
proof -
  let ?S = "unat (fb_pitch fb div 4)"
  let ?i = "unat y * ?S + unat x" and ?j = "unat y' * ?S + unat x'"
  note i = pixel_index [OF assms(1-3)] and j = pixel_index [OF assms(1,4,5)]
  have S: "unat x < ?S" "unat x' < ?S" "4 * (unat (fb_height fb) * ?S) \<le> 2 ^ 64"
    using assms by (auto simp: screen_ok_def word_less_nat_alt)
  have "?i \<noteq> ?j"
  proof
    assume e: "?i = ?j"
    have d: "(a * ?S + b) div ?S = a" if "b < ?S" for a b using that by simp
    have "unat y = unat y'" using d [OF S(1), of "unat y"] d [OF S(2), of "unat y'"] unfolding e by simp
    then have "x' = x \<and> y' = y" using e by simp
    then show False using assms(6) by simp
  qed
  then consider "?i < ?j" | "?j < ?i" by linarith
  then show ?thesis
  proof cases
    case 1
    then show ?thesis unfolding pixel_addr_def using i j S(3) by (subst Int_commute) (intro region_disjoint_offsets; simp)
  next
    case 2
    then show ?thesis unfolding pixel_addr_def using i j S(3) by (intro region_disjoint_offsets; simp)
  qed
qed

lemma put_pixel_pattern:
  assumes "screen_ok fb" "x < fb_width fb" "y < fb_height fb" "x' < fb_width fb" "y' < fb_height fb" "put_pixel fb y x s = Some s'"
  shows "load32 (pixel_addr fb y' x') (mem s') = (if x' = x \<and> y' = y then pixel_colour fb y x else load32 (pixel_addr fb y' x') (mem s))"
proof -
  have "mem s' = store32 (pixel_colour fb y x) (pixel_addr fb y x) (mem s)"
    using assms(1,6) by (auto simp: put_pixel_def Let_def write32_def pixel_addr_def pixel_colour_def screen_ok_def)
  then show ?thesis using pixels_apart [OF assms(1-5)] by (auto simp: m32.load_store_apart m32.load_store)
qed

lemma draw_row_pattern:
  assumes "screen_ok fb" "y < fb_height fb" "x' < fb_width fb" "y' < fb_height fb" "draw_row fb y x s = Some s'"
  shows "load32 (pixel_addr fb y' x') (mem s') =
    (if y' = y \<and> x \<le> x' then pixel_colour fb y x' else load32 (pixel_addr fb y' x') (mem s))"
  using assms
proof (induction fb y x s rule: draw_row.induct)
  case (1 fb y x s)
  show ?case
  proof (cases "x < fb_width fb")
    case False
    then show ?thesis using "1.prems"(3,5) draw_row.simps [of fb y x s] by auto
  next
    case True
    then obtain t where t: "put_pixel fb y x s = Some t" "draw_row fb y (x + 1) t = Some s'"
      using "1.prems"(5) by (subst (asm) draw_row.simps) (auto simp: bind_eq_Some_conv)
    have x: "x + 1 \<le> x' \<longleftrightarrow> x < x'" using word_Suc_le [OF True] by simp
    show ?thesis
      using "1.IH" [OF True t(1) "1.prems"(1-4) t(2)] put_pixel_pattern [OF "1.prems"(1) True "1.prems"(2-4) t(1)] x
      by (auto simp: order.order_iff_strict)
  qed
qed

lemma draw_rows_pattern:
  assumes "screen_ok fb" "x' < fb_width fb" "y' < fb_height fb" "draw_rows fb y s = Some s'"
  shows "load32 (pixel_addr fb y' x') (mem s') =
    (if y \<le> y' then pixel_colour fb y' x' else load32 (pixel_addr fb y' x') (mem s))"
  using assms
proof (induction fb y s rule: draw_rows.induct)
  case (1 fb y s)
  show ?case
  proof (cases "y < fb_height fb")
    case False
    then show ?thesis using "1.prems"(3,4) draw_rows.simps [of fb y s] by auto
  next
    case True
    then obtain t where t: "draw_row fb y 0 s = Some t" "draw_rows fb (y + 1) t = Some s'"
      using "1.prems"(4) by (subst (asm) draw_rows.simps) (auto simp: bind_eq_Some_conv)
    have y: "y + 1 \<le> y' \<longleftrightarrow> y < y'" using word_Suc_le [OF True] by simp
    show ?thesis
      using "1.IH" [OF True t(1) "1.prems"(1-3) t(2)] draw_row_pattern [OF "1.prems"(1) True "1.prems"(2,3) t(1)] y
      by (auto simp: le_less [of y y'])
  qed
qed

text \<open>
  The whole picture: drawing returns, writes the screen only, and leaves in each pixel the colour
  its position asks for.
\<close>

lemma draw_pattern:
  assumes "screen_ok fb"
  obtains s' where "draw_rows fb 0 s = Some s'" "drawn fb s s'"
    "\<And>x y. x < fb_width fb \<Longrightarrow> y < fb_height fb \<Longrightarrow> load32 (pixel_addr fb y x) (mem s') = pixel_colour fb y x"
  using draw_rows_drawn [of fb 0 s] draw_rows_pattern [OF assms, of _ _ 0 s] assms by (auto simp: screen_ok_def)

section \<open>A machine that can boot\<close>

text \<open>
  The memory that page tables and free frames may take, before the page allocator runs: the tables
  of the boot loader and the usable frames of the memory map.
\<close>

definition boot_area :: "u64 set \<Rightarrow> u64 \<Rightarrow> nat set \<Rightarrow> 'a machine_scheme \<Rightarrow> u64 set" where
  "boot_area I h F s = {x. \<exists>u. aligned u \<and> x \<in> region (u + h) 4096 \<and>
     (unat u div 4096 \<in> F \<or> (\<exists>p\<in>paths 3 I. lookup s p = Some u))}"

text \<open>
  The firmware tables are outside that memory: whatever happens there, the interrupt table is found
  and holds the records \<open>rs\<close>.
\<close>

definition firmware_ok :: "u64 set \<Rightarrow> u64 \<Rightarrow> nat set \<Rightarrow> u64 \<Rightarrow> u64 \<Rightarrow> u64 \<Rightarrow> madt_record list \<Rightarrow> 'a machine_scheme \<Rightarrow> bool" where
  "firmware_ok I h F rsdp sign madt rs s \<longleftrightarrow> (\<forall>m. (\<forall>x. x \<notin> boot_area I h F s \<longrightarrow> m x = mem s x) \<longrightarrow>
     findTable rsdp sign (s\<lparr>mem := m\<rparr>) = Some madt \<and> madt_holds madt rs (s\<lparr>mem := m\<rparr>))"

definition paging_bootable :: "u64 set \<Rightarrow> u64 \<Rightarrow> nat set \<Rightarrow> 'a machine_scheme \<Rightarrow> bool" where
  "paging_bootable I h F s \<longleftrightarrow> hhdm s = Some h \<and> hhdm_ok h \<and> h AND 0xFFF = 0 \<and> direct_map_in I h \<and>
     pt_tree I h (pt_root s) (mem s) F"

lemma boot_area_vm_area: "hhdm s = Some h \<Longrightarrow> free_set (buddy s) = F \<Longrightarrow> vm_area I s = boot_area I h F s"
  by (simp add: vm_area_def boot_area_def)

lemma aligned_and: "(h :: u64) AND 0xFFF = 0 \<longleftrightarrow> aligned h"
proof -
  have "h AND 0xFFF = take_bit 12 h" by (simp add: take_bit_eq_mask mask_eq_exp_minus_1)
  moreover have "take_bit 12 h = 0 \<longleftrightarrow> (\<forall>i<12. \<not> bit h i)" by (auto simp: bit_eq_iff bit_simps dest: bit_imp_le_length)
  ultimately show ?thesis by (simp add: aligned_iff)
qed

text \<open>
  Everything \<open>kmain\<close> relies on, whatever the screen shows: the boot loader's page tables, the
  firmware tables and a screen that is apart from both.
\<close>

definition bootable :: "u64 set \<Rightarrow> u64 \<Rightarrow> nat set \<Rightarrow> framebuffer \<Rightarrow> u64 \<Rightarrow> u64 \<Rightarrow> u64 \<Rightarrow> madt_record list \<Rightarrow> 'a machine_scheme \<Rightarrow> bool" where
  "bootable I h F fb rsdp sign madt rs s \<longleftrightarrow> fb_address fb \<noteq> NULL \<and> (\<forall>s'. drawn fb s s' \<longrightarrow>
     paging_bootable I h F s' \<and> firmware_ok I h F rsdp sign madt rs s')"

lemma firmware_ok_after:
  fixes s s' :: "'a machine_scheme"
  assumes "firmware_ok I h F rsdp sign madt rs s" "hhdm s' = hhdm s" "\<And>x. x \<notin> boot_area I h F s \<Longrightarrow> mem s' x = mem s x"
  shows "findTable rsdp sign s' = Some madt" "madt_holds madt rs s'"
proof -
  have "findTable rsdp sign (s\<lparr>mem := mem s'\<rparr>) = Some madt" "madt_holds madt rs (s\<lparr>mem := mem s'\<rparr>)"
    using assms(1,3) by (auto simp: firmware_ok_def)
  then show "findTable rsdp sign s' = Some madt" "madt_holds madt rs s'"
    using findTable_cong [of s' "s\<lparr>mem := mem s'\<rparr>" rsdp sign] madt_holds_cong [of s' "s\<lparr>mem := mem s'\<rparr>" madt rs] assms(2) by simp_all
qed

definition booted :: "u64 set \<Rightarrow> u64 \<Rightarrow> link_env \<Rightarrow> u64 list \<Rightarrow> 'a kernel_state_scheme \<Rightarrow> 'a kernel_state_scheme \<Rightarrow> bool" where
  "booted I h env ps s s' \<longleftrightarrow> paging_ok I s' \<and> aligned h \<and> heap_idle h s' \<and>
    (\<forall>c<9. partial_pages (heap_caches s' c) = 0) \<and> apic_enabled s' \<and> g_virt_apic s' = apic_base s + h \<and> g_virt_apic s' \<noteq> NULL \<and>
    tables s' = idt_init (idt_addr env) (isr_stubs env) (initGdt (gdt_addr env) (tables s)) \<and>
    map (ioapic_entries s') [0..<unat (ioapic_count s')] = ps \<and> (\<forall>j<length ps. controller_mapped h s' j) \<and>
    mmio s' = mmio s @ [(apic_base s + h + 0xF0, 0x1FF), (virt_Address s' 0, 1), (virt_Address s' 0, 0)]"

text \<open>
  What is written until then: the screen first, then page tables and free frames only, and these are
  still the memory that page tables and free frames may take.
\<close>

definition boot_confined :: "u64 set \<Rightarrow> u64 \<Rightarrow> nat set \<Rightarrow> framebuffer \<Rightarrow> 'a machine_scheme \<Rightarrow> 'a machine_scheme \<Rightarrow> bool" where
  "boot_confined I h F fb s s' \<longleftrightarrow> (\<exists>s1. drawn fb s s1 \<and> vm_area I s' \<subseteq> boot_area I h F s1 \<and>
     (\<forall>x. x \<notin> boot_area I h F s1 \<longrightarrow> mem s' x = mem s1 x))"

lemma kernel_tables:
  fixes s s' :: "'a kernel_state_scheme"
  shows "apic_state.more s' = apic_state.more s \<Longrightarrow> tables s' = tables s"
    and "ioapic_state.more s' = ioapic_state.more s \<Longrightarrow> tables s' = tables s"
  by (cases s; cases s'; simp)+

text \<open>
  Up to the local controller: memory changes on the screen, then in the page tables and free frames
  only, so that what the boot loader put elsewhere is still there.
\<close>

lemma start_memory_correct:
  fixes s :: "'a kernel_state_scheme"
  assumes mm: "memmap_ok es" "unat n = length es"
    and bt: "fb_address fb \<noteq> NULL" "\<And>s'. drawn fb s s' \<Longrightarrow> paging_bootable I h (usable_frames es) s'"
    and ap: "PML4_INDEX (apic_base s + h) \<in> I" "apic_base s + h \<noteq> NULL" "apic_low s" "shift32 env 0 32 = Some 0" "3 \<le> card (usable_frames es)"
  obtains s1 s3 where "drawn fb s s1" "start_memory env fb (Some \<lparr>entry_count = n, entries = Some es\<rparr>) s = Some s3"
    "\<forall>x. x \<notin> boot_area I h (usable_frames es) s1 \<longrightarrow> mem s3 x = mem s1 x" "paging_ok I s3" "hhdm s3 = Some h" "heap_idle h s3"
    "\<forall>c<9. partial_pages (heap_caches s3 c) = 0" "apic_enabled s3" "g_virt_apic s3 = apic_base s + h"
    "tables s3 = idt_init (idt_addr env) (isr_stubs env) (initGdt (gdt_addr env) (tables s))"
    "mmio s3 = mmio s @ [(apic_base s + h + 0xF0, 0x1FF)]" "card (usable_frames es) \<le> card (free_set (buddy s3)) + 3"
    "vm_area I s3 \<subseteq> boot_area I h (usable_frames es) s1"
proof -
  let ?F = "usable_frames es" and ?T = "idt_init (idt_addr env) (isr_stubs env) (initGdt (gdt_addr env) (tables s))"
  obtain m where draw: "draw_rows fb 0 s = Some (s\<lparr>mem := m\<rparr>)" and dr: "drawn fb s (s\<lparr>mem := m\<rparr>)"
    using draw_rows_drawn [OF bt(1), of 0 s] unfolding drawn_def by blast
  let ?s1 = "s\<lparr>mem := m\<rparr>"
  have pg: "paging_bootable I h ?F ?s1" by (rule bt(2) [OF dr])
  obtain b where b: "buddy_init (Some \<lparr>entry_count = n, entries = Some es\<rparr>) (buddy s) = Some b" "buddy_wf b" "free_set b = ?F"
    using buddy_init_correct [OF mm, of "buddy s"] by (auto simp: buddy_wf_def)
  let ?s2 = "heap_init (?s1\<lparr>tables := ?T, buddy := b\<rparr>)"
  have f2: "buddy ?s2 = b" "mem ?s2 = m" "hhdm ?s2 = Some h" "cr3 ?s2 = cr3 s" "mmio ?s2 = mmio s" "msrs ?s2 = msrs s" "tables ?s2 = ?T"
    using pg by (simp_all add: heap_init_caches paging_bootable_def)
  have ok2: "paging_ok I ?s2" using pg b f2 by (simp add: paging_ok_def paging_bootable_def pt_root_def)
  have idle2: "heap_idle h ?s2" using pg b by (intro heap_init_idle) (simp add: heap_base_def paging_bootable_def)
  have area: "vm_area I ?s2 = boot_area I h ?F ?s1"
    using boot_area_vm_area [OF f2(3), of ?F I] b(3) f2(1-4) pg
    by (simp add: boot_area_def lookup_def pt_root_def paging_bootable_def)
  note base = apic_base_cong(1,3) [OF f2(6)]
  have e: "PML4_INDEX (apic_base ?s2 + h) \<in> I" "apic_base ?s2 + h \<noteq> NULL" "h AND 0xFFF = 0" "3 \<le> card (free_set (buddy ?s2))"
      "apic_low ?s2" "shift32 env 0 32 = Some 0"
    using ap base pg b(3) f2(1) by (simp_all add: paging_bootable_def)
  from ok2 f2(3) e show thesis
  proof (cases rule: enable_apic_correct [case_names on])
    case (on s3)
    have st: "start_memory env fb (Some \<lparr>entry_count = n, entries = Some es\<rparr>) s = Some s3"
      using draw b(1) on(1) by (simp add: start_memory_def Let_def)
    have frame: "\<forall>x. x \<notin> boot_area I h ?F ?s1 \<longrightarrow> mem s3 x = mem ?s1 x" using on(10) area f2(2) by simp
    show thesis
      by (rule that [OF dr st frame on(2,3) _ _ on(5)])
        (use idle2 on base f2 b(3) area kernel_tables(1) [OF on(13)] in
          \<open>simp_all add: heap_idle_def heap_base_def paging_ok_def heap_init_caches idle_cache_def\<close>)
  qed
qed

lemma start_kernel_correct:
  fixes s :: "'a kernel_state_scheme"
  assumes mm: "memmap_ok es" "unat n = length es"
    and bt: "bootable I h (usable_frames es) fb rsdp (apic_sign env) madt rs s"
    and ap: "PML4_INDEX (apic_base s + h) \<in> I" "apic_base s + h \<noteq> NULL" "apic_low s" "shift32 env 0 32 = Some 0"
    and ps: "ps = records_of 1 (madt + MADT_SIZE) rs" "ps \<noteq> []" "length ps \<le> 16" "4 * length ps + 3 \<le> card (usable_frames es)"
  shows "\<exists>s'. start_kernel env fb (Some \<lparr>entry_count = n, entries = Some es\<rparr>) rsdp s = Some s' \<and> booted I h env ps s s' \<and>
    boot_confined I h (usable_frames es) fb s s'"
proof -
  let ?F = "usable_frames es"
  have b: "fb_address fb \<noteq> NULL" "\<And>s'. drawn fb s s' \<Longrightarrow> paging_bootable I h ?F s'" "3 \<le> card ?F"
    using bt ps(4) by (simp_all add: bootable_def)
  obtain s1 s3 where dr: "drawn fb s s1" and st: "start_memory env fb (Some \<lparr>entry_count = n, entries = Some es\<rparr>) s = Some s3"
    and frame: "\<forall>x. x \<notin> boot_area I h ?F s1 \<longrightarrow> mem s3 x = mem s1 x" and ok3: "paging_ok I s3" "hhdm s3 = Some h"
    and idle: "heap_idle h s3" "\<forall>c<9. partial_pages (heap_caches s3 c) = 0"
    and apic: "apic_enabled s3" "g_virt_apic s3 = apic_base s + h"
    and tab: "tables s3 = idt_init (idt_addr env) (isr_stubs env) (initGdt (gdt_addr env) (tables s))"
    and io: "mmio s3 = mmio s @ [(apic_base s + h + 0xF0, 0x1FF)]" and card: "card ?F \<le> card (free_set (buddy s3)) + 3"
    and area: "vm_area I s3 \<subseteq> boot_area I h ?F s1"
    by (rule start_memory_correct [OF mm b(1,2) ap b(3)])
  have pg: "paging_bootable I h ?F s1" and fw: "firmware_ok I h ?F rsdp (apic_sign env) madt rs s1"
    using bt dr by (auto simp: bootable_def)
  have h: "aligned h" "h AND 0xFFF = 0" "hhdm s1 = Some h" using pg aligned_and by (simp_all add: paging_bootable_def)
  have fw3: "findTable rsdp (apic_sign env) s3 = Some madt" "madt_holds madt rs s3"
    using firmware_ok_after [OF fw, of s3] frame h(3) ok3(2) by simp_all
  have c3: "4 * length ps \<le> card (free_set (buddy s3))" using card ps(4) by simp
  obtain s' where s': "init_IOAPIC (device env) madt s3 = Some s'" "paging_ok I s'" "hhdm s' = Some h" "kept s3 s'"
    "map (ioapic_entries s') [0..<unat (ioapic_count s')] = ps" "\<forall>j<length ps. controller_mapped h s' j"
    "mmio s' = mmio s3 @ [(virt_Address s' 0, 1), (virt_Address s' 0, 0)]" "vm_confined I s3 s'"
    using init_IOAPIC_correct [OF ok3 _ _ fw3(2) ps(1-3) c3, of "device env"] pg h by (auto simp: paging_bootable_def)
  have "start_kernel env fb (Some \<lparr>entry_count = n, entries = Some es\<rparr>) rsdp s = Some s'"
    using st fw3(1) s'(1) by (simp add: start_kernel_def)
  moreover have "tables s' = tables s3" using s'(4) kernel_tables(2) [of s' s3] by (simp add: kept_def)
  moreover have "heap_idle h s'" using idle s'(2-4) by (simp add: heap_idle_def heap_base_def kept_def paging_ok_def idle_cache_def)
  moreover have "apic_enabled s'" using s'(4) apic(1) apic_base_cong(2) [of s' s3] by (simp add: kept_def)
  moreover have "boot_confined I h ?F fb s s'"
    using dr frame area s'(8) unfolding boot_confined_def vm_confined_def by (intro exI [of _ s1]) (auto dest: subsetD)
  ultimately show ?thesis using s' apic(2) idle(2) h(1) tab io ap(2) by (intro exI [of _ s']) (simp add: booted_def kept_def)
qed

section \<open>Properties\<close>

text \<open>
  C6. \<open>kmain\<close> runs to its last statement from the state the boot loader leaves, provided that: the
  memory map is as the protocol promises it, and the usable frames are at least four for each I/O
  controller and three more; the page tables below the direct map are well formed and have no large
  pages, which the protocol does not promise (\<open>vmm_map\<close> takes a large page for a table, lemma
  \<open>vmm_map_large_page\<close>); the firmware tables list between one and 16 I/O controllers; the screen is apart
  from all of these; the register page of the local controller is below 4 GiB, as after reset; and
  the shift by 32 in \<open>apic.c\<close>, undefined in the language (lemma \<open>enable_apic_undefined\<close>), is compiled to
  code that gives 0 for the operand 0, as the shift instruction of the processor does (lemma
  \<open>x86_shl32_zero\<close>).  Then the page tables are well formed for the direct map, the heap is ready, the
  descriptor tables are loaded, the local controller is enabled, and every I/O controller of the
  interrupt table is mapped at an address of its own; of memory, nothing but the screen, the page
  tables and the free frames is written.
\<close>

theorem kmain_boots:
  fixes s :: "'a kernel_state_scheme"
  assumes "LIMINE_BASE_REVISION_SUPPORTED (base_revision info)" "framebuffers info = Some (fb # fbs)" "rsdp_address info = Some rsdp"
    and "memmap info = Some \<lparr>entry_count = n, entries = Some es\<rparr>" "memmap_ok es" "unat n = length es"
    and "bootable I h (usable_frames es) fb rsdp (apic_sign env) madt rs s"
    and "PML4_INDEX (apic_base s + h) \<in> I" "apic_base s + h \<noteq> NULL" "apic_low s" "shift32 env 0 32 = Some 0"
    and "ps = records_of 1 (madt + MADT_SIZE) rs" "ps \<noteq> []" "length ps \<le> 16" "4 * length ps + 3 \<le> card (usable_frames es)"
  shows "\<exists>s'. kmain env info s = Some (Hcf_done, s') \<and> booted I h env ps s s' \<and> boot_confined I h (usable_frames es) fb s s'"
proof -
  obtain s' where s': "start_kernel env fb (memmap info) rsdp s = Some s'" "booted I h env ps s s'"
    "boot_confined I h (usable_frames es) fb s s'"
    using start_kernel_correct [OF assms(5-15)] assms(4) by auto
  have "n \<noteq> 0" using assms(6,15) by (auto simp: usable_frames_def)
  moreover have "hhdm s \<noteq> None" using assms(7) drawn_refl by (auto simp: bootable_def paging_bootable_def)
  ultimately show ?thesis using assms(1-4) s' by (simp add: kmain_def)
qed

text \<open>A machine with eight free frames, a screen of two by two pixels and the tables of \<open>demo_madt_mem\<close>.\<close>

definition demo_screen :: framebuffer where
  "demo_screen = \<lparr>fb_address = 0xFFFF800000200000, fb_width = 2, fb_height = 2, fb_pitch = 8\<rparr>"

definition boot_map :: "limine_memmap_entry option list" where
  "boot_map = [Some \<lparr>mm_base = 0x100000, mm_length = 0x8000, mm_type = 0\<rparr>]"

definition demo_info :: boot_info where
  "demo_info = \<lparr>base_revision = LIMINE_BASE_REVISION 0, framebuffers = Some [demo_screen],
     memmap = Some \<lparr>entry_count = 1, entries = Some boot_map\<rparr>, rsdp_address = Some RSDP\<rparr>"

definition demo_env :: link_env where
  "demo_env = \<lparr>gdt_addr = 0xFFFFFFFF8000A000, idt_addr = 0xFFFFFFFF8000B000, isr_stubs = \<lambda>i. 0xFFFFFFFF80001000 + of_nat i,
     apic_sign = SIGN, device = \<lambda>_ _. 0, shift32 = x86_shl32\<rparr>"

definition demo_kernel :: kernel_state where
  "demo_kernel = ioapic_state.extend demo_ioapic \<lparr>tables = demo_cpu\<rparr>"

lemma boot_map_frames: "usable_frames boot_map = {256..<264}" "memmap_ok boot_map"
  unfolding boot_map_def
  by (auto simp: usable_frames_def entry_frames_def frames_interval LIMINE_MEMMAP_USABLE_def entry_ok_def)

lemma demo_screen_region: "screen demo_screen \<subseteq> region 0xFFFF800000200000 16"
proof -
  have two: "x = 0 \<or> x = 1" if "x < 2" for x :: u64
  proof -
    have "unat x < 2" using that by (simp add: word_less_nat_alt)
    then have "unat x = unat (0 :: u64) \<or> unat x = unat (1 :: u64)" unfolding unat_0 unat_1 by linarith
    then show ?thesis by (simp only: unat_inj_iff)
  qed
  have k: "unat (4 * v + of_nat k :: u64) < 16" if "v = 0 \<or> v = 1 \<or> v = 2 \<or> v = 3" "k < 4" for v :: u64 and k
    using that by (auto simp: unat_word_ariths unat_of_nat)
  show ?thesis
  proof
    fix a assume "a \<in> screen demo_screen"
    then obtain x y k where a: "a = 0xFFFF800000200000 + 4 * (y * 2 + x) + of_nat k" "x < 2" "y < 2" "k < 4"
      by (auto simp: screen_def demo_screen_def)
    have "a - 0xFFFF800000200000 = 4 * (y * 2 + x) + of_nat k" by (simp add: a(1))
    moreover have "y * 2 + x = 0 \<or> y * 2 + x = 1 \<or> y * 2 + x = 2 \<or> y * 2 + x = 3" using two [OF a(2)] two [OF a(3)] by auto
    ultimately show "a \<in> region 0xFFFF800000200000 16" using k [of "y * 2 + x" k] a(4) by (simp only: region_def mem_Collect_eq)
  qed
qed


lemma demo_boot_area:
  assumes "x \<in> boot_area {256} HH {256..<264} s" "hhdm s = Some HH" "cr3 s = 0x5018" "entry_at HH (mem s) 0x5000 256 = 0"
  shows "0xFFFF800000005000 \<le> x \<and> x < 0xFFFF800000109000"
proof -
  obtain u where u: "x \<in> region (u + HH) 4096" "unat u div 4096 \<in> {256..<264} \<or> (\<exists>p\<in>paths 3 {256}. lookup s p = Some u)"
    using assms(1) by (auto simp: boot_area_def)
  have "walk HH (mem s) 0x5000 p = Some t \<Longrightarrow> p \<in> paths 3 {256} \<Longrightarrow> t = 0x5000" for p t
    by (cases p) (auto simp: assms(4) paths_def)
  then have "unat u div 4096 \<in> {256..<264} \<or> u = 0x5000"
    using u(2) assms(2,3) by (auto simp: lookup_def pt_root_def PAGE_ADDR_MASK_def)
  then have r: "0x5000 \<le> unat u" "unat u < 0x108000" by (auto simp: div_less_iff_less_mult less_eq_div_iff_mult_less_eq)
  have a: "unat (u + HH) = unat u + unat HH" using r by (intro unat_add_less) simp
  then show ?thesis using region_bounds [OF u(1)] r by (simp add: word_le_nat_alt word_less_nat_alt)
qed

text \<open>The same machine with anything in memory from \<open>0xFFFFFFFF80020000\<close> on.\<close>

definition demo_upper :: u64 where
  "demo_upper = 0xFFFFFFFF80020000"

lemma demo_unchanged:
  assumes "\<And>x. x < demo_upper \<Longrightarrow> m0 x = demo_madt_mem x" "drawn demo_screen (demo_kernel\<lparr>mem := m0\<rparr>) s"
    and "x < 0xFFFF800000200000 \<or> 0xFFFF800000200010 \<le> x \<and> x < demo_upper"
  shows "mem s x = demo_madt_mem x"
proof -
  have "x \<notin> region 0xFFFF800000200000 16" "x < demo_upper"
    using region_bounds [of x "0xFFFF800000200000" 16] assms(3) by (auto simp: word_le_nat_alt word_less_nat_alt demo_upper_def)
  then show ?thesis using assms(1,2) demo_screen_region by (auto simp: drawn_def)
qed

lemma demo_strings:
  "cstring 4 0xFFFF800000003000 demo_madt_mem = [0x46, 0x41, 0x43, 0x50]"
  "cstring 4 MADT demo_madt_mem = [0x41, 0x50, 0x49, 0x43]" "cstring 4 SIGN demo_madt_mem = [0x41, 0x50, 0x49, 0x43]"
  by (simp_all add: cstring_numeral demo_madt_mem_def demo_tables_mem_def)

lemma demo_loads:
  "demo_madt_mem 0xFFFF80000000100F = 2" "load64 0xFFFF800000001018 demo_madt_mem = 0x2000"
  "load32 0xFFFF800000002004 demo_madt_mem = 52" "load64 0xFFFF800000002024 demo_madt_mem = 0x3000"
  "load64 0xFFFF80000000202C demo_madt_mem = 0x4000" "load32 0xFFFF800000004004 demo_madt_mem = 66"
  "demo_madt_mem 0xFFFF80000000402C = 1" "demo_madt_mem 0xFFFF80000000402D = 12"
  "demo_madt_mem 0xFFFF800000004038 = 2" "demo_madt_mem 0xFFFF800000004039 = 10"
  by (simp_all add: load_eval demo_madt_mem_def demo_tables_mem_def)

lemma demo_bootable_with:
  assumes m0: "\<And>x. x < demo_upper \<Longrightarrow> m0 x = demo_madt_mem x"
  shows "bootable {256} HH {256..<264} demo_screen RSDP SIGN MADT [(1, 12), (2, 10)] (demo_kernel\<lparr>mem := m0\<rparr>)"
  unfolding bootable_def
proof (intro conjI allI impI)
  show "fb_address demo_screen \<noteq> NULL" by (simp add: demo_screen_def)
  fix s assume d: "drawn demo_screen (demo_kernel\<lparr>mem := m0\<rparr>) s"
  have f: "hhdm s = Some HH" "cr3 s = 0x5018" using d by (auto simp: drawn_def demo_kernel_def ioapic_state.defs demo_ioapic_def)
  note M = demo_unchanged [OF m0 d]
  have e: "entry_at HH (mem s) 0x5000 256 = 0"
    by (simp add: entry_at_def load_eval M) (simp add: demo_madt_mem_def demo_tables_mem_def)
  have w: "walk HH (mem s) 0x5000 p = Some t \<Longrightarrow> p \<in> paths 3 {256} \<Longrightarrow> p = [] \<and> t = 0x5000" for p t
    by (cases p) (auto simp: e paths_def)
  have "pt_tree {256} HH 0x5000 (mem s) {256..<264}" unfolding pt_tree_def by (auto dest!: w)
  then show "paging_bootable {256} HH {256..<264} s"
    using f demo_direct_map by (simp add: paging_bootable_def hhdm_ok_def pt_root_def PAGE_ADDR_MASK_def)
  show "firmware_ok {256} HH {256..<264} RSDP SIGN MADT [(1, 12), (2, 10)] s"
    unfolding firmware_ok_def
  proof (intro allI impI)
    fix m assume "\<forall>x. x \<notin> boot_area {256} HH {256..<264} s \<longrightarrow> m x = mem s x"
    then have m: "m x = demo_madt_mem x" if "x < 0xFFFF800000005000 \<or> 0xFFFF800000200010 \<le> x \<and> x < demo_upper" for x
    proof -
      have "x \<notin> boot_area {256} HH {256..<264} s" using demo_boot_area [OF _ f e, of x] that by (auto simp: word_le_nat_alt word_less_nat_alt)
      moreover have "x < 0xFFFF800000200000 \<or> 0xFFFF800000200010 \<le> x \<and> x < demo_upper" using that by (auto simp: word_le_nat_alt word_less_nat_alt)
      ultimately show ?thesis using \<open>\<forall>x. x \<notin> boot_area {256} HH {256..<264} s \<longrightarrow> m x = mem s x\<close> M [of x] by simp
    qed
    let ?s = "s\<lparr>mem := m\<rparr>"
    have lo: "m x = demo_madt_mem x" if "x \<in> region a 8" "a < 0xFFFF800000004FF0" for x a
      using that region_bounds [of x a 8] by (intro m) (auto simp: word_le_nat_alt word_less_nat_alt)
    have l64: "load64 a m = load64 a demo_madt_mem" if "a < 0xFFFF800000004FF0" for a
      using lo [OF _ that] by (rule m64.load_region)
    have l32: "load32 a m = load32 a demo_madt_mem" if "a < 0xFFFF800000004FF0" for a
      using lo [OF _ that] region_mono [of 4 8 a] by (intro m32.load_region) auto
    note ev = l64 l32 m demo_loads f phy_to_virt_def
    have r: "uses_xsdt RSDP ?s" by (simp add: uses_xsdt_def ev)
    have t: "root_table RSDP ?s = 0x2000" by (simp add: root_table_def r ev)
    have l: "root_length RSDP ?s = 52" by (simp add: root_length_def t ev)
    have u: "[0..<2] = [0, Suc 0]" by (simp add: upt_rec)
    have e: "root_entries RSDP ?s = [0x3000, 0x4000]" by (simp add: root_entries_def u r t l ev)
    have c: "cstring 4 p m = cstring 4 p demo_madt_mem" if "p \<in> {0xFFFF800000003000, MADT, SIGN}" for p
    proof (rule cstring_cong)
      fix x assume "x \<in> region p 4"
      then show "m x = demo_madt_mem x"
        using region_bounds [of x p 4] that by (intro m) (auto simp: word_le_nat_alt word_less_nat_alt demo_upper_def)
    qed simp
    have g: "\<not> has_signature SIGN ?s 0x3000" "has_signature SIGN ?s 0x4000"
      by (simp_all add: has_signature_def phy_to_virt_def f c demo_strings)
    have "findTable RSDP SIGN ?s = Some MADT"
      using findTable_correct [of RSDP ?s SIGN] r t l e g by (simp add: in_memory_def phy_to_virt_def f)
    moreover have "madt_holds MADT [(1, 12), (2, 10)] ?s"
      by (simp add: madt_holds_def ev)
    ultimately show "findTable RSDP SIGN ?s = Some MADT \<and> madt_holds MADT [(1, 12), (2, 10)] ?s" by simp
  qed
qed

lemma demo_bootable: "bootable {256} HH {256..<264} demo_screen RSDP SIGN MADT [(1, 12), (2, 10)] demo_kernel"
proof -
  have "demo_kernel\<lparr>mem := demo_madt_mem\<rparr> = demo_kernel" by (simp add: demo_kernel_def ioapic_state.defs demo_ioapic_def)
  then show ?thesis using demo_bootable_with [of demo_madt_mem] by simp
qed

lemma demo_booted:
  "\<exists>s'. start_kernel demo_env demo_screen (memmap demo_info) RSDP demo_kernel = Some s' \<and>
     booted {256} HH demo_env [0xFFFF80000000402C] demo_kernel s' \<and> boot_confined {256} HH {256..<264} demo_screen demo_kernel s'"
proof -
  have b: "apic_base demo_kernel = 0xFEE00000" "apic_low demo_kernel" by (simp_all add: apic_base_def apic_low_def demo_kernel_def ioapic_state.defs demo_ioapic_def)
  show ?thesis
    using start_kernel_correct [where fb = demo_screen and es = boot_map and n = 1 and I = "{256}" and h = HH
      and env = demo_env and madt = MADT and rs = "[(1, 12), (2, 10)]" and s = demo_kernel and rsdp = RSDP]
      boot_map_frames demo_bootable b by (simp add: demo_info_def demo_env_def x86_shl32_zero PML4_INDEX_def boot_map_def LIMINE_BASE_REVISION_SUPPORTED_def LIMINE_BASE_REVISION_def)
qed

theorem kmain_boots_witness:
  "\<exists>s'. kmain demo_env demo_info demo_kernel = Some (Hcf_done, s') \<and>
     booted {256} HH demo_env [0xFFFF80000000402C] demo_kernel s' \<and> boot_confined {256} HH {256..<264} demo_screen demo_kernel s'"
proof -
  have b: "apic_base demo_kernel = 0xFEE00000" "apic_low demo_kernel" by (simp_all add: apic_base_def apic_low_def demo_kernel_def ioapic_state.defs demo_ioapic_def)
  note f = boot_map_frames demo_bootable
  show ?thesis
    using kmain_boots [where info = demo_info and fb = demo_screen and es = boot_map and n = 1 and I = "{256}" and h = HH
      and env = demo_env and madt = MADT and rs = "[(1, 12), (2, 10)]" and s = demo_kernel and rsdp = RSDP and fbs = "[]"]
      f b by (simp add: demo_info_def demo_env_def x86_shl32_zero PML4_INDEX_def boot_map_def LIMINE_BASE_REVISION_SUPPORTED_def LIMINE_BASE_REVISION_def)
qed

text \<open>Each guard that fails ends \<open>kmain\<close> in \<open>hcf\<close> with the machine untouched, in the order of the code.\<close>

lemma kmain_unanswered: "base_revision info = limine_base_revision \<Longrightarrow> kmain env info s = Some (Hcf_revision, s)"
  using base_revision_unanswered by (simp add: kmain_def)

lemma kmain_guards:
  "\<not> LIMINE_BASE_REVISION_SUPPORTED (base_revision info) \<Longrightarrow> kmain env info s = Some (Hcf_revision, s)"
  "LIMINE_BASE_REVISION_SUPPORTED (base_revision info) \<Longrightarrow> framebuffers info \<in> {None, Some []} \<Longrightarrow> kmain env info s = Some (Hcf_framebuffer, s)"
  "LIMINE_BASE_REVISION_SUPPORTED (base_revision info) \<Longrightarrow> framebuffers info = Some (fb # fbs) \<Longrightarrow> memmap info = None \<Longrightarrow>
     kmain env info s = Some (Hcf_memmap, s)"
  "LIMINE_BASE_REVISION_SUPPORTED (base_revision info) \<Longrightarrow> framebuffers info = Some (fb # fbs) \<Longrightarrow> memmap info = Some r \<Longrightarrow> entry_count r \<noteq> 0 \<Longrightarrow>
     entries r \<noteq> None \<Longrightarrow> hhdm s = None \<Longrightarrow> kmain env info s = Some (Hcf_hhdm, s)"
  "LIMINE_BASE_REVISION_SUPPORTED (base_revision info) \<Longrightarrow> framebuffers info = Some (fb # fbs) \<Longrightarrow> memmap info = Some r \<Longrightarrow> entry_count r \<noteq> 0 \<Longrightarrow>
     entries r \<noteq> None \<Longrightarrow> hhdm s \<noteq> None \<Longrightarrow> rsdp_address info = None \<Longrightarrow> kmain env info s = Some (Hcf_rsdp, s)"
  by (auto simp: kmain_def)

end
