(* ===== verification/Heap_Lists.thy ===== *)
theory Heap_Lists
  imports Heap_Properties
begin

text \<open>
  The linked lists of slab pages of the kernel heap (\<open>heap_remove_slab_from_cache\<close> and
  \<open>heap_insert_slab_into_cache\<close> of \<open>src/kernel/src/memory/heap.c\<close>): the links in page headers as a list, and
  the two operations as removal and insertion.
\<close>

section \<open>Lists of slab pages\<close>

text \<open>
  \<open>slab_list h m p qs\<close>: starting at the physical address \<open>p\<close>, the members \<open>next\<close> of slab headers lead
  through the pages \<open>qs\<close> to 0.
\<close>

definition next_of :: "u64 \<Rightarrow> memory \<Rightarrow> u64 \<Rightarrow> u64" where
  "next_of h m p = load64 (p + h + SLAB_next) m"

definition slab_page :: "u64 \<Rightarrow> u64 \<Rightarrow> bool" where
  "slab_page h p \<longleftrightarrow> p \<noteq> 0 \<and> aligned p \<and> p + h \<noteq> NULL"

fun slab_list :: "u64 \<Rightarrow> memory \<Rightarrow> u64 \<Rightarrow> u64 list \<Rightarrow> bool" where
  "slab_list h m p [] \<longleftrightarrow> p = 0"
| "slab_list h m p (q # qs) \<longleftrightarrow> p = q \<and> slab_page h q \<and> slab_list h m (next_of h m q) qs"

lemma slab_list_pages: "slab_list h m p qs \<Longrightarrow> q \<in> set qs \<Longrightarrow> slab_page h q"
  by (induction qs arbitrary: p) auto

lemma next_field: "region (p + h + SLAB_next) 8 \<subseteq> region (p + h) 4096"
  using region_offset [of SLAB_next 8 4096 "p + h"] by simp

lemma next_store:
  assumes "slab_page h p" "slab_page h q"
  shows "next_of h (store64 v (p + h + SLAB_next) m) q = (if q = p then v else next_of h m q)"
proof (cases "q = p")
  case True
  then show ?thesis by (simp add: next_of_def m64.load_store)
next
  case False
  have "region (q + h + SLAB_next) 8 \<inter> region (p + h + SLAB_next) 8 = {}"
    using pages_apart [of q p h] assms False next_field [of q h] next_field [of p h] by (auto simp: slab_page_def)
  then show ?thesis using False by (simp add: next_of_def m64.load_store_apart)
qed

lemma slab_list_store:
  assumes "slab_page h p" "p \<notin> set qs"
  shows "slab_list h (store64 v (p + h + SLAB_next) m) r qs \<longleftrightarrow> slab_list h m r qs"
  using assms(2)
proof (induction qs arbitrary: r)
  case (Cons q qs)
  have "next_of h (store64 v (p + h + SLAB_next) m) q = next_of h m q" if "slab_page h q"
    using next_store [OF assms(1) that] Cons.prems by auto
  then show ?case using Cons by (cases "slab_page h q") simp_all
qed simp

lemma slab_list_unlink:
  assumes "slab_list h m r (as @ q # p # bs)" "distinct (as @ q # p # bs)"
  shows "slab_list h (store64 (next_of h m p) (q + h + SLAB_next) m) r (as @ q # bs)"
  using assms
proof (induction as arbitrary: r)
  case Nil
  then show ?case by (auto simp: next_store slab_list_store)
next
  case (Cons a as)
  then have "slab_page h q" "slab_page h a" "a \<noteq> q" using slab_list_pages [OF Cons.prems(1)] by auto
  then show ?case using Cons by (simp add: next_store)
qed

section \<open>Removal\<close>

text \<open>What \<open>heap_remove_slab_from_cache\<close> does once it has found the page \<open>p\<close> behind \<open>q\<close> (0 at the head).\<close>

definition unlink :: "nat \<Rightarrow> u64 \<Rightarrow> u64 \<Rightarrow> u64 \<Rightarrow> 'a heap_state_scheme \<Rightarrow> 'a heap_state_scheme" where
  "unlink c h q p s =
     (let n = next_of h (mem s) p in
      if q = 0 then s\<lparr>heap_caches := (heap_caches s)(c := (heap_caches s c)\<lparr>partial_pages := n\<rparr>), mem := store64 0 (p + h + SLAB_next) (mem s)\<rparr>
      else s\<lparr>mem := store64 0 (p + h + SLAB_next) (store64 n (q + h + SLAB_next) (mem s))\<rparr>)"

lemma remove_slab_loop_found:
  assumes "hhdm s = Some h" "slab_list h (mem s) cur (as @ p # bs)" "p \<notin> set as" "prev = 0 \<or> slab_page h prev"
  shows "remove_slab_loop c p prev cur s = Some (unlink c h (last (prev # as)) p s)"
  using assms(2-4)
proof (induction as arbitrary: prev cur)
  case Nil
  then show ?case using assms(1)
    by (subst remove_slab_loop.simps)
      (auto simp: heap_phy_to_virt_def slab_page_def unlink_def next_of_def Let_def read64_def write64_def)
next
  case (Cons a as)
  then have "remove_slab_loop c p prev cur s = remove_slab_loop c p a (next_of h (mem s) a) s"
    using assms(1) by (subst remove_slab_loop.simps) (auto simp: heap_phy_to_virt_def slab_page_def next_of_def read64_def)
  then show ?case using Cons by auto
qed

lemma remove_slab_loop_absent:
  assumes "hhdm s = Some h" "slab_list h (mem s) cur qs" "p \<notin> set qs"
  shows "remove_slab_loop c p prev cur s = Some s"
  using assms(2,3)
proof (induction qs arbitrary: prev cur)
  case Nil
  then show ?case by (subst remove_slab_loop.simps) simp
next
  case (Cons q qs)
  then show ?case using assms(1)
    by (subst remove_slab_loop.simps) (auto simp: heap_phy_to_virt_def slab_page_def next_of_def read64_def)
qed

definition next_fields :: "u64 \<Rightarrow> u64 list \<Rightarrow> u64 set" where
  "next_fields h ps = (\<Union>q\<in>set ps. region (q + h + SLAB_next) 8)"

lemma store_next_fields: "q \<in> set ps \<Longrightarrow> x \<notin> next_fields h ps \<Longrightarrow> store64 v (q + h + SLAB_next) m x = m x"
  by (intro m64.store_outside) (auto simp: next_fields_def)

lemma remove_slab_correct:
  assumes h: "hhdm s = Some h" and l: "slab_list h (mem s) (partial_pages (heap_caches s c)) ps" and d: "distinct ps"
  obtains s' where "heap_remove_slab_from_cache c p s = Some s'"
    "slab_list h (mem s') (partial_pages (heap_caches s' c)) (remove1 p ps)"
    "\<And>x. x \<notin> next_fields h ps \<Longrightarrow> mem s' x = mem s x" "\<And>e. e \<noteq> c \<Longrightarrow> heap_caches s' e = heap_caches s e"
    "object_size (heap_caches s' c) = object_size (heap_caches s c)" "buddy s' = buddy s"
    "p \<in> set ps \<Longrightarrow> next_of h (mem s') p = 0"
proof (cases "p \<in> set ps")
  case False
  then show thesis
    using that [of s] remove_slab_loop_absent [OF h l False] l by (simp add: heap_remove_slab_from_cache_def remove1_idem)
next
  case True
  then obtain as bs where ps: "ps = as @ p # bs" "p \<notin> set as" by (meson split_list_first)
  have p: "slab_page h p" using slab_list_pages [OF l True] .
  have r: "remove1 p ps = as @ bs" and pn: "p \<notin> set (as @ bs)" using ps d by (auto simp: remove1_append)
  let ?q = "last (0 # as)" and ?z = "p + h + SLAB_next"
  let ?s' = "unlink c h ?q p s"
  have ev: "heap_remove_slab_from_cache c p s = Some ?s'"
    using remove_slab_loop_found [OF h l [unfolded ps(1)] ps(2), of 0 c] by (simp add: heap_remove_slab_from_cache_def)
  have z: "next_of h (store64 0 ?z m) p = 0" for m using next_store [OF p p] by simp
  show thesis
  proof (cases as rule: rev_cases)
    case Nil
    have "slab_list h (mem s) (next_of h (mem s) p) bs" "partial_pages (heap_caches s c) = p" using l ps Nil by simp_all
    then have "slab_list h (store64 0 ?z (mem s)) (next_of h (mem s) p) bs" using slab_list_store [OF p] pn by simp
    then show thesis
      using that [of ?s'] ev z store_next_fields [OF True] r Nil by (simp add: unlink_def Let_def)
  next
    case (snoc as' q)
    have q: "slab_page h q" "q \<in> set ps" using slab_list_pages [OF l] ps snoc by auto
    have "slab_list h (store64 (next_of h (mem s) p) (q + h + SLAB_next) (mem s)) (partial_pages (heap_caches s c)) (as' @ q # bs)"
      using slab_list_unlink [of h "mem s" _ as' q p bs] l d ps snoc by simp
    then have "slab_list h (store64 0 ?z (store64 (next_of h (mem s) p) (q + h + SLAB_next) (mem s))) (partial_pages (heap_caches s c)) (as @ bs)"
      using slab_list_store [OF p pn] snoc by simp
    moreover have "?q \<noteq> 0" "?q = q" using q snoc by (simp_all add: slab_page_def)
    ultimately show thesis
      using that [of ?s'] ev z store_next_fields [OF True] store_next_fields [OF q(2)] r by (simp add: unlink_def Let_def)
  qed
qed

lemma insert_slab_correct:
  assumes h: "hhdm s = Some h" and l: "slab_list h (mem s) (partial_pages (heap_caches s c)) ps" and p: "slab_page h p" "p \<notin> set ps"
  obtains s' where "heap_insert_slab_into_cache c p s = Some s'"
    "slab_list h (mem s') (partial_pages (heap_caches s' c)) (p # ps)"
    "\<And>x. x \<notin> next_fields h [p] \<Longrightarrow> mem s' x = mem s x" "\<And>e. e \<noteq> c \<Longrightarrow> heap_caches s' e = heap_caches s e"
    "object_size (heap_caches s' c) = object_size (heap_caches s c)" "buddy s' = buddy s"
proof -
  let ?n = "partial_pages (heap_caches s c)"
  let ?s' = "s\<lparr>mem := store64 ?n (p + h + SLAB_next) (mem s), heap_caches := (heap_caches s)(c := (heap_caches s c)\<lparr>partial_pages := p\<rparr>)\<rparr>"
  have "heap_insert_slab_into_cache c p s = Some ?s'"
    using h p(1) by (simp add: heap_insert_slab_into_cache_def heap_phy_to_virt_def slab_page_def write64_def)
  then show thesis
    using that [of ?s'] l p next_store [OF p(1) p(1)] slab_list_store [OF p] store_next_fields [of p "[p]"] by simp
qed

section \<open>Properties\<close>

text \<open>
  C26. The list of slab pages of a size class refines a list: \<open>heap_remove_slab_from_cache\<close> ends, removes
  the page (nothing when it is not in the list) and clears its link; \<open>heap_insert_slab_into_cache\<close> puts
  a new page at the front.  Both write only links of the pages involved and leave the other size
  classes and the page allocator alone.
\<close>

theorem slab_lists_refine:
  assumes "hhdm s = Some h" "slab_list h (mem s) (partial_pages (heap_caches s c)) ps" "distinct ps"
  shows "(\<exists>s'. heap_remove_slab_from_cache c p s = Some s' \<and>
      slab_list h (mem s') (partial_pages (heap_caches s' c)) (remove1 p ps) \<and> (p \<in> set ps \<longrightarrow> next_of h (mem s') p = 0) \<and>
      (\<forall>x. x \<notin> next_fields h ps \<longrightarrow> mem s' x = mem s x) \<and> (\<forall>e. e \<noteq> c \<longrightarrow> heap_caches s' e = heap_caches s e) \<and> buddy s' = buddy s) \<and>
    (slab_page h p \<and> p \<notin> set ps \<longrightarrow> (\<exists>s'. heap_insert_slab_into_cache c p s = Some s' \<and>
      slab_list h (mem s') (partial_pages (heap_caches s' c)) (p # ps) \<and>
      (\<forall>x. x \<notin> next_fields h [p] \<longrightarrow> mem s' x = mem s x) \<and> (\<forall>e. e \<noteq> c \<longrightarrow> heap_caches s' e = heap_caches s e) \<and> buddy s' = buddy s))"
proof (intro conjI impI)
  show "\<exists>s'. heap_remove_slab_from_cache c p s = Some s' \<and>
      slab_list h (mem s') (partial_pages (heap_caches s' c)) (remove1 p ps) \<and> (p \<in> set ps \<longrightarrow> next_of h (mem s') p = 0) \<and>
      (\<forall>x. x \<notin> next_fields h ps \<longrightarrow> mem s' x = mem s x) \<and> (\<forall>e. e \<noteq> c \<longrightarrow> heap_caches s' e = heap_caches s e) \<and> buddy s' = buddy s"
    using remove_slab_correct [OF assms, of p] by metis
  assume "slab_page h p \<and> p \<notin> set ps"
  then show "\<exists>s'. heap_insert_slab_into_cache c p s = Some s' \<and>
      slab_list h (mem s') (partial_pages (heap_caches s' c)) (p # ps) \<and>
      (\<forall>x. x \<notin> next_fields h [p] \<longrightarrow> mem s' x = mem s x) \<and> (\<forall>e. e \<noteq> c \<longrightarrow> heap_caches s' e = heap_caches s e) \<and> buddy s' = buddy s"
    using insert_slab_correct [OF assms(1,2), of p] by metis
qed

text \<open>A list of two pages.\<close>

definition demo_slabs :: heap_state where
  "demo_slabs = demo_heap\<lparr>mem := store64 0x101000 (0x100000 + HH + SLAB_next) (mem demo_heap),
     heap_caches := (\<lambda>_. \<lparr>object_size = 8, partial_pages = 0x100000\<rparr>)\<rparr>"

theorem slab_lists_refine_witness:
  "\<exists>s'. heap_remove_slab_from_cache 0 0x101000 demo_slabs = Some s' \<and>
     slab_list HH (mem s') (partial_pages (heap_caches s' 0)) [0x100000]"
proof -
  have g: "slab_page HH 0x100000" "slab_page HH 0x101000" by (simp_all add: slab_page_def)
  have z: "next_of HH (mem demo_heap) 0x101000 = 0" by (simp add: next_of_def demo_heap_def heap_init_caches load64_zero)
  have h: "hhdm demo_slabs = Some HH" by (simp add: demo_slabs_def demo_heap_def heap_init_caches)
  have "slab_list HH (mem demo_slabs) (partial_pages (heap_caches demo_slabs 0)) [0x100000, 0x101000]"
    using g next_store [OF g(1) g(1)] next_store [OF g] z by (simp add: demo_slabs_def)
  then show ?thesis using slab_lists_refine [OF h, of 0 "[0x100000, 0x101000]" "0x101000"] by auto
qed

end
