(* ===== verification/Kernel_Invariant.thy ===== *)
theory Kernel_Invariant
  imports Boot Heap_Lists VMM_Refinement
begin

text \<open>
  What holds between the services of the running kernel: page tables, slab pages, the blocks of the
  heap's clients and the pages taken from the page allocator lie in different frames, and none of
  them is free.  Each service keeps this invariant.
\<close>

section \<open>Frames and their direct-map addresses\<close>

definition frame_mem :: "u64 \<Rightarrow> nat set \<Rightarrow> u64 set" where
  "frame_mem h F = {x. \<exists>u. aligned u \<and> unat u div 4096 \<in> F \<and> x \<in> region (u + h) 4096}"

definition table_frames :: "u64 set \<Rightarrow> 'a machine_scheme \<Rightarrow> nat set" where
  "table_frames I s = {unat t div 4096 | t p. p \<in> paths 3 I \<and> lookup s p = Some t}"

lemma aligned_frame_eq: "aligned t \<Longrightarrow> aligned u \<Longrightarrow> unat t div 4096 = unat u div 4096 \<Longrightarrow> t = u"
  by (metis dvd_mult_div_cancel unat_inj_iff)

lemma frame_mem_apart: "F \<inter> G = {} \<Longrightarrow> frame_mem h F \<inter> frame_mem h G = {}"
  unfolding frame_mem_def using pages_apart [of _ _ h] by blast

lemma frame_mem_mono: "F \<subseteq> G \<Longrightarrow> frame_mem h F \<subseteq> frame_mem h G"
  by (auto simp: frame_mem_def)

lemma frame_mem_page: "aligned u \<Longrightarrow> unat u div 4096 \<in> F \<Longrightarrow> region (u + h) 4096 \<subseteq> frame_mem h F"
  by (auto simp: frame_mem_def)

lemma frame_mem_subset:
  assumes "frame_mem h F \<subseteq> frame_mem h G" "f \<in> F" "f = unat t div 4096" "aligned t"
  shows "f \<in> G"
proof -
  have "t + h \<in> region (t + h) 4096" by (simp add: region_nonempty)
  then obtain u where u: "aligned u" "unat u div 4096 \<in> G" "t + h \<in> region (u + h) 4096"
    using frame_mem_page [of t F h] assms by (auto simp: frame_mem_def)
  then have "u = t" using pages_apart [OF assms(4) u(1), of h] \<open>t + h \<in> region (t + h) 4096\<close> by auto
  then show ?thesis using u(2) assms(3) by simp
qed

lemma tables_aligned: "paging_ok I s \<Longrightarrow> p \<in> paths 3 I \<Longrightarrow> lookup s p = Some t \<Longrightarrow> aligned t"
  by (auto simp: paging_ok_def lookup_def pt_tree_def dest: walk_aligned)

lemma vm_area_frames:
  assumes "paging_ok I s" "hhdm s = Some h"
  shows "vm_area I s = frame_mem h (free_set (buddy s) \<union> table_frames I s)"
proof -
  have "(\<exists>p\<in>paths 3 I. lookup s p = Some u) \<longleftrightarrow> unat u div 4096 \<in> table_frames I s" if "aligned u" for u
    using that tables_aligned [OF assms(1)] aligned_frame_eq [OF that] by (auto simp: table_frames_def)
  then show ?thesis using assms(2) by (auto simp: vm_area_def frame_mem_def)
qed

lemma vm_step_frames:
  assumes "paging_ok I s" "vm_step I s s'"
  shows "free_set (buddy s') \<union> table_frames I s' \<subseteq> free_set (buddy s) \<union> table_frames I s"
proof -
  obtain h where h: "hhdm s = Some h" using assms(1) by (auto simp: paging_ok_def)
  have ok: "paging_ok I s'" "hhdm s' = Some h" using assms(2) h by (auto simp: vm_step_def)
  have sub: "frame_mem h (free_set (buddy s') \<union> table_frames I s') \<subseteq> frame_mem h (free_set (buddy s) \<union> table_frames I s)"
    using assms(2) vm_area_frames [OF assms(1) h] vm_area_frames [OF ok] by (auto simp: vm_step_def)
  have "table_frames I s' \<subseteq> free_set (buddy s) \<union> table_frames I s"
  proof
    fix f assume f: "f \<in> table_frames I s'"
    then obtain t p where "p \<in> paths 3 I" "lookup s' p = Some t" "f = unat t div 4096" by (auto simp: table_frames_def)
    then show "f \<in> free_set (buddy s) \<union> table_frames I s" using frame_mem_subset [OF sub, of f t] f tables_aligned [OF ok(1)] by blast
  qed
  then show ?thesis using assms(2) by (auto simp: vm_step_def)
qed

section \<open>Changes that leave the page tables alone\<close>

lemma tables_unchanged:
  assumes ok: "paging_ok I s" and h: "hhdm s = Some h" and m: "\<And>x. x \<in> frame_mem h (table_frames I s) \<Longrightarrow> m x = mem s x"
    and q: "q \<in> paths 4 I"
  shows "walk h m (pt_root s) q = walk h (mem s) (pt_root s) q"
proof (rule walk_frame)
  fix p' j t assume p: "prefix (p' @ [j]) q" "walk h (mem s) (pt_root s) p' = Some t"
  have p': "p' \<in> paths 3 I" "j < 512" using paths_step [OF q p(1)] by auto
  have l: "lookup s p' = Some t" using p(2) h by (simp add: lookup_def)
  have t: "aligned t" "unat t div 4096 \<in> table_frames I s"
    using tables_aligned [OF ok p'(1) l] l p'(1) by (auto simp: table_frames_def)
  have "region (t + h + 8 * j) 8 \<subseteq> frame_mem h (table_frames I s)"
    using entry_in_page [OF p'(2), of t h] frame_mem_page [OF t, of h] by blast
  then show "entry_at h m t j = entry_at h (mem s) t j"
    unfolding entry_at_def using m by (intro m64.load_region) blast
qed

lemma paths_3_4: "p \<in> paths 3 I \<Longrightarrow> p \<in> paths 4 I"
  by (auto simp: paths_def)

lemma paging_unchanged:
  assumes ok: "paging_ok I s" and h: "hhdm s = Some h"
    and s': "\<And>x. x \<in> frame_mem h (table_frames I s) \<Longrightarrow> mem s' x = mem s x" "hhdm s' = Some h" "cr3 s' = cr3 s"
    and b: "buddy_wf (buddy s')" "free_set (buddy s') \<inter> table_frames I s = {}"
  shows "paging_ok I s'" "table_frames I s' = table_frames I s" "q \<in> paths 4 I \<Longrightarrow> lookup s' q = lookup s q"
proof -
  have r: "pt_root s' = pt_root s" using s'(3) by (simp add: pt_root_def)
  have W: "walk h (mem s') (pt_root s) q = walk h (mem s) (pt_root s) q" if "q \<in> paths 4 I" for q
    by (rule tables_unchanged [OF ok h _ that]) (rule s'(1))
  show L: "lookup s' q = lookup s q" if "q \<in> paths 4 I" for q using W [OF that] h s'(2) r by (simp add: lookup_def)
  then show "table_frames I s' = table_frames I s" using paths_3_4 unfolding table_frames_def by (metis (no_types, opaque_lifting))
  note D = paging_okD [OF ok h]
  have "unat t div 4096 \<notin> free_set (buddy s')" if "p \<in> paths 3 I" "walk h (mem s) (pt_root s) p = Some t" for p t
    using b(2) that h by (auto simp: table_frames_def lookup_def)
  then have "pt_tree I h (pt_root s) (mem s') (free_set (buddy s'))"
    using D(3) W [OF paths_3_4] unfolding pt_tree_def by simp
  then show "paging_ok I s'" using b(1) s'(2) r D(2) by (simp add: paging_ok_def)
qed

section \<open>The heap in memory\<close>

text \<open>The frames of the slab pages, and large blocks with their headers.\<close>

definition slab_frames :: "'a heap_state_scheme \<Rightarrow> nat set" where
  "slab_frames s = {unat (partial_pages (heap_caches s c)) div 4096 | c. c < 9 \<and> partial_pages (heap_caches s c) \<noteq> 0}"

definition large_block :: "u64 \<Rightarrow> memory \<Rightarrow> u64 \<times> u64 \<Rightarrow> bool" where
  "large_block h m b \<longleftrightarrow> unat (fst b) + 4096 * unat (snd b) \<le> 2 ^ 30 \<and> aligned (fst b) \<and>
     snd b \<noteq> 0 \<and> unat (snd b) \<le> page_span (snd b) \<and>
     load32 (fst b + h) m = HEAP_MAGIC_LARGE \<and> load32 (fst b + h + LARGE_page_count) m = ucast (snd b)"

lemma slab_frames_allocated: "heap_idle h s \<Longrightarrow> slab_frames s \<subseteq> allocated_set (buddy s)"
  by (auto simp: slab_frames_def heap_idle_def idle_cache_def)

lemma heap_idle_unchanged:
  assumes idle: "heap_idle h s" and m: "\<And>x. x \<in> frame_mem h (slab_frames s) \<Longrightarrow> mem s' x = mem s x"
    and s': "heap_caches s' = heap_caches s" "hhdm s' = hhdm s" "buddy_wf (buddy s')" "slab_frames s \<subseteq> allocated_set (buddy s')"
  shows "heap_idle h s'"
  unfolding heap_idle_def
proof (intro conjI allI impI)
  show "heap_base h s'" using idle s' by (simp add: heap_idle_def heap_base_def)
  fix c :: nat assume c: "c < 9"
  note C = heap_idle_cache [OF idle c]
  show "object_size (heap_caches s' c) = ucast (heap_cache_sizes ! c)" using C(1) s'(1) by simp
  show "idle_cache h (mem s') (allocated_set (buddy s')) (heap_caches s' c)"
  proof (cases "partial_pages (heap_caches s c) = 0")
    case True
    then show ?thesis using s'(1) by (simp add: idle_cache_def)
  next
    case False
    let ?p = "partial_pages (heap_caches s c)"
    have f: "unat ?p div 4096 \<in> slab_frames s" using c False by (auto simp: slab_frames_def)
    have p: "aligned ?p" "fresh_slab (?p + h) (object_size (heap_caches s c)) (mem s)" using C(3) False by (auto simp: idle_cache_def)
    have "fresh_slab (?p + h) (object_size (heap_caches s c)) (mem s')"
      using fresh_slab_cong [OF p(2) _ C(2)] m frame_mem_page [OF p(1) f, of h] by blast
    then show ?thesis using C(3) False s'(1,4) f by (auto simp: idle_cache_def)
  qed
qed

lemma block_mem:
  assumes "aligned p" "unat p + 4096 * n \<le> 2 ^ 30"
  shows "region (p + h) (4096 * n) \<subseteq> frame_mem h (frames_of n p)"
proof
  fix x assume "x \<in> region (p + h) (4096 * n)"
  then have k: "unat (x - (p + h)) < 4096 * n" by (simp add: region_def)
  let ?d = "x - (p + h)" and ?k = "unat (x - (p + h)) div 4096"
  let ?u = "p + of_nat (4096 * ?k)"
  have kn: "?k < n" using k by (simp add: div_less_iff_less_mult mult.commute)
  have o: "unat (of_nat (4096 * ?k) :: u64) = 4096 * ?k" using k assms(2) by (intro unat_of_nat64) simp
  have u: "unat ?u = unat p + 4096 * ?k" using o kn assms(2) by (subst unat_add_less) simp_all
  have "unat (?d - of_nat (4096 * ?k)) = unat ?d - 4096 * ?k" using o by (subst unat_sub) (simp_all add: word_le_nat_alt)
  then have "x \<in> region (?u + h) 4096" by (simp add: region_def algebra_simps minus_mult_div_eq_mod)
  moreover have "unat ?u div 4096 = unat p div 4096 + ?k" using u by simp
  moreover have "aligned ?u" using assms(1) u by simp
  ultimately show "x \<in> frame_mem h (frames_of n p)" using kn by (auto simp: frame_mem_def frames_of_def)
qed

lemma frames_of_mono: "m \<le> n \<Longrightarrow> frames_of m p \<subseteq> frames_of n p"
  by (auto simp: frames_of_def)

lemma large_block_mem:
  assumes "large_block h m b"
  shows "region (fst b + h) (4096 * unat (snd b)) \<subseteq> frame_mem h (held b)" "region (fst b + h) 8 \<subseteq> frame_mem h (held b)"
proof -
  have l: "aligned (fst b)" "unat (fst b) + 4096 * unat (snd b) \<le> 2 ^ 30" "unat (snd b) \<le> page_span (snd b)" "0 < unat (snd b)"
    using assms by (auto simp: large_block_def unat_gt_0)
  show d: "region (fst b + h) (4096 * unat (snd b)) \<subseteq> frame_mem h (held b)"
    using block_mem [OF l(1,2), of h] frame_mem_mono [OF frames_of_mono [OF l(3)], of h "fst b"] by (auto simp: held_def)
  show "region (fst b + h) 8 \<subseteq> frame_mem h (held b)"
    using d region_mono [of 8 "4096 * unat (snd b)" "fst b + h"] l(4) by auto
qed

lemma large_block_cong:
  assumes "large_block h m b" "\<And>x. x \<in> region (fst b + h) 8 \<Longrightarrow> m' x = m x"
  shows "large_block h m' b"
proof -
  have "load32 (fst b + h) m' = load32 (fst b + h) m"
    using assms(2) region_mono [of 4 8 "fst b + h"] by (intro m32.load_region) auto
  moreover have "load32 (fst b + h + 4) m' = load32 (fst b + h + 4) m"
    using assms(2) region_offset [of 4 4 8 "fst b + h"] by (intro m32.load_region) auto
  ultimately show ?thesis using assms(1) by (simp add: large_block_def)
qed

lemma large_block_unchanged:
  assumes "large_block h m b" "\<And>x. x \<notin> frame_mem h G \<Longrightarrow> m' x = m x" "held b \<inter> G = {}"
  shows "large_block h m' b"
proof (rule large_block_cong [OF assms(1)])
  fix x assume "x \<in> region (fst b + h) 8"
  then have "x \<notin> frame_mem h G" using large_block_mem(2) [OF assms(1)] frame_mem_apart [OF assms(3), of h] by blast
  then show "m' x = m x" by (rule assms(2))
qed

section \<open>The invariant of a running kernel\<close>

text \<open>
  \<open>live\<close> are the large blocks handed out by the heap and not yet released, each with its physical
  address and number of pages, \<open>raw\<close> the single pages taken from the page allocator.  The page tables,
  the slab pages, the live blocks and the pages are in different frames, and none of these is free.
\<close>

type_synonym owned = "(u64 \<times> u64) list"

definition kernel_inv :: "u64 set \<Rightarrow> u64 \<Rightarrow> 'a irq_state_scheme \<Rightarrow> owned \<Rightarrow> owned \<Rightarrow> bool" where
  "kernel_inv I h s live raw \<longleftrightarrow> paging_ok I s \<and> heap_idle h s \<and> aligned h \<and> g_virt_apic s \<noteq> NULL \<and> live_ok (buddy s) (live @ raw) \<and>
     (\<forall>b\<in>set live. large_block h (mem s) b) \<and> (\<forall>b\<in>set raw. snd b = 1) \<and>
     (\<forall>b\<in>set (live @ raw). held b \<inter> (slab_frames s \<union> table_frames I s) = {}) \<and> slab_frames s \<inter> table_frames I s = {}"

lemma kernel_inv_hhdm: "kernel_inv I h s live raw \<Longrightarrow> hhdm s = Some h"
  by (simp add: kernel_inv_def heap_idle_def heap_base_def)

lemma kernel_inv_mem:
  assumes inv: "kernel_inv I h s live raw"
    and m: "\<And>x. x \<in> frame_mem h (slab_frames s \<union> table_frames I s) \<Longrightarrow> mem s' x = mem s x"
    and b: "buddy_wf (buddy s')" "free_set (buddy s') \<inter> table_frames I s = {}" "slab_frames s \<subseteq> allocated_set (buddy s')"
    and l: "live_ok (buddy s') (live' @ raw')" "\<forall>b\<in>set live'. large_block h (mem s') b" "\<forall>b\<in>set raw'. snd b = 1"
      "\<forall>b\<in>set (live' @ raw'). held b \<inter> (slab_frames s \<union> table_frames I s) = {}"
    and f: "hhdm s' = hhdm s" "cr3 s' = cr3 s" "heap_caches s' = heap_caches s" "g_virt_apic s' = g_virt_apic s"
  shows "kernel_inv I h s' live' raw'"
proof -
  have i: "paging_ok I s" "heap_idle h s" using inv by (auto simp: kernel_inv_def)
  note h = kernel_inv_hhdm [OF inv]
  have m': "x \<in> frame_mem h (table_frames I s) \<Longrightarrow> mem s' x = mem s x" "x \<in> frame_mem h (slab_frames s) \<Longrightarrow> mem s' x = mem s x" for x
    using m frame_mem_mono [of "table_frames I s" "slab_frames s \<union> table_frames I s" h]
      frame_mem_mono [of "slab_frames s" "slab_frames s \<union> table_frames I s" h] by blast+
  have ok: "paging_ok I s'" "table_frames I s' = table_frames I s"
    using paging_unchanged(1,2) [OF i(1) h m'(1) _ f(2) b(1,2)] f(1) h by auto
  have sl: "slab_frames s' = slab_frames s" using f(3) by (simp add: slab_frames_def)
  have "heap_idle h s'" using heap_idle_unchanged [OF i(2) m'(2) f(3,1) b(1,3)] by blast
  then show ?thesis using inv ok sl l f(4) by (simp add: kernel_inv_def)
qed

lemma kernel_inv_change:
  assumes inv: "kernel_inv I h s live raw"
    and m: "\<And>x. x \<notin> frame_mem h G \<Longrightarrow> mem s' x = mem s x" "G \<inter> (slab_frames s \<union> table_frames I s) = {}"
    and b: "buddy_wf (buddy s')" "free_set (buddy s') \<inter> table_frames I s = {}" "slab_frames s \<subseteq> allocated_set (buddy s')"
    and l: "live_ok (buddy s') (live' @ raw')" "\<forall>b\<in>set live'. large_block h (mem s') b" "\<forall>b\<in>set raw'. snd b = 1"
      "\<forall>b\<in>set (live' @ raw'). held b \<inter> (slab_frames s \<union> table_frames I s) = {}"
    and f: "hhdm s' = hhdm s" "cr3 s' = cr3 s" "heap_caches s' = heap_caches s" "g_virt_apic s' = g_virt_apic s"
  shows "kernel_inv I h s' live' raw'"
proof (rule kernel_inv_mem [OF inv _ b l f])
  show "mem s' x = mem s x" if "x \<in> frame_mem h (slab_frames s \<union> table_frames I s)" for x
    using that m(1) frame_mem_apart [OF m(2), of h] by blast
qed

lemma kernel_inv_cong:
  assumes "buddy s' = buddy s" "mem s' = mem s" "hhdm s' = hhdm s" "cr3 s' = cr3 s" "heap_caches s' = heap_caches s" "g_virt_apic s' = g_virt_apic s"
  shows "kernel_inv I h s' live raw \<longleftrightarrow> kernel_inv I h s live raw"
proof -
  have "table_frames I s' = table_frames I s" using lookup_cong [OF assms(2-4)] by (simp add: table_frames_def)
  then show ?thesis
    using assms paging_cong [OF assms(1-4), of I] by (simp add: kernel_inv_def heap_idle_def heap_base_def slab_frames_def)
qed

section \<open>Each operation keeps the invariant\<close>

lemma kernel_invD:
  assumes "kernel_inv I h s live raw"
  shows "paging_ok I s" "heap_idle h s" "heap_base h s" "buddy_wf (buddy s)" "hhdm s = Some h" "hhdm_ok h" "aligned h"
    "live_ok (buddy s) (live @ raw)"
    "free_set (buddy s) \<inter> table_frames I s = {}" "slab_frames s \<subseteq> allocated_set (buddy s)" "free_set (buddy s) \<inter> slab_frames s = {}"
    "b \<in> set live \<Longrightarrow> large_block h (mem s) b" "b \<in> set (live @ raw) \<Longrightarrow> held b \<subseteq> allocated_set (buddy s)"
    "b \<in> set (live @ raw) \<Longrightarrow> held b \<inter> (slab_frames s \<union> table_frames I s) = {}" "slab_frames s \<inter> table_frames I s = {}"
    "b \<in> set raw \<Longrightarrow> snd b = 1"
proof -
  show base: "paging_ok I s" "heap_idle h s" "heap_base h s" "buddy_wf (buddy s)" "hhdm s = Some h" "hhdm_ok h" "aligned h"
    "live_ok (buddy s) (live @ raw)" "slab_frames s \<inter> table_frames I s = {}"
    using assms by (auto simp: kernel_inv_def heap_idle_def heap_base_def)
  show "free_set (buddy s) \<inter> table_frames I s = {}"
    using paging_okD [OF base(1,5)] pt_tree_table(3) by (fastforce simp: table_frames_def)
  show sa: "slab_frames s \<subseteq> allocated_set (buddy s)" by (rule slab_frames_allocated [OF base(2)])
  show "free_set (buddy s) \<inter> slab_frames s = {}" using sa buddy.apart [OF base(4)] by blast
  show "b \<in> set live \<Longrightarrow> large_block h (mem s) b" "b \<in> set raw \<Longrightarrow> snd b = 1" using assms by (auto simp: kernel_inv_def)
  show "b \<in> set (live @ raw) \<Longrightarrow> held b \<inter> (slab_frames s \<union> table_frames I s) = {}" using assms unfolding kernel_inv_def by blast
  show "b \<in> set (live @ raw) \<Longrightarrow> held b \<subseteq> allocated_set (buddy s)" using base(8) by (auto simp: live_ok_def live_block_def)
qed

text \<open>A frame that is owned is neither free nor used by the kernel.\<close>

lemma owned_apart:
  assumes "kernel_inv I h s live raw" "b \<in> set (live @ raw)"
  shows "held b \<inter> (free_set (buddy s) \<union> table_frames I s) = {}" "held b \<inter> free_set (buddy s) = {}"
  using kernel_invD(13,14) [OF assms] buddy.apart [OF kernel_invD(4) [OF assms(1)]] by blast+

lemma live_owned: "b \<in> set live \<Longrightarrow> b \<in> set (live @ raw)" "b \<in> set raw \<Longrightarrow> b \<in> set (live @ raw)"
  by simp_all

lemma live_ok_perm: "live_ok b (xs @ y # ys) \<longleftrightarrow> live_ok b (y # xs @ ys)"
  by (simp add: live_ok_def sorted_wrt_append ball_Un) blast

lemma live_ok_mono: "live_ok b own \<Longrightarrow> allocated_set b \<subseteq> allocated_set b' \<Longrightarrow> live_ok b' own"
  by (auto simp: live_ok_def live_block_def)

lemma large_block_new:
  assumes "buddy_wf b" "buddy_alloc_pages n b = Some (p, b')" "p \<noteq> BUDDY_INVALID_ADDRESS"
  shows "large_block h (large_header (p + h) n m) (p, n)"
  using alloc_pages_bound [OF assms] buddy.alloc_fresh [OF assms] large_header_fields(1,2) [of "p + h" n m]
  by (simp add: large_block_def dvd_eq_mod_eq_0)

lemma kmalloc_large_inv:
  assumes inv: "kernel_inv I h s live raw" and sz: "2048 < unat sz"
  shows "\<exists>r s'. kmalloc sz s = Some (r, s') \<and> (r = NULL \<and> s' = s \<or>
    (\<exists>p. r = p + h + 8 \<and> r \<noteq> NULL \<and> kernel_inv I h s' ((p, large_pages sz) # live) raw \<and>
      (\<forall>x. x \<notin> frame_mem h (held (p, large_pages sz)) \<longrightarrow> mem s' x = mem s x)))"
proof -
  note D = kernel_invD [OF inv]
  from D(3) sz show ?thesis
  proof (cases rule: kmalloc_large_cases [case_names none new])
    case none
    then show ?thesis by auto
  next
    case (new p b)
    let ?n = "large_pages sz" and ?G = "held (p, large_pages sz)"
    let ?s' = "s\<lparr>buddy := b, mem := large_header (p + h) ?n (mem s)\<rparr>"
    note a = buddy.alloc_fresh [OF D(4) new(2,3)] and w = buddy.alloc_new(3) [OF D(4) new(2,3)]
    have nb: "large_block h (mem ?s') (p, ?n)" using large_block_new [OF D(4) new(2,3)] by simp
    have G: "?G \<subseteq> free_set (buddy s)" using a by (simp add: held_def)
    have m: "mem ?s' x = mem s x" if "x \<notin> frame_mem h ?G" for x
      using that large_block_mem(2) [OF nb] large_header_fields(3) [of x "p + h"] by auto
    have "run_inv (b, (p, ?n) # live @ raw)"
      using run_inv_step [OF buddy_step.alloc_ok [OF new(2,3), of "live @ raw"]] D(4,8) by (simp add: run_inv_def)
    then have lv: "live_ok (buddy ?s') (((p, ?n) # live) @ raw)" by (simp add: run_inv_def)
    have old: "large_block h (mem ?s') c" if "c \<in> set live" for c
      using large_block_unchanged [OF D(12) [OF that] m] G owned_apart(2) [OF inv live_owned(1) [OF that]] by blast
    have "kernel_inv I h ?s' ((p, ?n) # live) raw"
    proof (rule kernel_inv_change [OF inv m])
      show g: "?G \<inter> (slab_frames s \<union> table_frames I s) = {}" using G D(9,11) by blast
      show "\<forall>c\<in>set ((p, ?n) # live). large_block h (mem ?s') c" using nb old by simp
      show "\<forall>c\<in>set (((p, ?n) # live) @ raw). held c \<inter> (slab_frames s \<union> table_frames I s) = {}" using g D(14) by auto
    qed (use a w lv D(9,10,16) in \<open>auto simp: held_def\<close>)
    then show ?thesis using new(1,4) m by auto
  qed
qed

text \<open>Giving an owned block back to the page allocator.\<close>

lemma release_frames:
  assumes inv: "kernel_inv I h s live raw" and b: "(p, n) \<in> set (live @ raw)"
  obtains b' where "buddy_free_pages p n (buddy s) = Some b'" "free_set b' \<subseteq> free_set (buddy s) \<union> held (p, n)"
    "allocated_set (buddy s) - held (p, n) \<subseteq> allocated_set b'" "buddy_wf b'"
proof (cases "p = 0")
  case True
  then show thesis using that [of "buddy s"] kernel_invD(4) [OF inv] by (auto simp: buddy_free_pages_def)
next
  case False
  note D = kernel_invD [OF inv]
  have "live_block (buddy s) (p, n)" using D(8) b by (auto simp: live_ok_def)
  then have "freeable p n (buddy s)" using False by (simp add: freeable_def live_block_def held_def)
  from free_pages_correct [OF D(4) this] obtain c where "buddy_free_pages p n (buddy s) = Some c" "buddy_wf c"
    "free_set c = free_set (buddy s) \<union> held (p, n)" "allocated_set c = allocated_set (buddy s) - held (p, n)" by (auto simp: held_def buddy_wf_def)
  then show thesis using that [of c] by simp
qed

lemma release_inv:
  assumes inv: "kernel_inv I h s live raw" and b: "(p, n) \<in> set (live @ raw)"
    and l: "live' @ raw' = remove1 (p, n) (live @ raw)" "set live' \<subseteq> set live" "set raw' \<subseteq> set raw"
  shows "\<exists>b'. buddy_free_pages p n (buddy s) = Some b' \<and> kernel_inv I h (s\<lparr>buddy := b'\<rparr>) live' raw'"
proof -
  note D = kernel_invD [OF inv]
  obtain b' where b': "buddy_free_pages p n (buddy s) = Some b'" "free_set b' \<subseteq> free_set (buddy s) \<union> held (p, n)"
    "allocated_set (buddy s) - held (p, n) \<subseteq> allocated_set b'" using release_frames [OF inv b] by blast
  let ?s' = "s\<lparr>buddy := b'\<rparr>"
  have r: "run_inv (b', live' @ raw')"
    using run_inv_step [OF buddy_step.free_live [OF b b'(1)]] D(4,8) unfolding l(1) by (simp add: run_inv_def)
  have "kernel_inv I h ?s' live' raw'"
  proof (rule kernel_inv_change [OF inv, where G = "{}"])
    show "\<forall>c\<in>set live'. large_block h (mem ?s') c" using D(12) l(2) by auto
    show "\<forall>c\<in>set (live' @ raw'). held c \<inter> (slab_frames s \<union> table_frames I s) = {}" using D(14) l(2,3) by auto
    show "free_set (buddy ?s') \<inter> table_frames I s = {}" "slab_frames s \<subseteq> allocated_set (buddy ?s')"
      using b'(2,3) D(9,10) D(14) [OF b] by auto
  qed (use r D(16) l(3) in \<open>auto simp: run_inv_def\<close>)
  then show ?thesis using b'(1) by blast
qed

lemma kfree_live:
  assumes inv: "kernel_inv I h s live raw" and b: "(p, n) \<in> set live"
  shows "kfree (p + h + 8) s = machine_free_pages p n s"
proof -
  note D = kernel_invD [OF inv]
  note lb = D(12) [OF b]
  have "unat n \<le> 2 ^ 18" "aligned p" "page_fits (p + h)"
    using lb direct_map_page [OF D(6), of p] by (auto simp: large_block_def simp flip: unat_gt_0)
  then show ?thesis using kfree_large [OF D(5,7)] lb by (simp add: large_block_def)
qed

lemma kfree_inv:
  assumes inv: "kernel_inv I h s live raw" and b: "(p, n) \<in> set live"
  shows "\<exists>s'. kfree (p + h + 8) s = Some s' \<and> kernel_inv I h s' (remove1 (p, n) live) raw \<and> mem s' = mem s"
proof -
  have "kfree (p + h + 8) s = machine_free_pages p n s" by (rule kfree_live [OF inv b])
  moreover have "remove1 (p, n) live @ raw = remove1 (p, n) (live @ raw)" using b by (simp add: remove1_append)
  then obtain b' where "buddy_free_pages p n (buddy s) = Some b'" "kernel_inv I h (s\<lparr>buddy := b'\<rparr>) (remove1 (p, n) live) raw"
    using release_inv [OF inv live_owned(1) [OF b] _ set_remove1_subset subset_refl] by metis
  ultimately show ?thesis by (simp add: machine_free_pages_def)
qed

text \<open>Single pages, taken from and given back to the page allocator.\<close>

lemma page_alloc_inv:
  assumes inv: "kernel_inv I h s live raw"
  shows "\<exists>p s'. machine_alloc_page s = Some (p, s') \<and> mem s' = mem s \<and>
    (if p = BUDDY_INVALID_ADDRESS then s' = s else kernel_inv I h s' live ((p, 1) # raw))"
proof -
  note D = kernel_invD [OF inv]
  obtain p b where p: "buddy_alloc_pages 1 (buddy s) = Some (p, b)" "p = BUDDY_INVALID_ADDRESS \<longrightarrow> b = buddy s"
    using buddy.alloc_returns [OF D(4), of 1] by blast
  let ?s' = "s\<lparr>buddy := b\<rparr>"
  have ev: "machine_alloc_page s = Some (p, ?s')" using p(1) by (simp add: machine_alloc_page_def buddy_alloc_page_def)
  show ?thesis
  proof (cases "p = BUDDY_INVALID_ADDRESS")
    case True
    then show ?thesis using ev p(2) by simp
  next
    case False
    note a = buddy.alloc_fresh [OF D(4) p(1) False] and w = buddy.alloc_new(3) [OF D(4) p(1) False]
    have G: "held (p, 1) \<subseteq> free_set (buddy s)" using a by (simp add: held_def)
    have "run_inv (b, (p, 1) # live @ raw)"
      using run_inv_step [OF buddy_step.alloc_ok [OF p(1) False, of "live @ raw"]] D(4,8) by (simp add: run_inv_def)
    then have lv: "live_ok (buddy ?s') (live @ (p, 1) # raw)" by (simp add: run_inv_def live_ok_perm)
    have "kernel_inv I h ?s' live ((p, 1) # raw)"
    proof (rule kernel_inv_change [OF inv, where G = "{}"])
      show "\<forall>c\<in>set (live @ (p, 1) # raw). held c \<inter> (slab_frames s \<union> table_frames I s) = {}" using G D(9,11,14) by auto
      show "\<forall>b\<in>set ((p, 1) # raw). snd b = 1" using D(16) by simp
      show "\<forall>b\<in>set live. large_block h (mem ?s') b" using D(12) by simp
    qed (use a w lv D(9,10) in \<open>auto simp: held_def\<close>)
    then show ?thesis using ev False by simp
  qed
qed

lemma page_free_inv:
  assumes inv: "kernel_inv I h s live raw" and p: "(p, 1) \<in> set raw" "(p, 1) \<notin> set live"
  shows "\<exists>s'. machine_free_page p s = Some s' \<and> kernel_inv I h s' live (remove1 (p, 1) raw) \<and> mem s' = mem s"
proof -
  have "live @ remove1 (p, 1) raw = remove1 (p, 1) (live @ raw)" using p(2) by (simp add: remove1_append)
  then obtain b' where "buddy_free_pages p 1 (buddy s) = Some b'" "kernel_inv I h (s\<lparr>buddy := b'\<rparr>) live (remove1 (p, 1) raw)"
    using release_inv [OF inv live_owned(2) [OF p(1)] _ subset_refl set_remove1_subset] by metis
  then show ?thesis by (simp add: machine_free_page_def buddy_free_page_def)
qed

lemma kmalloc_small_inv:
  assumes inv: "kernel_inv I h s live raw" and sz: "unat sz \<le> 2048"
  shows "\<exists>s'. kmalloc sz s = Some (NULL, s') \<and> kernel_inv I h s' live raw \<and>
    (\<forall>b\<in>set (live @ raw). \<forall>x\<in>frame_mem h (held b). mem s' x = mem s x)"
proof (cases "sz = 0")
  case True
  then show ?thesis using inv by (simp add: kmalloc_def)
next
  case False
  note D = kernel_invD [OF inv]
  obtain s1 where s1: "kmalloc sz s = Some (NULL, s1)" "heap_idle h s1" using kmalloc_small_null [OF D(2) False sz] by blast
  from D(2) False sz show ?thesis
  proof (cases rule: kmalloc_small_cases [case_names same new])
    case same
    then show ?thesis using inv by simp
  next
    case (new c p b m)
    let ?G = "{unat p div 4096}" and ?s' = "s\<lparr>buddy := b, mem := m\<rparr>"
    have G: "?G \<subseteq> free_set (buddy s)" using new(5) by simp
    have mm: "mem ?s' x = mem s x" if "x \<notin> frame_mem h ?G" for x
      using that new(10) frame_mem_page [OF new(3), of ?G h] by auto
    have hg: "held d \<inter> ?G = {}" if "d \<in> set (live @ raw)" for d using owned_apart(2) [OF inv that] G by blast
    have k: "kernel_inv I h ?s' live raw"
    proof (rule kernel_inv_change [OF inv mm])
      show "?G \<inter> (slab_frames s \<union> table_frames I s) = {}" using G D(9,11) by blast
      show "live_ok (buddy ?s') (live @ raw)" by (rule live_ok_mono [OF D(8)]) (use new(8) in auto)
      show "\<forall>d\<in>set live. large_block h (mem ?s') d"
        using large_block_unchanged [OF D(12) mm hg] by auto
    qed (use new(6-8) D(9,10,14,16) in auto)
    have k2: "table_frames I ?s' = table_frames I s"
      using mm frame_mem_apart [of ?G "table_frames I s" h] G D(9) new(6,7) by (intro paging_unchanged(2) [OF D(1,5)]) (auto simp: D(5))
    have s1e: "s1 = ?s'\<lparr>heap_caches := (heap_caches s)(c := (heap_caches s c)\<lparr>partial_pages := p\<rparr>)\<rparr>" using s1(1) new(2) by simp
    have sl: "slab_frames s1 \<subseteq> insert (unat p div 4096) (slab_frames s)"
      unfolding s1e by (auto simp: slab_frames_def split: if_splits)
    have t1: "paging_ok I s1" "table_frames I s1 = table_frames I s"
      using k2 paging_cong [of s1 ?s' I] lookup_cong [of s1 ?s'] kernel_invD(1) [OF k] unfolding s1e by (simp_all add: table_frames_def)
    have "kernel_inv I h s1 live raw"
      unfolding kernel_inv_def
    proof (intro conjI ballI)
      fix d assume "d \<in> set live"
      then show "large_block h (mem s1) d" using kernel_invD(12) [OF k] by (simp add: s1e)
    next
      fix d assume d: "d \<in> set (live @ raw)"
      show "held d \<inter> (slab_frames s1 \<union> table_frames I s1) = {}" using D(14) [OF d] hg [OF d] sl t1(2) by blast
    next
      show "slab_frames s1 \<inter> table_frames I s1 = {}" using sl t1(2) D(9,15) G by blast
    qed (use t1(1) s1(2) k s1e in \<open>simp_all add: kernel_inv_def\<close>)
    moreover have "mem s1 x = mem s x" if "d \<in> set (live @ raw)" "x \<in> frame_mem h (held d)" for d x
      using that(2) mm frame_mem_apart [OF hg [OF that(1)], of h] unfolding s1e by fastforce
    ultimately show ?thesis using s1(1) by blast
  qed
qed

text \<open>What the paging code does: it takes free frames for tables and writes only tables.\<close>

lemma vm_step_inv:
  assumes inv: "kernel_inv I h s live raw" and st: "vm_step I s s1"
  shows "kernel_inv I h s1 live raw" "\<forall>b\<in>set (live @ raw). \<forall>x\<in>frame_mem h (held b). mem s1 x = mem s x"
proof -
  note D = kernel_invD [OF inv] and ap = owned_apart(1) [OF inv]
  note F = vm_step_frames [OF D(1) st] and A = vm_area_frames [OF D(1,5)]
  have st': "paging_ok I s1" "hhdm s1 = hhdm s" "allocated_set (buddy s) \<subseteq> allocated_set (buddy s1)"
    "\<And>x. x \<notin> frame_mem h (free_set (buddy s) \<union> table_frames I s) \<Longrightarrow> mem s1 x = mem s x" "machine.more s1 = machine.more s"
    using st A by (auto simp: vm_step_def)
  have more: "heap_caches s1 = heap_caches s" "g_virt_apic s1 = g_virt_apic s" using apic_fields [OF st'(5)] by auto
  have sa: "slab_frames s \<inter> (free_set (buddy s) \<union> table_frames I s) = {}" using D(11,15) by blast
  have sl: "slab_frames s1 = slab_frames s" using more(1) by (simp add: slab_frames_def)
  have wf1: "buddy_wf (buddy s1)" using st'(1) by (auto simp: paging_ok_def)
  show "\<forall>b\<in>set (live @ raw). \<forall>x\<in>frame_mem h (held b). mem s1 x = mem s x"
    using st'(4) frame_mem_apart [OF ap, of _ h] by blast
  have "heap_idle h s1"
  proof (rule heap_idle_unchanged [OF D(2) _ more(1) st'(2) wf1])
    show "mem s1 x = mem s x" if "x \<in> frame_mem h (slab_frames s)" for x
      using st'(4) that frame_mem_apart [OF sa, of h] by blast
    show "slab_frames s \<subseteq> allocated_set (buddy s1)" using D(10) st'(3) by blast
  qed
  moreover have "large_block h (mem s1) b" if "b \<in> set live" for b
    using large_block_unchanged [OF D(12) [OF that] st'(4)] ap [OF live_owned(1) [OF that]] by blast
  moreover have "held b \<inter> (slab_frames s1 \<union> table_frames I s1) = {}" if "b \<in> set (live @ raw)" for b
    using ap [OF that] D(14) [OF that] F sl by blast
  moreover have "slab_frames s1 \<inter> table_frames I s1 = {}" using sa F sl by blast
  ultimately show "kernel_inv I h s1 live raw"
    using st'(1) D(7,16) more(2) inv live_ok_mono [OF D(8) st'(3)] by (simp add: kernel_inv_def)
qed

lemma invlpg_inv: "kernel_inv I h (invlpg_tlb v s) live raw \<longleftrightarrow> kernel_inv I h s live raw" "mem (invlpg_tlb v s) = mem s"
  using kernel_inv_cong [of "invlpg_tlb v s" s] by (simp_all add: invlpg_tlb_def)

lemma vmm_map_inv:
  assumes inv: "kernel_inv I h s live raw" and v: "PML4_INDEX v \<in> I"
  shows "\<exists>b s'. vmm_map v p f s = Some (b, s') \<and> kernel_inv I h s' live raw \<and>
    (\<forall>b\<in>set (live @ raw). \<forall>x\<in>frame_mem h (held b). mem s' x = mem s x)"
  using kernel_invD(1) [OF inv] v
proof (cases rule: vmm_map_cases [where p = p and f = f, case_names fail mapped])
  case (fail s1)
  then show ?thesis using vm_step_inv [OF inv fail(2)] by blast
next
  case (mapped s1)
  then show ?thesis using vm_step_inv [OF inv mapped(2)] invlpg_inv [where s = s1] by auto
qed

text \<open>
  \<open>vmm_unmap\<close> clears the entry and gives the frame to the page allocator, which ignores it when it is
  not one of those it has handed out.
\<close>

lemma vmm_unmap_eval:
  assumes ok: "paging_ok I s" and v: "PML4_INDEX v \<in> I" and f: "lookup s (va_path v) = Some f"
  shows "\<exists>s1. vm_step I s s1 \<and> buddy s1 = buddy s \<and> aligned f \<and>
    vmm_unmap v s = do { s' \<leftarrow> machine_free_page f (invlpg_tlb v s1); Some (True, s') }"
proof -
  obtain h where h: "hhdm s = Some h" using ok by (auto simp: paging_ok_def)
  let ?p = "[PML4_INDEX v, PDPT_INDEX v, PD_INDEX v]"
  note W = walk_levels [OF ok h v] and D = paging_okD [OF ok h] and P = va_path_prefixes [OF v]
  have vp: "va_path v = ?p @ [PT_INDEX v]" by (simp add: va_path_def)
  obtain t where t: "lookup s ?p = Some t" using f lookup_None unfolding vp by fastforce
  have tn: "t + h \<noteq> NULL" using pt_tree_table(2) [OF D(3) P(3)] D(4) t by simp
  let ?e = "entry_at h (mem s) t (PT_INDEX v)"
  have e: "?e AND PAGE_PRESENT \<noteq> 0" "?e AND PAGE_ADDR_MASK = f"
    using lookup_step [OF h t, of "PT_INDEX v"] f unfolding vp by (auto split: if_splits)
  let ?s1 = "s\<lparr>mem := store64 0 (t + h + 8 * PT_INDEX v) (mem s)\<rparr>"
  have "vmm_unmap v s = do { s' \<leftarrow> machine_free_page f (invlpg_tlb v ?s1); Some (True, s') }"
    unfolding vmm_unmap_def Let_def W(2) using W(1) t tn e
    by (simp add: read64_def write64_def entry_at_def)
  moreover have "aligned f" unfolding e(2) [symmetric] by simp
  ultimately show ?thesis using set_leaf(1) [OF ok h v t refl, where e = 0] by (intro exI [of _ ?s1]) simp
qed

lemma vmm_unmap_owned_inv:
  assumes inv: "kernel_inv I h s live raw" and v: "PML4_INDEX v \<in> I"
    and p: "lookup s (va_path v) = Some p" "(p, 1) \<in> set raw" "(p, 1) \<notin> set live"
  shows "\<exists>s'. vmm_unmap v s = Some (True, s') \<and> kernel_inv I h s' live (remove1 (p, 1) raw) \<and>
    (\<forall>b\<in>set (live @ raw). \<forall>x\<in>frame_mem h (held b). mem s' x = mem s x)"
proof -
  note D = kernel_invD [OF inv]
  obtain s1 where s1: "vm_step I s s1" "vmm_unmap v s = do { s' \<leftarrow> machine_free_page p (invlpg_tlb v s1); Some (True, s') }"
    using vmm_unmap_eval [OF D(1) v p(1)] by blast
  have i1: "kernel_inv I h (invlpg_tlb v s1) live raw" using vm_step_inv(1) [OF inv s1(1)] by (simp add: invlpg_inv)
  show ?thesis using page_free_inv [OF i1 p(2,3)] s1(2) vm_step_inv(2) [OF inv s1(1)] by (auto simp: invlpg_inv)
qed

lemma vmm_unmap_other_inv:
  assumes inv: "kernel_inv I h s live raw" and v: "PML4_INDEX v \<in> I"
    and p: "\<And>p. lookup s (va_path v) = Some p \<Longrightarrow> unat p < 2 ^ 44 \<and> unat p div 4096 \<notin> allocated_set (buddy s)"
  shows "\<exists>ok s'. vmm_unmap v s = Some (ok, s') \<and> kernel_inv I h s' live raw \<and>
    (\<forall>b\<in>set (live @ raw). \<forall>x\<in>frame_mem h (held b). mem s' x = mem s x)"
proof (cases "lookup s (va_path v)")
  case None
  then show ?thesis using vmm_unmap_absent [OF kernel_invD(1) [OF inv] v] inv by auto
next
  case (Some f)
  note D = kernel_invD [OF inv]
  obtain s1 where s1: "vm_step I s s1" "buddy s1 = buddy s" "aligned f"
    "vmm_unmap v s = do { s' \<leftarrow> machine_free_page f (invlpg_tlb v s1); Some (True, s') }"
    using vmm_unmap_eval [OF D(1) v Some] by blast
  have "buddy_free_page f (buddy s) = Some (buddy s)" using free_page_any [OF D(4) s1(3)] p [OF Some] by auto
  then have "machine_free_page f (invlpg_tlb v s1) = Some (invlpg_tlb v s1)" using s1(2) by (simp add: machine_free_page_def invlpg_tlb_def)
  then show ?thesis using s1(4) vm_step_inv [OF inv s1(1)] by (auto simp: invlpg_inv)
qed

lemma interrupt_inv:
  assumes inv: "kernel_inv I h s live raw"
  shows "\<exists>s'. interrupt_handler Reg s = Some s' \<and> kernel_inv I h s' live raw \<and> mem s' = mem s"
proof -
  have g: "g_virt_apic s \<noteq> NULL" using inv by (simp add: kernel_inv_def)
  have h: "interrupt_handler Reg s = Some (let s = (if reg_vectors Reg > 31 \<and> reg_vectors Reg < 48
      then (irq_handler Reg s)\<lparr>mmio := mmio s @ [(g_virt_apic s + 0xB0, 0)]\<rparr> else s)
    in if reg_vectors Reg < 32 then s\<lparr>cpu_halted := True\<rparr> else s)" (is "_ = Some ?s'")
    using g by (simp add: interrupt_handler_def irq_handler_def APIC_EOI_def write_lapic_register_def mmio_write_def)
  have "buddy ?s' = buddy s" "mem ?s' = mem s" "hhdm ?s' = hhdm s" "cr3 ?s' = cr3 s" "heap_caches ?s' = heap_caches s"
    "g_virt_apic ?s' = g_virt_apic s" by (simp_all add: Let_def irq_handler_def)
  then show ?thesis using inv h kernel_inv_cong [of ?s' s] by simp
qed

text \<open>A client may write the bytes of its block behind the header.\<close>

definition block_data :: "u64 \<Rightarrow> u64 \<times> u64 \<Rightarrow> u64 set" where
  "block_data h b = region (fst b + h + 8) (4096 * unat (snd b) - 8)"

lemma block_data_apart:
  assumes "large_block h m b"
  shows "block_data h b \<subseteq> frame_mem h (held b)" "block_data h b \<inter> region (fst b + h) 8 = {}"
proof -
  have n: "0 < unat (snd b)" "4096 * unat (snd b) \<le> 2 ^ 30" using assms by (auto simp: large_block_def unat_gt_0)
  have "block_data h b \<subseteq> region (fst b + h) (4096 * unat (snd b))"
    unfolding block_data_def using n by (intro region_offset) simp_all
  then show "block_data h b \<subseteq> frame_mem h (held b)" using large_block_mem(1) [OF assms] by blast
  have "region (fst b + h + 0) 8 \<inter> region (fst b + h + 8) (4096 * unat (snd b) - 8) = {}"
    using n by (intro region_disjoint_offsets) simp_all
  then show "block_data h b \<inter> region (fst b + h) 8 = {}" unfolding block_data_def by auto
qed

lemma held_apart:
  assumes "kernel_inv I h s live raw" "b \<in> set (live @ raw)" "c \<in> set (live @ raw)" "b \<noteq> c"
  shows "held b \<inter> held c = {}"
proof -
  have "c \<in> set (remove1 b (live @ raw))" using assms(3,4) by (metis in_set_remove1)
  then show ?thesis using kernel_invD(8) [OF assms(1)] assms(2) by (intro sorted_wrt_apart) (simp_all add: live_ok_def)
qed

text \<open>The bytes of what clients own: a block behind its header, a page as a whole.\<close>

definition owned_data :: "u64 \<Rightarrow> owned \<Rightarrow> owned \<Rightarrow> u64 set" where
  "owned_data h live raw = (\<Union>b\<in>set live. block_data h b) \<union> (\<Union>b\<in>set raw. frame_mem h (held b))"

lemma owned_data_block:
  assumes "kernel_inv I h s live raw" "x \<in> owned_data h live raw"
  obtains b where "b \<in> set (live @ raw)" "x \<in> frame_mem h (held b)" "b \<in> set live \<Longrightarrow> b \<notin> set raw \<Longrightarrow> x \<in> block_data h b"
proof -
  from assms(2) consider b where "b \<in> set raw" "x \<in> frame_mem h (held b)" | b where "b \<in> set live" "x \<in> block_data h b"
    by (auto simp: owned_data_def)
  then show thesis
  proof cases
    case 1
    then show thesis using that [of b] by auto
  next
    case 2
    then have "x \<in> frame_mem h (held b)" using block_data_apart(1) [OF kernel_invD(12) [OF assms(1)]] by blast
    then show thesis using that [of b] 2 by auto
  qed
qed

lemma raw_not_live:
  assumes "kernel_inv I h s live raw" "b \<in> set raw"
  shows "b \<notin> set live"
proof
  assume "b \<in> set live"
  then have "held b = {}" using kernel_invD(8) [OF assms(1)] assms(2) by (auto simp: live_ok_def sorted_wrt_append)
  moreover have "held b \<noteq> {}" using kernel_invD(16) [OF assms] by (auto simp: held_def frames_of_def buddy.span_one)
  ultimately show False by simp
qed

lemma store_inv:
  assumes inv: "kernel_inv I h s live raw" and x: "x \<in> owned_data h live raw"
  shows "kernel_inv I h (s\<lparr>mem := (mem s)(x := v)\<rparr>) live raw"
proof -
  note D = kernel_invD [OF inv]
  let ?s' = "s\<lparr>mem := (mem s)(x := v)\<rparr>"
  obtain b where b: "b \<in> set (live @ raw)" and xb: "x \<in> frame_mem h (held b)"
    and xd: "b \<in> set live \<Longrightarrow> b \<notin> set raw \<Longrightarrow> x \<in> block_data h b" using owned_data_block [OF inv x] by blast
  have lb: "large_block h (mem ?s') c" if c: "c \<in> set live" for c
  proof (cases "c = b")
    case True
    then have "x \<in> block_data h b" using xd c raw_not_live [OF inv] by blast
    then show ?thesis using True block_data_apart(2) [OF D(12) [OF c]] by (intro large_block_cong [OF D(12) [OF c]]) auto
  next
    case False
    have "held b \<inter> held c = {}" using held_apart [OF inv b live_owned(1) [OF c]] False by blast
    then show ?thesis using xb large_block_unchanged [OF D(12) [OF c], of "held b" "mem ?s'"] by fastforce
  qed
  show ?thesis
  proof (rule kernel_inv_change [OF inv, where G = "held b"])
    show "mem ?s' y = mem s y" if "y \<notin> frame_mem h (held b)" for y using that xb by auto
    show "held b \<inter> (slab_frames s \<union> table_frames I s) = {}" by (rule D(14) [OF b])
    show "\<forall>c\<in>set live. large_block h (mem ?s') c" using lb by blast
    show "\<forall>c\<in>set (live @ raw). held c \<inter> (slab_frames s \<union> table_frames I s) = {}" using D(14) by blast
  qed (use D in auto)
qed

end
