(* ===== verification/Kernel_Runs.thy ===== *)
theory Kernel_Runs
  imports Kernel_Invariant
begin

text \<open>
  The kernel after boot: heap requests, releases, pages, mappings, their removal, interrupts and
  stores of clients in any order.  Every step keeps the invariant, so that no service disturbs what
  another relies on or what a client has written.
\<close>

section \<open>Runs of the kernel\<close>

text \<open>
  After boot, the kernel's services are called in any order: allocation and release on the heap and
  of single pages, mappings and their removal below the slots \<open>I\<close>, interrupts, and stores of clients
  to what they own.  A page that is unmapped is given back by \<open>vmm_unmap\<close>, which therefore is called
  for pages the client owns, or for addresses whose frame the page allocator has not handed out
  (device registers, or nothing mapped).  An interrupt is here what its handler does to the state;
  what delivery and the stub write to the stack is in \<open>take_interrupt\<close> (\<open>Interrupt_Stubs\<close>), which
  \<open>Kernel_Interrupts\<close> puts in the place of this step.
\<close>

type_synonym 'a kernel_config = "'a irq_state_scheme \<times> owned \<times> owned"

inductive kernel_step :: "u64 set \<Rightarrow> u64 \<Rightarrow> 'a kernel_config \<Rightarrow> 'a kernel_config \<Rightarrow> bool" for I h where
  alloc_ok: "kmalloc sz s = Some (p + h + 8, s') \<Longrightarrow> p + h + 8 \<noteq> NULL \<Longrightarrow>
    kernel_step I h (s, live, raw) (s', (p, large_pages sz) # live, raw)"
| alloc_fail: "kmalloc sz s = Some (NULL, s') \<Longrightarrow> kernel_step I h (s, live, raw) (s', live, raw)"
| free_live: "(p, n) \<in> set live \<Longrightarrow> kfree (p + h + 8) s = Some s' \<Longrightarrow>
    kernel_step I h (s, live, raw) (s', remove1 (p, n) live, raw)"
| page_alloc_ok: "machine_alloc_page s = Some (p, s') \<Longrightarrow> p \<noteq> BUDDY_INVALID_ADDRESS \<Longrightarrow>
    kernel_step I h (s, live, raw) (s', live, (p, 1) # raw)"
| page_alloc_fail: "machine_alloc_page s = Some (BUDDY_INVALID_ADDRESS, s') \<Longrightarrow> kernel_step I h (s, live, raw) (s', live, raw)"
| page_free: "(p, 1) \<in> set raw \<Longrightarrow> machine_free_page p s = Some s' \<Longrightarrow>
    kernel_step I h (s, live, raw) (s', live, remove1 (p, 1) raw)"
| map_page: "PML4_INDEX v \<in> I \<Longrightarrow> vmm_map v q f s = Some (ok, s') \<Longrightarrow> kernel_step I h (s, live, raw) (s', live, raw)"
| unmap_owned: "PML4_INDEX v \<in> I \<Longrightarrow> lookup s (va_path v) = Some p \<Longrightarrow> (p, 1) \<in> set raw \<Longrightarrow> vmm_unmap v s = Some (ok, s') \<Longrightarrow>
    kernel_step I h (s, live, raw) (s', live, remove1 (p, 1) raw)"
| unmap_other: "PML4_INDEX v \<in> I \<Longrightarrow>
    (\<And>p. lookup s (va_path v) = Some p \<Longrightarrow> unat p < 2 ^ 44 \<and> unat p div 4096 \<notin> allocated_set (buddy s)) \<Longrightarrow>
    vmm_unmap v s = Some (ok, s') \<Longrightarrow> kernel_step I h (s, live, raw) (s', live, raw)"
| interrupt: "interrupt_handler Reg s = Some s' \<Longrightarrow> kernel_step I h (s, live, raw) (s', live, raw)"
| client_store: "x \<in> owned_data h live raw \<Longrightarrow> kernel_step I h (s, live, raw) (s\<lparr>mem := (mem s)(x := v)\<rparr>, live, raw)"

inductive kernel_reach :: "u64 set \<Rightarrow> u64 \<Rightarrow> 'a kernel_config \<Rightarrow> 'a kernel_config \<Rightarrow> bool" for I h t0 where
  start: "kernel_reach I h t0 t0"
| step: "kernel_reach I h t0 t \<Longrightarrow> kernel_step I h t u \<Longrightarrow> kernel_reach I h t0 u"

lemma kmalloc_inv:
  assumes "kernel_inv I h s live raw"
  shows "\<exists>r s'. kmalloc sz s = Some (r, s') \<and>
    (r = NULL \<and> kernel_inv I h s' live raw \<and> (\<forall>b\<in>set (live @ raw). \<forall>x\<in>frame_mem h (held b). mem s' x = mem s x) \<or>
     (\<exists>p. r = p + h + 8 \<and> r \<noteq> NULL \<and> kernel_inv I h s' ((p, large_pages sz) # live) raw \<and>
       (\<forall>x. x \<notin> frame_mem h (held (p, large_pages sz)) \<longrightarrow> mem s' x = mem s x)))"
proof (cases "unat sz \<le> 2048")
  case True
  then show ?thesis using kmalloc_small_inv [OF assms True] by blast
next
  case False
  then show ?thesis using kmalloc_large_inv [OF assms, of sz] assms by auto
qed

text \<open>
  One step: the invariant holds again, and of what was owned before no byte has changed but the one
  a client stored to.
\<close>

definition kept :: "u64 \<Rightarrow> 'a kernel_config \<Rightarrow> 'a kernel_config \<Rightarrow> bool" where
  "kept h t u \<longleftrightarrow> (\<forall>x\<in>owned_data h (fst (snd t)) (snd (snd t)). mem (fst u) x = mem (fst t) x \<or>
     (\<exists>v. fst u = fst t\<lparr>mem := (mem (fst t))(x := v)\<rparr> \<and> snd u = snd t))"

lemma keptI:
  assumes "kernel_inv I h s live raw" "\<forall>b\<in>set (live @ raw). \<forall>x\<in>frame_mem h (held b). mem s' x = mem s x"
  shows "kept h (s, live, raw) (s', live', raw')"
proof -
  have "mem s' x = mem s x" if x: "x \<in> owned_data h live raw" for x
    using owned_data_block [OF assms(1) x] assms(2) by blast
  then show ?thesis by (simp add: kept_def)
qed

lemma kernel_inv_step:
  "kernel_step I h t u \<Longrightarrow> kernel_inv I h (fst t) (fst (snd t)) (snd (snd t)) \<Longrightarrow>
    kernel_inv I h (fst u) (fst (snd u)) (snd (snd u)) \<and> kept h t u"
proof (induction rule: kernel_step.induct)
  case (alloc_ok sz s p s' live raw)
  then have inv: "kernel_inv I h s live raw" by simp
  obtain r t where "kmalloc sz s = Some (r, t)" "r = NULL \<or> (\<exists>p. r = p + h + 8 \<and> kernel_inv I h t ((p, large_pages sz) # live) raw \<and>
      (\<forall>x. x \<notin> frame_mem h (held (p, large_pages sz)) \<longrightarrow> mem t x = mem s x))"
    using kmalloc_inv [OF inv, of sz] by blast
  then have k: "kernel_inv I h s' ((p, large_pages sz) # live) raw"
    "\<And>x. x \<notin> frame_mem h (held (p, large_pages sz)) \<Longrightarrow> mem s' x = mem s x"
    using alloc_ok(1,2) by auto
  have "mem s' x = mem s x" if "b \<in> set (live @ raw)" "x \<in> frame_mem h (held b)" for b x
  proof -
    have "held (p, large_pages sz) \<inter> held b = {}" using kernel_invD(8) [OF k(1)] that(1) by (auto simp: live_ok_def)
    then show ?thesis using k(2) that(2) frame_mem_apart by blast
  qed
  then show ?case using k(1) keptI [OF inv] by simp
next
  case (alloc_fail sz s s' live raw)
  then show ?case using kmalloc_inv [of I h s live raw sz] by (auto intro: keptI)
next
  case (free_live p n live s s' raw)
  then show ?case using kfree_inv [of I h s live raw p n] by (auto intro: keptI)
next
  case (page_alloc_ok s p s' live raw)
  then show ?case using page_alloc_inv [of I h s live raw] by (auto intro: keptI)
next
  case (page_alloc_fail s s' live raw)
  then show ?case using page_alloc_inv [of I h s live raw] by (auto intro: keptI)
next
  case (page_free p raw s s' live)
  then show ?case using page_free_inv [of I h s live raw p] raw_not_live [of I h s live raw] by (auto intro: keptI)
next
  case (map_page v q f s ok s' live raw)
  then show ?case using vmm_map_inv [of I h s live raw v q f] by (auto intro: keptI)
next
  case (unmap_owned v s p raw ok s' live)
  then show ?case using vmm_unmap_owned_inv [of I h s live raw v p] raw_not_live [of I h s live raw] by (auto intro: keptI)
next
  case (unmap_other v s ok s' live raw)
  then show ?case using vmm_unmap_other_inv [of I h s live raw v] by (auto intro: keptI)
next
  case (interrupt Reg s s' live raw)
  then show ?case using interrupt_inv [of I h s live raw Reg] by (auto intro: keptI)
next
  case (client_store x live raw s v)
  then show ?case using store_inv [of I h s live raw x v] by (auto simp: kept_def)
qed

lemma kernel_inv_reach:
  "kernel_reach I h t0 t \<Longrightarrow> kernel_inv I h (fst t0) (fst (snd t0)) (snd (snd t0)) \<Longrightarrow> kernel_inv I h (fst t) (fst (snd t)) (snd (snd t))"
  by (induction rule: kernel_reach.induct) (auto dest: kernel_inv_step)

lemma booted_inv: "booted I h env ps s0 s \<Longrightarrow> kernel_inv I h s [] []"
  by (auto simp: booted_def kernel_inv_def live_ok_def slab_frames_def)

section \<open>Properties\<close>

text \<open>
  C1. In every run from the state \<open>kmain\<close> leaves, whatever the order of heap requests and releases,
  requests and releases of single pages, mappings and removals of mappings below the slots \<open>I\<close>,
  interrupts and client stores: the next call of any of these services returns without undefined
  behaviour, the page tables stay well formed, and the blocks and pages clients own overlap neither
  each other nor the page tables and free frames.
\<close>

theorem kernel_run_safe:
  fixes s1 s :: "'a kernel_state_scheme"
  assumes "booted I h env ps s0 s1" "kernel_reach I h (s1, [], []) (s, live, raw)"
  shows "paging_ok I s \<and> (\<forall>sz. \<exists>r s'. kmalloc sz s = Some (r, s')) \<and>
    (\<forall>p n. (p, n) \<in> set live \<longrightarrow> (\<exists>s'. kfree (p + h + 8) s = Some s')) \<and>
    (\<exists>p s'. machine_alloc_page s = Some (p, s')) \<and> (\<forall>p. (p, 1) \<in> set raw \<longrightarrow> (\<exists>s'. machine_free_page p s = Some s')) \<and>
    (\<forall>v q f. PML4_INDEX v \<in> I \<longrightarrow> (\<exists>ok s'. vmm_map v q f s = Some (ok, s'))) \<and>
    (\<forall>v p. PML4_INDEX v \<in> I \<longrightarrow> lookup s (va_path v) = Some p \<longrightarrow> (p, 1) \<in> set raw \<longrightarrow> (\<exists>s'. vmm_unmap v s = Some (True, s'))) \<and>
    (\<forall>v. PML4_INDEX v \<in> I \<longrightarrow> (\<forall>p. lookup s (va_path v) = Some p \<longrightarrow> unat p < 2 ^ 44 \<and> unat p div 4096 \<notin> allocated_set (buddy s)) \<longrightarrow>
       (\<exists>ok s'. vmm_unmap v s = Some (ok, s'))) \<and>
    (\<forall>Reg. \<exists>s'. interrupt_handler Reg s = Some s') \<and>
    (\<forall>i j. i < j \<and> j < length (live @ raw) \<longrightarrow> frame_mem h (held ((live @ raw) ! i)) \<inter> frame_mem h (held ((live @ raw) ! j)) = {}) \<and>
    owned_data h live raw \<inter> vm_area I s = {}"
proof -
  have inv: "kernel_inv I h s live raw" using kernel_inv_reach [OF assms(2)] booted_inv [OF assms(1)] by simp
  note D = kernel_invD [OF inv]
  have hd: "held ((live @ raw) ! i) \<inter> held ((live @ raw) ! j) = {}" if "i < j" "j < length (live @ raw)" for i j
    using D(8) that by (simp add: live_ok_def sorted_wrt_iff_nth_less)
  have "frame_mem h (held ((live @ raw) ! i)) \<inter> frame_mem h (held ((live @ raw) ! j)) = {}" if "i < j" "j < length (live @ raw)" for i j
    by (rule frame_mem_apart [OF hd [OF that]])
  moreover have "x \<notin> vm_area I s" if x: "x \<in> owned_data h live raw" for x
  proof -
    obtain b where "b \<in> set (live @ raw)" "x \<in> frame_mem h (held b)" using owned_data_block [OF inv x] by blast
    then show ?thesis using frame_mem_apart [OF owned_apart(1) [OF inv], of b h] vm_area_frames [OF D(1,5)] by blast
  qed
  then have "owned_data h live raw \<inter> vm_area I s = {}" by blast
  moreover have "\<exists>r s'. kmalloc sz s = Some (r, s')" for sz using kmalloc_inv [OF inv, of sz] by blast
  moreover have "\<exists>s'. kfree (p + h + 8) s = Some s'" if "(p, n) \<in> set live" for p n using kfree_inv [OF inv that] by blast
  moreover have "\<exists>p s'. machine_alloc_page s = Some (p, s')" using page_alloc_inv [OF inv] by blast
  moreover have "\<exists>s'. machine_free_page p s = Some s'" if "(p, 1) \<in> set raw" for p
    using page_free_inv [OF inv that raw_not_live [OF inv that]] by blast
  moreover have "\<exists>ok s'. vmm_map v q f s = Some (ok, s')" if "PML4_INDEX v \<in> I" for v q f using vmm_map_inv [OF inv that] by blast
  moreover have "\<exists>s'. vmm_unmap v s = Some (True, s')"
    if "PML4_INDEX v \<in> I" "lookup s (va_path v) = Some p" "(p, 1) \<in> set raw" for v p
    using vmm_unmap_owned_inv [OF inv that raw_not_live [OF inv that(3)]] by blast
  moreover have "\<exists>ok s'. vmm_unmap v s = Some (ok, s')"
    if "PML4_INDEX v \<in> I" "\<forall>p. lookup s (va_path v) = Some p \<longrightarrow> unat p < 2 ^ 44 \<and> unat p div 4096 \<notin> allocated_set (buddy s)" for v
    using vmm_unmap_other_inv [OF inv that(1)] that(2) by blast
  moreover have "\<exists>s'. interrupt_handler Reg s = Some s'" for Reg using interrupt_inv [OF inv] by blast
  ultimately show ?thesis using D(1) by simp
qed

theorem kernel_run_safe_witness:
  "\<exists>s1 s. start_kernel demo_env demo_screen (memmap demo_info) RSDP demo_kernel = Some s1 \<and>
     interrupt_handler (demo_regs 32) s1 = Some s \<and> (\<forall>sz. \<exists>r s'. kmalloc sz s = Some (r, s')) \<and>
     (\<exists>ok s'. vmm_map HH 0x100000 3 s = Some (ok, s'))"
proof -
  obtain s1 where s1: "start_kernel demo_env demo_screen (memmap demo_info) RSDP demo_kernel = Some s1"
    "booted {256} HH demo_env [0xFFFF80000000402C] demo_kernel s1" using demo_booted by blast
  obtain s where s: "interrupt_handler (demo_regs 32) s1 = Some s" using interrupt_inv [OF booted_inv [OF s1(2)]] by blast
  have r: "kernel_reach {256} HH (s1, [], []) (s, [], [])" by (rule kernel_reach.step [OF kernel_reach.start kernel_step.interrupt [OF s]])
  have "PML4_INDEX HH \<in> {256}" by (simp add: PML4_INDEX_def)
  then have "\<forall>sz. \<exists>r s'. kmalloc sz s = Some (r, s')" "\<exists>ok s'. vmm_map HH 0x100000 3 s = Some (ok, s')"
    using kernel_run_safe [OF s1(2) r] by simp_all
  then show ?thesis using s1(1) s by (intro exI [of _ s1] exI [of _ s]) simp
qed

text \<open>
  C2. What a client wrote stays: no step of a run, be it an allocation, a release, a mapping, the
  removal of one, an interrupt or a store elsewhere, changes a byte of a block or page that is
  owned; only a store to that very byte does.
\<close>

theorem kernel_data_kept:
  fixes s0 s s' :: "'a irq_state_scheme"
  assumes "kernel_inv I h s0 [] []" "kernel_reach I h (s0, [], []) (s, live, raw)" "kernel_step I h (s, live, raw) (s', live', raw')"
    and "x \<in> owned_data h live raw"
  shows "mem s' x = mem s x \<or> (\<exists>v. s' = s\<lparr>mem := (mem s)(x := v)\<rparr> \<and> live' = live \<and> raw' = raw)"
proof -
  have "kernel_inv I h s live raw" using kernel_inv_reach [OF assms(2)] assms(1) by simp
  then show ?thesis using kernel_inv_step [OF assms(3)] assms(4) by (simp add: kept_def)
qed

text \<open>A machine without mappings of its own, on which a block of two pages has been allocated.\<close>

definition demo_run :: irq_state where
  "demo_run = heap_init \<lparr>buddy = demo_state, mem = \<lambda>_. 0, hhdm = Some HH, cr3 = 0x5000, tlb_flushed = [],
     heap_caches = \<lambda>_. \<lparr>object_size = 0, partial_pages = 0\<rparr>, msrs = \<lambda>_. (0, 0), g_virt_apic = 0xFFFF8000FEE00000, mmio = [],
     tick = 0, cpu_halted = False\<rparr>"

lemma demo_run_inv: "kernel_inv {} HH demo_run [] []"
proof -
  have f: "buddy demo_run = demo_state" "hhdm demo_run = Some HH" "cr3 demo_run = 0x5000" "g_virt_apic demo_run \<noteq> NULL"
    "partial_pages (heap_caches demo_run c) = 0" for c by (simp_all add: demo_run_def heap_init_caches)
  have p: "paths 3 {} = {[]}" by (auto simp: paths_def)
  have "paging_ok {} demo_run"
    using demo_wf demo_free(1) f by (simp add: paging_ok_def pt_tree_def p pt_root_def PAGE_ADDR_MASK_def hhdm_ok_def)
  moreover have "heap_idle HH demo_run"
    unfolding demo_run_def using demo_wf by (intro heap_init_idle) (simp add: heap_base_def hhdm_ok_def)
  ultimately show ?thesis using f(4,5) by (simp add: kernel_inv_def live_ok_def slab_frames_def)
qed

theorem kernel_data_kept_witness:
  "\<exists>p s s'. kmalloc 5000 demo_run = Some (p + HH + 8, s) \<and> interrupt_handler (demo_regs 32) s = Some s' \<and>
     mem s' (p + HH + 8) = mem s (p + HH + 8)"
proof -
  have sz: "2048 < unat (5000 :: u64)" by simp
  have ne: "kmalloc 5000 demo_run \<noteq> Some (NULL, demo_run)"
  proof -
    have a: "buddy_alloc_pages (large_pages 5000) (buddy demo_run) = Some (0x100000, the (map_option snd (buddy_alloc_pages 2 demo_state)))"
      using demo_large by (auto simp: large_pages_def BUDDY_PAGE_SIZE_def demo_run_def heap_init_caches)
    from kernel_invD(3) [OF demo_run_inv] sz show ?thesis
      by (cases rule: kmalloc_large_cases) (use a in \<open>auto simp: BUDDY_INVALID_ADDRESS_def\<close>)
  qed
  obtain p s where s: "kmalloc 5000 demo_run = Some (p + HH + 8, s)" "p + HH + 8 \<noteq> NULL" "kernel_inv {} HH s [(p, large_pages 5000)] []"
    using kmalloc_large_inv [OF demo_run_inv sz] ne by auto
  obtain s' where s': "interrupt_handler (demo_regs 32) s = Some s'" using interrupt_inv [OF s(3)] by blast
  have r: "kernel_reach {} HH (demo_run, [], []) (s, [(p, large_pages 5000)], [])"
    by (rule kernel_reach.step [OF kernel_reach.start kernel_step.alloc_ok [OF s(1,2)]])
  have x: "p + HH + 8 \<in> owned_data HH [(p, large_pages 5000)] []"
    by (simp add: owned_data_def block_data_def region_def large_pages_def BUDDY_PAGE_SIZE_def)
  have "mem s' (p + HH + 8) = mem s (p + HH + 8) \<or> (\<exists>v. s' = s\<lparr>mem := (mem s)(p + HH + 8 := v)\<rparr>)"
    using kernel_data_kept [OF demo_run_inv r kernel_step.interrupt [OF s'] x] by auto
  moreover have "mem s' = mem s" using interrupt_inv [OF s(3), of "demo_regs 32"] s' by auto
  ultimately show ?thesis using s(1) s' by auto
qed

end
