(* ===== verification/Interrupt_Stubs.thy ===== *)
theory Interrupt_Stubs
  imports Interrupts Descriptor_Tables
begin

text \<open>
  The assembly stubs of \<open>src/kernel/src/system/interrupt/asm/idt.asm\<close>: the code as lists of
  instructions, with their meaning on the processor's registers and on memory; the call of
  \<open>interrupt_handler\<close> on the frame on the stack; and the delivery of an interrupt through a gate of the
  interrupt descriptor table.  The lemmas follow the words on the stack through the common part.
\<close>

section \<open>The processor\<close>

text \<open>
  The registers the stubs touch.  \<open>sregs\<close> holds the segment selectors.
\<close>

datatype gpr = RAX | RBX | RCX | RDX | RSI | RDI | RBP | RSP | R8 | R9 | R10 | R11 | R12 | R13 | R14 | R15

datatype sreg = CS | DS | ES | FS | GS | SS

record cpu =
  gprs :: "gpr \<Rightarrow> u64"
  sregs :: "sreg \<Rightarrow> u16"
  rip :: u64
  rflags :: u64

text \<open>
  The instructions of the file.  \<open>Call_handler\<close> is \<open>call interrupt_handler\<close>, the only call in it.
\<close>

datatype instr =
    Push_imm u64
  | Push gpr
  | Pop gpr
  | Xor gpr gpr
  | Mov gpr gpr
  | Mov16_imm gpr u16
  | Mov16_from gpr sreg
  | Mov_to sreg gpr
  | Add_imm gpr u64
  | Call_handler
  | Iretq

text \<open>
  What the compiler and the linker decide about the call: the return address, the general registers
  and the memory that the compiled \<open>interrupt_handler\<close> leaves besides its effect on the kernel's
  state, and the flags an arithmetic instruction leaves.
\<close>

record compiled =
  return_address :: u64
  left_gprs :: "cpu \<Rightarrow> gpr \<Rightarrow> u64"
  left_mem :: "cpu \<Rightarrow> memory \<Rightarrow> memory"
  alu_flags :: "u64 \<Rightarrow> u64 \<Rightarrow> u64"

section \<open>Instructions\<close>

definition push_word :: "u64 \<Rightarrow> cpu \<times> 'a machine_scheme \<Rightarrow> cpu \<times> 'a machine_scheme" where
  "push_word v = (\<lambda>(c, s). let a = gprs c RSP - 8 in
     (c\<lparr>gprs := (gprs c)(RSP := a)\<rparr>, s\<lparr>mem := store64 v a (mem s)\<rparr>))"

definition pop_word :: "cpu \<times> 'a machine_scheme \<Rightarrow> u64 \<times> cpu" where
  "pop_word = (\<lambda>(c, s). (load64 (gprs c RSP) (mem s), c\<lparr>gprs := (gprs c)(RSP := gprs c RSP + 8)\<rparr>))"

definition set_low16 :: "u64 \<Rightarrow> u16 \<Rightarrow> u64" where
  "set_low16 old v = (old AND NOT 0xFFFF) OR ucast v"

text \<open>The structure \<open>Registers\<close> in memory: 23 words in the order of its members.\<close>

definition read_Registers :: "u64 \<Rightarrow> memory \<Rightarrow> Registers" where
  "read_Registers a m = (let w = (\<lambda>i. load64 (a + 8 * i) m) in
     \<lparr>reg_ds = w 0, reg_r15 = w 1, reg_r14 = w 2, reg_r13 = w 3, reg_r12 = w 4, reg_r11 = w 5, reg_r10 = w 6,
      reg_r9 = w 7, reg_r8 = w 8, reg_rbp = w 9, reg_rdi = w 10, reg_rsi = w 11, reg_rdx = w 12, reg_rcx = w 13,
      reg_rbx = w 14, reg_rax = w 15, reg_vectors = w 16, reg_errorcode = w 17, reg_rip = w 18, Registers.reg_cs = w 19,
      reg_rflags = w 20, reg_rsp = w 21, reg_ss = w 22\<rparr>)"

text \<open>
  The call passes the pointer in \<open>rdi\<close>.  A handler that halts the processor does not return;
  otherwise control returns to the word on top of the stack, which has to be the return address.
\<close>

definition call_handler :: "compiled \<Rightarrow> cpu \<times> 'a irq_state_scheme \<Rightarrow> (cpu \<times> 'a irq_state_scheme) option" where
  "call_handler env = (\<lambda>(c, s).
     let (c, s) = push_word (return_address env) (c, s)
     in do { s \<leftarrow> interrupt_handler (read_Registers (gprs c RDI) (mem s)) s;
             (if cpu_halted s then Some (c, s)
              else let s = s\<lparr>mem := left_mem env c (mem s)\<rparr>;
                       (a, c) = pop_word (c\<lparr>gprs := left_gprs env c\<rparr>, s)
                   in if a = return_address env then Some (c, s) else None) })"

fun exec_instr :: "compiled \<Rightarrow> instr \<Rightarrow> cpu \<times> 'a irq_state_scheme \<Rightarrow> (cpu \<times> 'a irq_state_scheme) option" where
  "exec_instr env (Push_imm v) cs = Some (push_word v cs)"
| "exec_instr env (Push r) cs = Some (push_word (gprs (fst cs) r) cs)"
| "exec_instr env (Pop r) cs = (let (v, c) = pop_word cs in Some (c\<lparr>gprs := (gprs c)(r := v)\<rparr>, snd cs))"
| "exec_instr env (Xor r q) (c, s) = (let v = gprs c r XOR gprs c q in
     Some (c\<lparr>gprs := (gprs c)(r := v), rflags := alu_flags env v (rflags c)\<rparr>, s))"
| "exec_instr env (Mov r q) (c, s) = Some (c\<lparr>gprs := (gprs c)(r := gprs c q)\<rparr>, s)"
| "exec_instr env (Mov16_imm r v) (c, s) = Some (c\<lparr>gprs := (gprs c)(r := set_low16 (gprs c r) v)\<rparr>, s)"
| "exec_instr env (Mov16_from r q) (c, s) = Some (c\<lparr>gprs := (gprs c)(r := set_low16 (gprs c r) (sregs c q))\<rparr>, s)"
| "exec_instr env (Mov_to q r) (c, s) = Some (c\<lparr>sregs := (sregs c)(q := ucast (gprs c r))\<rparr>, s)"
| "exec_instr env (Add_imm r v) (c, s) = (let v = gprs c r + v in
     Some (c\<lparr>gprs := (gprs c)(r := v), rflags := alu_flags env v (rflags c)\<rparr>, s))"
| "exec_instr env Call_handler cs = call_handler env cs"
| "exec_instr env Iretq (c, s) = (let w = (\<lambda>i. load64 (gprs c RSP + 8 * i) (mem s)) in
     Some (c\<lparr>gprs := (gprs c)(RSP := w 3), sregs := (sregs c)(CS := ucast (w 1), SS := ucast (w 4)), rip := w 0, rflags := w 2\<rparr>, s))"

fun run_code :: "compiled \<Rightarrow> instr list \<Rightarrow> cpu \<times> 'a irq_state_scheme \<Rightarrow> (cpu \<times> 'a irq_state_scheme) option" where
  "run_code env [] cs = Some cs"
| "run_code env (i # is) cs = (if cpu_halted (snd cs) then Some cs else do { cs \<leftarrow> exec_instr env i cs; run_code env is cs })"

section \<open>The stubs\<close>

definition isr_common :: "instr list" where
  "isr_common =
     [Push RAX, Push RBX, Push RCX, Push RDX, Push RSI, Push RDI, Push RBP, Push R8, Push R9, Push R10, Push R11,
      Push R12, Push R13, Push R14, Push R15,
      Xor RAX RAX, Mov16_from RAX DS, Push RAX,
      Mov16_imm RAX 0x10, Mov_to DS RAX, Mov_to ES RAX, Mov_to FS RAX, Mov_to GS RAX, Mov RDI RSP,
      Call_handler,
      Pop RAX, Mov_to DS RAX, Mov_to ES RAX, Mov_to FS RAX, Mov_to GS RAX,
      Pop R15, Pop R14, Pop R13, Pop R12, Pop R11, Pop R10, Pop R9, Pop R8, Pop RBP, Pop RDI, Pop RSI, Pop RDX,
      Pop RCX, Pop RBX, Pop RAX,
      Add_imm RSP 16, Iretq]"

text \<open>The three macros; \<open>jmp isr_common\<close> goes on with the code of \<open>isr_common\<close>.\<close>

definition isr_err_stub :: "nat \<Rightarrow> instr list" where
  "isr_err_stub i = Push_imm (of_nat i) # isr_common"

definition isr_no_err_stub :: "nat \<Rightarrow> instr list" where
  "isr_no_err_stub i = Push_imm 0 # Push_imm (of_nat i) # isr_common"

definition isr_Reserved_stub :: "nat \<Rightarrow> instr list" where
  "isr_Reserved_stub i = [Iretq]"

text \<open>Which macro the file uses for which vector.\<close>

definition isr_stub :: "nat \<Rightarrow> instr list" where
  "isr_stub i = (if i \<in> {8, 10, 11, 12, 13, 14, 17, 30} then isr_err_stub i
     else if i < 48 then isr_no_err_stub i else isr_Reserved_stub i)"

section \<open>Delivery of an interrupt\<close>

text \<open>
  What the processor does with an interrupt or exception of the running kernel (ring 0, 64-bit
  mode): it takes the stack of the gate's \<open>ist\<close> field or the current one, aligns it to 16 bytes,
  pushes \<open>ss\<close>, \<open>rsp\<close>, \<open>rflags\<close>, \<open>cs\<close>, \<open>rip\<close> and, for some exceptions, an error code, clears the
  flags IF, TF, NT and RF (0x14300) for an interrupt gate, and goes on at the gate's address.
\<close>

definition pushes_error_code :: "nat \<Rightarrow> bool" where
  "pushes_error_code i \<longleftrightarrow> i \<in> {8, 10, 11, 12, 13, 14, 17, 21, 29, 30}"

definition enter_gate :: "'b idt_state_scheme \<Rightarrow> nat \<Rightarrow> u64 \<Rightarrow> cpu \<times> 'a machine_scheme \<Rightarrow> (cpu \<times> 'a machine_scheme) option" where
  "enter_gate t i err = (\<lambda>(c, s).
     let e = idt t i;
         a = (if ist e = 0 then gprs c RSP else tss_ist (gdt_tss (gdt t)) (unat (ist e) - 1)) AND NOT 0xF;
         ws = [ucast (sregs c SS), gprs c RSP, rflags c, ucast (sregs c CS), rip c] @ (if pushes_error_code i then [err] else []);
         (c', s') = fold push_word ws (c\<lparr>gprs := (gprs c)(RSP := a)\<rparr>, s)
     in if bit (attributes e) 7
        then Some (c'\<lparr>sregs := (sregs c)(CS := kernel_cs e), rip := gate_offset e, rflags := rflags c AND NOT 0x14300\<rparr>, s')
        else None)"

text \<open>
  One interrupt from its delivery to the return.  \<open>stubs\<close> gives the addresses of the stubs, which are
  the code there.
\<close>

definition take_interrupt :: "compiled \<Rightarrow> (nat \<Rightarrow> u64) \<Rightarrow> 'b idt_state_scheme \<Rightarrow> nat \<Rightarrow> u64 \<Rightarrow> cpu \<times> 'a irq_state_scheme \<Rightarrow>
    (cpu \<times> 'a irq_state_scheme) option" where
  "take_interrupt env stubs t i err cs =
     do { (c, s) \<leftarrow> enter_gate t i err cs;
          (if rip c = stubs i then run_code env (isr_stub i) (c, s) else None) }"


section \<open>Words on a stack\<close>

primrec stack_at :: "u64 \<Rightarrow> u64 list \<Rightarrow> memory \<Rightarrow> bool" where
  "stack_at a [] m = True"
| "stack_at a (w # ws) m = (load64 a m = w \<and> stack_at (a + 8) ws m)"

definition unchanged_outside :: "u64 set \<Rightarrow> memory \<Rightarrow> memory \<Rightarrow> bool" where
  "unchanged_outside R m m' \<longleftrightarrow> (\<forall>x. x \<notin> R \<longrightarrow> m' x = m x)"

lemma stack_at_cong:
  assumes "8 * length ws \<le> 2 ^ 64" "\<And>x. x \<in> region a (8 * length ws) \<Longrightarrow> m' x = m x"
  shows "stack_at a ws m' = stack_at a ws m"
  using assms
proof (induction ws arbitrary: a)
  case (Cons w ws)
  have "region a 8 \<subseteq> region a (8 * length (w # ws))" by (rule region_mono) simp
  then have "load64 a m' = load64 a m" using Cons.prems(2) by (intro m64.load_region) auto
  moreover have "region (a + 8) (8 * length ws) \<subseteq> region a (8 * length (w # ws))"
    using Cons.prems(1) by (intro region_offset) auto
  then have "stack_at (a + 8) ws m' = stack_at (a + 8) ws m" using Cons.prems by (intro Cons.IH) auto
  ultimately show ?case by simp
qed simp

lemma stack_at_push:
  assumes "stack_at a ws m" "8 * Suc (length ws) \<le> 2 ^ 64"
  shows "stack_at (a - 8) (v # ws) (store64 v (a - 8) m)"
proof -
  have "region (a - 8) 8 \<inter> region a (8 * length ws) = {}"
    using region_disjoint_offsets [of 0 8 8 "8 * length ws" "a - 8"] assms(2) by simp
  then have "stack_at a ws (store64 v (a - 8) m) = stack_at a ws m"
    using assms(2) by (intro stack_at_cong) (auto intro: m64.store_outside)
  then show ?thesis using assms(1) by (simp add: m64.load_store)
qed

lemma stack_at_append: "stack_at a (us @ ws) m \<longleftrightarrow> stack_at a us m \<and> stack_at (a + 8 * of_nat (length us)) ws m"
  by (induction us arbitrary: a) (auto simp: algebra_simps)

lemma unchanged_push:
  assumes "unchanged_outside (region a n) m m'" "n + 8 \<le> 2 ^ 64"
  shows "unchanged_outside (region (a - 8) (n + 8)) m (store64 v (a - 8) m')"
proof -
  have "region a n \<subseteq> region (a - 8) (n + 8)" using region_offset [of 8 n "n + 8" "a - 8"] assms(2) by simp
  moreover have "region (a - 8) 8 \<subseteq> region (a - 8) (n + 8)" by (rule region_mono) simp
  ultimately have "x \<notin> region a n \<and> x \<notin> region (a - 8) 8" if "x \<notin> region (a - 8) (n + 8)" for x using that by blast
  then show ?thesis using assms(1) by (simp add: unchanged_outside_def m64.store_outside)
qed

text \<open>Several words pushed one after the other: what lies on the stack, and which bytes changed.\<close>

primrec push_words :: "u64 list \<Rightarrow> u64 \<Rightarrow> memory \<Rightarrow> memory" where
  "push_words [] a m = m"
| "push_words (v # vs) a m = push_words vs (a - 8) (store64 v (a - 8) m)"

lemma push_words_append: "push_words (us @ vs) a m = push_words vs (a - 8 * of_nat (length us)) (push_words us a m)"
  by (induction us arbitrary: a m) (simp_all add: algebra_simps)

lemma push_words_stack:
  assumes "stack_at a ws m" "8 * (length vs + length ws) \<le> 2 ^ 64"
  shows "stack_at (a - 8 * of_nat (length vs)) (rev vs @ ws) (push_words vs a m)"
  using assms
proof (induction vs arbitrary: a ws m)
  case (Cons v vs)
  then show ?case using Cons.IH [OF stack_at_push [of a ws m v]] by (simp add: algebra_simps)
qed simp

lemma push_words_unchanged:
  assumes "unchanged_outside (region a n) m m'" "n + 8 * length vs \<le> 2 ^ 64"
  shows "unchanged_outside (region (a - 8 * of_nat (length vs)) (n + 8 * length vs)) m (push_words vs a m')"
  using assms
proof (induction vs arbitrary: a n m')
  case (Cons v vs)
  then show ?case using Cons.IH [OF unchanged_push [of a n m m' v]] by (simp add: algebra_simps)
qed simp

lemma fold_push_word:
  "fold push_word vs (c, s) = (c\<lparr>gprs := (gprs c)(RSP := gprs c RSP - 8 * of_nat (length vs))\<rparr>, s\<lparr>mem := push_words vs (gprs c RSP) (mem s)\<rparr>)"
  by (induction vs arbitrary: c s) (simp_all add: push_word_def Let_def algebra_simps)

section \<open>Running the stubs\<close>

lemma run_pushes:
  assumes "RSP \<notin> set rs" "\<not> cpu_halted s"
  shows "run_code env (map Push rs @ is) (c, s) = run_code env is (fold push_word (map (gprs c) rs) (c, s))"
  using assms
proof (induction rs arbitrary: c s)
  case (Cons r rs)
  let ?c = "c\<lparr>gprs := (gprs c)(RSP := gprs c RSP - 8)\<rparr>"
  have "map (gprs ?c) rs = map (gprs c) rs" using Cons.prems(1) by auto
  then show ?case
    using Cons.prems Cons.IH [of "s\<lparr>mem := store64 (gprs c r) (gprs c RSP - 8) (mem s)\<rparr>" ?c]
      fold_push_word [of "[gprs c r]" c s] by (simp del: fun_upd_apply)
qed simp

lemma run_pops:
  assumes "stack_at (gprs c RSP) ws (mem s)" "length ws = length rs" "RSP \<notin> set rs" "distinct rs" "\<not> cpu_halted s"
  shows "run_code env (map Pop rs @ is) (c, s) = run_code env is
    (c\<lparr>gprs := (\<lambda>r. if r = RSP then gprs c RSP + 8 * of_nat (length rs)
        else case map_of (zip rs ws) r of Some w \<Rightarrow> w | None \<Rightarrow> gprs c r)\<rparr>, s)"
  using assms
proof (induction rs arbitrary: c ws)
  case Nil
  have "c\<lparr>gprs := (\<lambda>r. if r = RSP then gprs c RSP + 8 * of_nat (length ([] :: gpr list))
      else case map_of (zip [] ws) r of Some w \<Rightarrow> w | None \<Rightarrow> gprs c r)\<rparr> = c"
    by (rule cpu.equality) auto
  then show ?case by (simp only: list.map append_Nil)
next
  case (Cons r rs)
  then obtain w ws' where ws: "ws = w # ws'" by (cases ws) auto
  let ?c = "c\<lparr>gprs := (gprs c)(RSP := gprs c RSP + 8, r := w)\<rparr>"
  have "run_code env (map Pop (r # rs) @ is) (c, s) = run_code env (map Pop rs @ is) (?c, s)"
    using Cons.prems by (auto simp: ws pop_word_def Let_def)
  also have "\<dots> = run_code env is (c\<lparr>gprs := (\<lambda>q. if q = RSP then gprs ?c RSP + 8 * of_nat (length rs)
        else case map_of (zip rs ws') q of Some w \<Rightarrow> w | None \<Rightarrow> gprs ?c q)\<rparr>, s)"
    using Cons.prems by (subst Cons.IH) (auto simp: ws)
  also have "(\<lambda>q. if q = RSP then gprs ?c RSP + 8 * of_nat (length rs)
        else case map_of (zip rs ws') q of Some w \<Rightarrow> w | None \<Rightarrow> gprs ?c q) =
     (\<lambda>q. if q = RSP then gprs c RSP + 8 * of_nat (length (r # rs))
        else case map_of (zip (r # rs) ws) q of Some w \<Rightarrow> w | None \<Rightarrow> gprs c q)"
    using Cons.prems by (auto simp: ws algebra_simps fun_eq_iff split: option.splits dest!: map_of_SomeD set_zip_leftD)
  finally show ?case .
qed


text \<open>
  The calling convention (System V x86-64) of the compiled handler, with at most \<open>d\<close> bytes of stack:
  the callee-saved registers and the stack pointer are as at the entry, and besides the kernel's
  variables only the \<open>d\<close> bytes below the stack pointer change.
\<close>

definition sysv_callee :: "nat \<Rightarrow> compiled \<Rightarrow> bool" where
  "sysv_callee d env \<longleftrightarrow> (\<forall>c. \<forall>r\<in>{RBX, RBP, RSP, R12, R13, R14, R15}. left_gprs env c r = gprs c r) \<and>
     (\<forall>c m. unchanged_outside (region (gprs c RSP - of_nat d) d) m (left_mem env c m))"

text \<open>What \<open>interrupt_handler\<close> makes of the state.\<close>

definition handled :: "Registers \<Rightarrow> 'a irq_state_scheme \<Rightarrow> 'a irq_state_scheme" where
  "handled r s = s\<lparr>mmio := mmio s @ (if is_irq r then [(g_virt_apic s + 0xB0, 0)] else []),
     tick := tick s + (if reg_vectors r = 0x20 then 1 else 0),
     cpu_halted := (cpu_halted s \<or> is_exception r)\<rparr>"

lemma handled_simps [simp]:
  "handled r (s\<lparr>mem := m\<rparr>) = (handled r s)\<lparr>mem := m\<rparr>" "mem (handled r s) = mem s"
  "cpu_halted (handled r s) \<longleftrightarrow> cpu_halted s \<or> is_exception r" "g_virt_apic (handled r s) = g_virt_apic s"
  by (simp_all add: handled_def)

lemma read_Registers_cong:
  assumes "\<And>x. x \<in> region a 184 \<Longrightarrow> m' x = m x"
  shows "read_Registers a m' = read_Registers a m"
proof -
  have "load64 (a + 8 * i) m' = load64 (a + 8 * i) m" if "unat i \<le> 22" for i
  proof (rule m64.load_region)
    have "unat (8 * i) = 8 * unat i" using that by (simp add: unat_word_ariths)
    then have "region (a + 8 * i) 8 \<subseteq> region a 184" using that by (intro region_offset) auto
    then show "m' x = m x" if "x \<in> region (a + 8 * i) 8" for x using that assms by blast
  qed
  from this [of 0] this [of 1] this [of 2] this [of 3] this [of 4] this [of 5] this [of 6] this [of 7]
    this [of 8] this [of 9] this [of 10] this [of 11] this [of 12] this [of 13] this [of 14] this [of 15]
    this [of 16] this [of 17] this [of 18] this [of 19] this [of 20] this [of 21] this [of 22]
  show ?thesis by (simp add: read_Registers_def Let_def)
qed

lemma unchanged_outsideD: "unchanged_outside R m m' \<Longrightarrow> x \<notin> R \<Longrightarrow> m' x = m x"
  by (simp add: unchanged_outside_def)

lemma unchanged_outside_trans:
  "unchanged_outside R m m' \<Longrightarrow> unchanged_outside R' m' m'' \<Longrightarrow> R \<subseteq> Q \<Longrightarrow> R' \<subseteq> Q \<Longrightarrow> unchanged_outside Q m m''"
  by (auto simp: unchanged_outside_def subset_iff) metis

lemma region_below: "n \<le> k \<Longrightarrow> k \<le> 2 ^ 64 \<Longrightarrow> region (a - of_nat n) n \<subseteq> region (a - of_nat k) k"
proof -
  assume nk: "n \<le> k" "k \<le> 2 ^ 64"
  have "unat (of_nat (k - n) :: u64) \<le> k - n" by (simp add: unat_of_nat)
  then have "region ((a - of_nat k) + of_nat (k - n)) n \<subseteq> region (a - of_nat k) k"
    using nk by (intro region_offset) linarith+
  then show ?thesis using nk by (simp add: of_nat_diff)
qed

lemma region_below_disjoint: "d + n \<le> 2 ^ 64 \<Longrightarrow> region (a - of_nat d) d \<inter> region a n = {}"
proof (cases "d = 0 \<or> n = 0")
  case False
  assume "d + n \<le> 2 ^ 64"
  moreover from this have "unat (of_nat d :: u64) = d" using False by (intro unat_of_nat64) linarith
  ultimately show ?thesis using region_disjoint_offsets [of 0 d "of_nat d" n "a - of_nat d"] by simp
qed auto

text \<open>The call, on a stack that holds the frame and in which the handler has \<open>d\<close> bytes to go.\<close>

lemma call_handler_correct:
  fixes s :: "'a irq_state_scheme"
  assumes abi: "sysv_callee d env" "d + 192 \<le> 2 ^ 64"
    and s: "g_virt_apic s \<noteq> NULL" "\<not> cpu_halted s" "gprs c RDI = gprs c RSP"
  defines "r \<equiv> read_Registers (gprs c RSP) (mem s)"
  shows "\<exists>c' m'. call_handler env (c, s) = Some (c', (handled r s)\<lparr>mem := m'\<rparr>) \<and>
    unchanged_outside (region (gprs c RSP - of_nat (d + 8)) (d + 8)) (mem s) m' \<and>
    (if is_exception r then gprs c' RDI = gprs c RDI
     else gprs c' RSP = gprs c RSP \<and> sregs c' = sregs c)"
proof -
  let ?a = "gprs c RSP" and ?ra = "return_address env"
  let ?m = "store64 ?ra (?a - 8) (mem s)"
  let ?c = "c\<lparr>gprs := (gprs c)(RSP := ?a - 8)\<rparr>"
  let ?m2 = "left_mem env ?c ?m"
  have m: "unchanged_outside (region (?a - 8) 8) (mem s) ?m"
    by (simp add: unchanged_outside_def m64.store_outside)
  have m2: "unchanged_outside (region (?a - 8 - of_nat d) d) ?m ?m2"
    using abi(1) unfolding sysv_callee_def by (auto dest!: spec [of _ ?c])
  have sub: "region (?a - 8) 8 \<subseteq> region (?a - of_nat (d + 8)) (d + 8)"
    using region_below [of 8 "d + 8" ?a] abi(2) by simp
  have sub2: "region (?a - 8 - of_nat d) d \<subseteq> region (?a - of_nat (d + 8)) (d + 8)"
    using region_mono [of d "d + 8" "?a - of_nat (d + 8)"] by (simp add: algebra_simps)
  have out: "unchanged_outside (region (?a - of_nat (d + 8)) (d + 8)) (mem s) ?m2"
    by (rule unchanged_outside_trans [OF m m2 sub sub2])
  have dis: "region (?a - 8) 8 \<inter> region ?a 184 = {}" using region_below_disjoint [of 8 184 ?a] by simp
  have r: "read_Registers ?a ?m = r" unfolding r_def
    using dis by (intro read_Registers_cong) (auto intro: m64.store_outside)
  have "region (?a - 8 - of_nat d) d \<inter> region (?a - 8) 8 = {}" using abi(2) by (intro region_below_disjoint) simp
  then have "load64 (?a - 8) ?m2 = load64 (?a - 8) ?m"
    using m2 by (intro m64.load_region) (auto dest: unchanged_outsideD)
  then have ra: "load64 (?a - 8) ?m2 = ?ra" by (simp add: m64.load_store)
  have rsp: "left_gprs env ?c RSP = ?a - 8" using abi(1) unfolding sysv_callee_def by auto
  have ih: "interrupt_handler r (s\<lparr>mem := ?m\<rparr>) = Some ((handled r s)\<lparr>mem := ?m\<rparr>)"
    using interrupt_handler_eq [of "s\<lparr>mem := ?m\<rparr>" r] s(1) by (simp add: handled_def)
  show ?thesis
  proof (cases "is_exception r")
    case True
    then have "call_handler env (c, s) = Some (?c, (handled r s)\<lparr>mem := ?m\<rparr>)"
      using ih r s by (simp add: call_handler_def push_word_def Let_def)
    moreover have "unchanged_outside (region (?a - of_nat (d + 8)) (d + 8)) (mem s) ?m"
      using m sub by (auto simp: unchanged_outside_def)
    ultimately show ?thesis using True by (intro exI [of _ ?c] exI [of _ ?m]) simp
  next
    case False
    let ?c' = "?c\<lparr>gprs := (left_gprs env ?c)(RSP := ?a)\<rparr>"
    have "call_handler env (c, s) = Some (?c', (handled r s)\<lparr>mem := ?m2\<rparr>)"
      using ih r ra rsp s False by (simp add: call_handler_def push_word_def pop_word_def Let_def)
    then show ?thesis using out False by (intro exI [of _ ?c'] exI [of _ ?m2]) simp
  qed
qed


section \<open>The common part\<close>

definition saved_gprs :: "gpr list" where
  "saved_gprs = [RAX, RBX, RCX, RDX, RSI, RDI, RBP, R8, R9, R10, R11, R12, R13, R14, R15]"

definition isr_enter :: "instr list" where
  "isr_enter = [Xor RAX RAX, Mov16_from RAX DS, Push RAX,
      Mov16_imm RAX 0x10, Mov_to DS RAX, Mov_to ES RAX, Mov_to FS RAX, Mov_to GS RAX, Mov RDI RSP]"

definition isr_leave :: "instr list" where
  "isr_leave = Pop RAX # Mov_to DS RAX # Mov_to ES RAX # Mov_to FS RAX # Mov_to GS RAX # map Pop (rev saved_gprs) @ [Add_imm RSP 16, Iretq]"

lemma isr_common_split: "isr_common = map Push saved_gprs @ isr_enter @ Call_handler # isr_leave"
  by (simp add: isr_common_def saved_gprs_def isr_enter_def isr_leave_def)

lemma ucast_selector [simp]: "(ucast (ucast (x :: u16) :: u64) :: u16) = x"
  by (rule bit_word_eqI) (simp add: bit_simps)

lemma set_low16_0: "set_low16 0 v = ucast v"
  by (simp add: set_low16_def)

lemma run_isr_save:
  fixes s :: "'a irq_state_scheme"
  assumes "\<not> cpu_halted s"
  shows "\<exists>c'. run_code env (map Push saved_gprs @ isr_enter @ is) (c, s) =
      run_code env is (c', s\<lparr>mem := push_words (map (gprs c) saved_gprs @ [ucast (sregs c DS)]) (gprs c RSP) (mem s)\<rparr>) \<and>
    gprs c' RSP = gprs c RSP - 128 \<and> gprs c' RDI = gprs c RSP - 128 \<and>
    (\<forall>q. q \<notin> {DS, ES, FS, GS} \<longrightarrow> sregs c' q = sregs c q)"
proof -
  let ?vs = "map (gprs c) saved_gprs" and ?a = "gprs c RSP" and ?v = "set_low16 (ucast (sregs c DS)) 0x10"
  let ?w = "ucast ?v :: u16"
  have l: "length saved_gprs = 15" "RSP \<notin> set saved_gprs" by (simp_all add: saved_gprs_def)
  have m: "push_words (?vs @ [v]) ?a (mem s) = store64 v (?a - 128) (push_words ?vs ?a (mem s))" for v
    by (simp add: push_words_append l algebra_simps)
  show ?thesis
    unfolding run_pushes [OF l(2) assms] fold_push_word m
    using assms by (intro exI [of _ "c\<lparr>rflags := alu_flags env 0 (rflags c), sregs := (sregs c)(DS := ?w, ES := ?w, FS := ?w, GS := ?w),
      gprs := (gprs c)(RSP := ?a - 128, RAX := ?v, RDI := ?a - 128)\<rparr>"])
      (simp add: isr_enter_def push_word_def Let_def set_low16_0 l)
qed

lemma run_isr_leave:
  fixes s :: "'a irq_state_scheme"
  assumes "\<not> cpu_halted s" "stack_at (gprs c RSP) (ucast ds # rev (map g saved_gprs) @ [v, err, ip, ucast cs, fl, sp, ucast ss]) (mem s)"
  shows "run_code env isr_leave (c, s) =
    Some (\<lparr>gprs = (\<lambda>r. if r = RSP then sp else g r), sregs = (\<lambda>_. ds)(CS := cs, SS := ss), rip = ip, rflags = fl\<rparr>, s)"
proof -
  let ?c = "c\<lparr>gprs := (gprs c)(RSP := gprs c RSP + 8, RAX := ucast ds), sregs := (sregs c)(DS := ds, ES := ds, FS := ds, GS := ds)\<rparr>"
  have 1: "run_code env isr_leave (c, s) = run_code env (map Pop (rev saved_gprs) @ [Add_imm RSP 16, Iretq]) (?c, s)"
    using assms by (simp add: isr_leave_def pop_word_def Let_def)
  have st: "stack_at (gprs c RSP + 8) (rev (map g saved_gprs)) (mem s)"
    "stack_at (gprs c RSP + 8 + 120) [v, err, ip, ucast cs, fl, sp, ucast ss] (mem s)"
    using assms(2) by (simp_all add: stack_at_append saved_gprs_def)
  have 2: "run_code env (map Pop (rev saved_gprs) @ [Add_imm RSP 16, Iretq]) (?c, s) = run_code env [Add_imm RSP 16, Iretq]
    (?c\<lparr>gprs := (\<lambda>r. if r = RSP then gprs ?c RSP + 8 * of_nat (length (rev saved_gprs))
        else case map_of (zip (rev saved_gprs) (rev (map g saved_gprs))) r of Some w \<Rightarrow> w | None \<Rightarrow> gprs ?c r)\<rparr>, s)"
    using assms(1) st(1) by (intro run_pops) (simp_all add: saved_gprs_def)
  have 3: "(case map_of (zip (rev saved_gprs) (rev (map g saved_gprs))) r of Some w \<Rightarrow> w | None \<Rightarrow> gprs ?c r) = g r" if "r \<noteq> RSP" for r
    using that by (cases r) (simp_all add: saved_gprs_def)
  have 4: "q \<notin> {CS, SS} \<Longrightarrow> sregs ?c q = ds" for q by (cases q) simp_all
  show ?thesis unfolding 1 2 using assms(1) st(2) 3 4
    by (auto simp: Let_def fun_eq_iff saved_gprs_def algebra_simps)
qed



lemma read_Registers_stack:
  "stack_at a [ds, r15, r14, r13, r12, r11, r10, r9, r8, rbp, rdi, rsi, rdx, rcx, rbx, rax, v, err, ip, cs, fl, sp, ss] m \<Longrightarrow>
   read_Registers a m = \<lparr>reg_ds = ds, reg_r15 = r15, reg_r14 = r14, reg_r13 = r13, reg_r12 = r12, reg_r11 = r11,
     reg_r10 = r10, reg_r9 = r9, reg_r8 = r8, reg_rbp = rbp, reg_rdi = rdi, reg_rsi = rsi, reg_rdx = rdx, reg_rcx = rcx,
     reg_rbx = rbx, reg_rax = rax, reg_vectors = v, reg_errorcode = err, reg_rip = ip, Registers.reg_cs = cs,
     reg_rflags = fl, reg_rsp = sp, reg_ss = ss\<rparr>"
  by (simp add: read_Registers_def Let_def algebra_simps)

text \<open>The frame for a processor interrupted in the state \<open>c\<close>.\<close>

definition frame_of :: "u64 \<Rightarrow> u64 \<Rightarrow> cpu \<Rightarrow> Registers" where
  "frame_of v err c = \<lparr>reg_ds = ucast (sregs c DS), reg_r15 = gprs c R15, reg_r14 = gprs c R14, reg_r13 = gprs c R13,
     reg_r12 = gprs c R12, reg_r11 = gprs c R11, reg_r10 = gprs c R10, reg_r9 = gprs c R9, reg_r8 = gprs c R8,
     reg_rbp = gprs c RBP, reg_rdi = gprs c RDI, reg_rsi = gprs c RSI, reg_rdx = gprs c RDX, reg_rcx = gprs c RCX,
     reg_rbx = gprs c RBX, reg_rax = gprs c RAX, reg_vectors = v, reg_errorcode = err, reg_rip = rip c,
     Registers.reg_cs = ucast (sregs c CS), reg_rflags = rflags c, reg_rsp = gprs c RSP, reg_ss = ucast (sregs c SS)\<rparr>"

definition hardware_frame :: "cpu \<Rightarrow> u64 list" where
  "hardware_frame c = [rip c, ucast (sregs c CS), rflags c, gprs c RSP, ucast (sregs c SS)]"

definition returned :: "cpu \<Rightarrow> cpu" where
  "returned c = c\<lparr>sregs := (\<lambda>_. sregs c DS)(CS := sregs c CS, SS := sregs c SS)\<rparr>"

text \<open>
  \<open>isr_common\<close> up to the return of the call, on a stack with any seven words: the handler gets the
  registers and those words as its frame, and the frame is still there afterwards.
\<close>

lemma isr_common_call:
  fixes s :: "'a irq_state_scheme"
  assumes abi: "sysv_callee d env" "d + 192 \<le> 2 ^ 64"
    and s: "g_virt_apic s \<noteq> NULL" "\<not> cpu_halted s"
    and st: "stack_at (gprs c RSP) ws (mem s)" "length ws = 7"
  shows "\<exists>c' m' r. run_code env isr_common (c, s) = run_code env isr_leave (c', (handled r s)\<lparr>mem := m'\<rparr>) \<and>
    unchanged_outside (region (gprs c RSP - of_nat (d + 136)) (d + 136)) (mem s) m' \<and>
    stack_at (gprs c RSP - 128) (ucast (sregs c DS) # rev (map (gprs c) saved_gprs) @ ws) m' \<and>
    read_Registers (gprs c RSP - 128) m' = r \<and>
    (if is_exception r then gprs c' RDI = gprs c RSP - 128 else gprs c' RSP = gprs c RSP - 128)"
proof -
  let ?a = "gprs c RSP" and ?ds = "ucast (sregs c DS) :: u64"
  let ?vs = "map (gprs c) saved_gprs @ [?ds]"
  let ?m = "push_words ?vs ?a (mem s)"
  define r where "r = read_Registers (?a - 128) ?m"
  have len: "length saved_gprs = 15" by (simp add: saved_gprs_def)
  obtain c1 where c1: "run_code env isr_common (c, s) = run_code env (Call_handler # isr_leave) (c1, s\<lparr>mem := ?m\<rparr>)"
      "gprs c1 RSP = ?a - 128" "gprs c1 RDI = ?a - 128"
    using run_isr_save [OF s(2), of env "Call_handler # isr_leave" c] unfolding isr_common_split by blast
  have sm: "stack_at (?a - 128) (?ds # rev (map (gprs c) saved_gprs) @ ws) ?m"
    using push_words_stack [OF st(1), of ?vs] st(2) len by simp
  have um: "unchanged_outside (region (?a - 128) 128) (mem s) ?m"
    using push_words_unchanged [of ?a 0 "mem s" "mem s" ?vs] len by (simp add: unchanged_outside_def)
  obtain c2 m2 where c2: "call_handler env (c1, s\<lparr>mem := ?m\<rparr>) = Some (c2, (handled r s)\<lparr>mem := m2\<rparr>)"
      "unchanged_outside (region (?a - 128 - of_nat (d + 8)) (d + 8)) ?m m2"
      "if is_exception r then gprs c2 RDI = ?a - 128 else gprs c2 RSP = ?a - 128"
    using call_handler_correct [OF abi, of "s\<lparr>mem := ?m\<rparr>" c1] s c1 by (auto simp: r_def [symmetric] simp del: of_nat_add split: if_splits)
  have "region (?a - 128 - of_nat (d + 8)) (d + 8) \<inter> region (?a - 128) 184 = {}"
    using abi(2) by (intro region_below_disjoint) simp
  then have keep: "m2 x = ?m x" if "x \<in> region (?a - 128) 184" for x
    using that by (intro unchanged_outsideD [OF c2(2)]) blast
  have "region (?a - 128) 128 \<subseteq> region (?a - of_nat (d + 136)) (d + 136)"
    using region_below [of 128 "d + 136" ?a] abi(2) by simp
  moreover have "region (?a - 128 - of_nat (d + 8)) (d + 8) \<subseteq> region (?a - of_nat (d + 136)) (d + 136)"
    using region_mono [of "d + 8" "d + 136" "?a - of_nat (d + 136)"] by (simp add: algebra_simps)
  ultimately have out: "unchanged_outside (region (?a - of_nat (d + 136)) (d + 136)) (mem s) m2"
    by (rule unchanged_outside_trans [OF um c2(2)])
  have stk: "stack_at (?a - 128) (?ds # rev (map (gprs c) saved_gprs) @ ws) m2"
    by (rule iffD2 [OF stack_at_cong sm]) (use keep len st(2) in auto)
  have rr: "read_Registers (?a - 128) m2 = r" unfolding r_def by (rule read_Registers_cong [OF keep])
  have "run_code env isr_common (c, s) = run_code env isr_leave (c2, (handled r s)\<lparr>mem := m2\<rparr>)"
    using c1(1) c2(1) s(2) by simp
  then show ?thesis using out stk rr c2(3)
    by (intro exI [of _ c2] exI [of _ m2] exI [of _ r] conjI)
qed

text \<open>
  The whole of it, when the words are the vector, the error code and the hardware frame of the
  interrupted state \<open>c0\<close>, and the other registers are those of \<open>c0\<close>.
\<close>

lemma isr_common_correct:
  fixes s :: "'a irq_state_scheme"
  assumes abi: "sysv_callee d env" "d + 192 \<le> 2 ^ 64"
    and s: "g_virt_apic s \<noteq> NULL" "\<not> cpu_halted s"
    and c: "\<And>r. r \<noteq> RSP \<Longrightarrow> gprs c r = gprs c0 r" "sregs c DS = sregs c0 DS"
    and st: "stack_at (gprs c RSP) (v # err # hardware_frame c0) (mem s)"
  defines "r \<equiv> frame_of v err c0"
  shows "\<exists>c' m'. run_code env isr_common (c, s) = Some (c', (handled r s)\<lparr>mem := m'\<rparr>) \<and>
    unchanged_outside (region (gprs c RSP - of_nat (d + 136)) (d + 136)) (mem s) m' \<and>
    (if is_exception r then gprs c' RDI = gprs c RSP - 128 \<and> read_Registers (gprs c' RDI) m' = r else c' = returned c0)"
proof -
  let ?a = "gprs c RSP" and ?ws = "v # err # hardware_frame c0"
  obtain c1 m1 q where c1: "run_code env isr_common (c, s) = run_code env isr_leave (c1, (handled q s)\<lparr>mem := m1\<rparr>)"
      "unchanged_outside (region (?a - of_nat (d + 136)) (d + 136)) (mem s) m1"
      "stack_at (?a - 128) (ucast (sregs c DS) # rev (map (gprs c) saved_gprs) @ ?ws) m1"
      "read_Registers (?a - 128) m1 = q"
      "if is_exception q then gprs c1 RDI = ?a - 128 else gprs c1 RSP = ?a - 128"
    using isr_common_call [OF abi s st] unfolding hardware_frame_def by auto
  have "map (gprs c) saved_gprs = map (gprs c0) saved_gprs" using c(1) by (simp add: saved_gprs_def)
  then have sm: "stack_at (?a - 128) (ucast (sregs c0 DS) # rev (map (gprs c0) saved_gprs) @ ?ws) m1"
    using c1(3) c(2) by (simp only:)
  have "read_Registers (?a - 128) m1 = r" unfolding r_def frame_of_def
    by (rule read_Registers_stack) (use sm in \<open>simp add: saved_gprs_def hardware_frame_def\<close>)
  then have q: "q = r" using c1(4) by simp
  let ?s1 = "(handled r s)\<lparr>mem := m1\<rparr>"
  show ?thesis
  proof (cases "is_exception r")
    case True
    then have "run_code env isr_common (c, s) = Some (c1, ?s1)" using c1(1) q by (simp add: isr_leave_def)
    then show ?thesis using c1 q True by (intro exI [of _ c1] exI [of _ m1]) (simp del: of_nat_add)
  next
    case False
    then have "run_code env isr_leave (c1, ?s1) = Some (returned c0, ?s1)"
      using run_isr_leave [of ?s1 c1 "sregs c0 DS" "gprs c0" v err "rip c0" "sregs c0 CS" "rflags c0" "gprs c0 RSP" "sregs c0 SS" env]
        s(2) c1(5) sm q by (auto simp: hardware_frame_def returned_def intro!: cpu.equality)
    then show ?thesis using c1(1,2) q False by (intro exI [of _ "returned c0"] exI [of _ m1]) (simp del: of_nat_add)
  qed
qed

end
