(* ===== verification/Segment_Reload.thy ===== *)
theory Segment_Reload
  imports Interrupt_Stubs
begin

text \<open>
  The assembly routines of \<open>src/kernel/src/memory/asm/gdt.asm\<close> as lists of instructions, and that they do to the
  segment registers what \<open>Descriptor_Tables\<close> takes them to do.
\<close>

section \<open>Instructions\<close>

text \<open>
  Besides the instructions of the interrupt stubs: \<open>lea\<close> of a label, whose address the linker decides,
  the far return, which loads \<open>rip\<close> and \<open>cs\<close>, the near return and \<open>ltr\<close>.  After a far return the code goes
  on at the label given, which has to be where the return leads.
\<close>

datatype seg_instr = Seg_push_imm u64 | Seg_push gpr | Lea gpr u64 | Retfq u64 | Seg_mov16_imm gpr u16 | Seg_mov_to sreg gpr | Ltr gpr | Ret

record seg_cpu = cpu +
  tr :: u16

definition set_gpr :: "gpr \<Rightarrow> u64 \<Rightarrow> seg_cpu \<Rightarrow> seg_cpu" where
  "set_gpr r v c = c\<lparr>gprs := (gprs c)(r := v)\<rparr>"

definition seg_push :: "u64 \<Rightarrow> seg_cpu \<times> memory \<Rightarrow> seg_cpu \<times> memory" where
  "seg_push v = (\<lambda>(c, m). (set_gpr RSP (gprs c RSP - 8) c, store64 v (gprs c RSP - 8) m))"

fun exec_seg :: "seg_instr \<Rightarrow> seg_cpu \<times> memory \<Rightarrow> (seg_cpu \<times> memory) option" where
  "exec_seg (Seg_push_imm v) cm = Some (seg_push v cm)"
| "exec_seg (Seg_push r) cm = Some (seg_push (gprs (fst cm) r) cm)"
| "exec_seg (Lea r a) (c, m) = Some (set_gpr r a c, m)"
| "exec_seg (Retfq label) (c, m) = (let ip = load64 (gprs c RSP) m; cs = load64 (gprs c RSP + 8) m in
     if ip = label then Some ((set_gpr RSP (gprs c RSP + 16) c)\<lparr>rip := ip, sregs := (sregs c)(CS := ucast cs)\<rparr>, m) else None)"
| "exec_seg (Seg_mov16_imm r v) (c, m) = Some (set_gpr r (set_low16 (gprs c r) v) c, m)"
| "exec_seg (Seg_mov_to q r) (c, m) = Some (c\<lparr>sregs := (sregs c)(q := ucast (gprs c r))\<rparr>, m)"
| "exec_seg (Ltr r) (c, m) = Some (c\<lparr>tr := ucast (gprs c r)\<rparr>, m)"
| "exec_seg Ret (c, m) = Some ((set_gpr RSP (gprs c RSP + 8) c)\<lparr>rip := load64 (gprs c RSP) m\<rparr>, m)"

fun run_seg :: "seg_instr list \<Rightarrow> seg_cpu \<times> memory \<Rightarrow> (seg_cpu \<times> memory) option" where
  "run_seg [] cm = Some cm"
| "run_seg (i # is) cm = do { cm \<leftarrow> exec_seg i cm; run_seg is cm }"

definition reloadSegments_code :: "u64 \<Rightarrow> seg_instr list" where
  "reloadSegments_code reload_CS =
     [Seg_push_imm 0x08, Lea RAX reload_CS, Seg_push RAX, Retfq reload_CS,
      Seg_mov16_imm RAX 0x10, Seg_mov_to DS RAX, Seg_mov_to ES RAX, Seg_mov_to FS RAX, Seg_mov_to GS RAX, Seg_mov_to SS RAX, Ret]"

definition flush_tss_code :: "seg_instr list" where
  "flush_tss_code = [Seg_mov16_imm RAX 0x28, Ltr RAX, Ret]"

section \<open>Refinement of the register updates\<close>

text \<open>The registers of the processor and their abstraction in \<open>cpu_tables\<close>.\<close>

definition seg_abs :: "seg_cpu \<Rightarrow> 'a cpu_tables_scheme \<Rightarrow> bool" where
  "seg_abs c t \<longleftrightarrow> sregs c CS = cpu_tables.reg_cs t \<and> (\<forall>q\<in>{DS, ES, FS, GS, SS}. sregs c q = reg_data t) \<and> tr c = reg_tr t"

lemma set_low16_low: "(ucast (set_low16 x v) :: u16) = v"
proof -
  have m: "(0xFFFF :: u64) = mask 16" by (simp add: mask_eq_exp_minus_1)
  show ?thesis unfolding set_low16_def m
    by (rule bit_word_eqI) (simp add: bit_ucast_iff bit_or_iff bit_and_iff bit_not_iff bit_mask_iff)
qed

lemma set_gpr_simps [simp]:
  "gprs (set_gpr r v c) = (gprs c)(r := v)" "sregs (set_gpr r v c) = sregs c" "rip (set_gpr r v c) = rip c" "tr (set_gpr r v c) = tr c"
  by (simp_all add: set_gpr_def)

text \<open>
  \<open>reloadSegments\<close> and \<open>flush_tss\<close>, called with the return address on the stack, return there with the
  stack pointer behind it, the segment registers as in \<open>Descriptor_Tables\<close>, every general register but
  \<open>rax\<close> unchanged, and no byte of memory changed but the 16 below the stack pointer.
\<close>

lemma reloadSegments_refines:
  fixes t :: "'a cpu_tables_scheme"
  shows "\<exists>c' m'. run_seg (reloadSegments_code a) (c, m) = Some (c', m') \<and>
    (tr c = reg_tr t \<longrightarrow> seg_abs c' (reloadSegments t)) \<and> rip c' = load64 (gprs c RSP) m \<and>
    gprs c' RSP = gprs c RSP + 8 \<and> (\<forall>r. r \<notin> {RAX, RSP} \<longrightarrow> gprs c' r = gprs c r) \<and>
    (\<forall>x. x \<notin> region (gprs c RSP - 16) 16 \<longrightarrow> m' x = m x)"
proof -
  let ?p = "gprs c RSP"
  let ?m = "push_words [0x08, a] ?p m"
  have st: "stack_at (?p - 16) [a, 0x08, load64 ?p m] ?m"
    using push_words_stack [of ?p "[load64 ?p m]" m "[0x08, a]"] by simp
  have un: "unchanged_outside (region (?p - 16) 16) m ?m"
    using push_words_unchanged [of ?p 0 m m "[0x08, a]"] by (simp add: unchanged_outside_def)
  have l: "load64 (?p - 16) ?m = a" "load64 (?p - 8) ?m = 0x08" "load64 ?p ?m = load64 ?p m" using st by simp_all
  have m2: "store64 a (?p - 16) (store64 0x08 (?p - 8) m) = ?m" by simp
  show ?thesis
    unfolding reloadSegments_code_def
    using l un by (simp add: seg_push_def m2 Let_def set_low16_low seg_abs_def reloadSegments_def unchanged_outside_def del: push_words.simps)
qed

lemma flush_tss_refines:
  fixes t :: "'a cpu_tables_scheme"
  shows "\<exists>c'. run_seg flush_tss_code (c, m) = Some (c', m) \<and> (seg_abs c t \<longrightarrow> seg_abs c' (flush_tss t)) \<and>
    rip c' = load64 (gprs c RSP) m \<and> gprs c' RSP = gprs c RSP + 8 \<and> (\<forall>r. r \<notin> {RAX, RSP} \<longrightarrow> gprs c' r = gprs c r)"
  by (simp add: flush_tss_code_def set_low16_low seg_abs_def flush_tss_def)

end
