(* ===== verification/Interrupt_Entry.thy ===== *)
theory Interrupt_Entry
  imports Interrupt_Stubs
begin

text \<open>
  Interrupts from delivery to return: a gate of \<open>idt_init\<close>, the stub, \<open>interrupt_handler\<close> and \<open>iretq\<close>.
  A device interrupt is transparent for the code it interrupts, an exception is reported with
  the registers of the faulting code.
\<close>

section \<open>From the gate to the return\<close>

lemma stack_align:
  "\<exists>k < 16. (x :: u64) AND NOT 0xF = x - of_nat k"
proof -
  have "(x AND NOT 0xF) + (x AND 0xF) = (x AND NOT 0xF) OR (x AND 0xF)"
    by (rule disjunctive_add_eq_or) (rule bit_word_eqI, simp only: bit_and_iff bit_not_iff, simp)
  also have "\<dots> = x" by (rule bit_word_eqI) (simp only: bit_or_iff bit_and_iff bit_not_iff, auto)
  finally have "x AND NOT 0xF = x - (x AND 0xF)" by (metis add_diff_cancel_right')
  moreover have "x AND 0xF = of_nat (unat (x AND 0xF))" by simp
  moreover have "x AND 0xF \<le> 0xF" by (rule word_and_le1)
  then have "unat (x AND 0xF) < 16" by (simp add: word_le_nat_alt)
  ultimately show ?thesis by metis
qed

lemma region_aligned_below:
  assumes "n + 16 \<le> 2 ^ 64"
  shows "region ((x AND NOT 0xF) - of_nat n) n \<subseteq> region (x - of_nat (n + 16)) (n + 16)"
proof -
  obtain k where k: "k < 16" "x AND NOT 0xF = x - of_nat k" using stack_align by blast
  have u: "unat (of_nat (16 - k) :: u64) = 16 - k" by (rule unat_of_nat64) simp
  have "region ((x - of_nat (n + 16)) + of_nat (16 - k)) n \<subseteq> region (x - of_nat (n + 16)) (n + 16)"
    by (rule region_offset) (use u k assms in simp_all)
  moreover have "(x - of_nat (n + 16)) + of_nat (16 - k) = (x AND NOT 0xF) - of_nat n"
    unfolding k(2) using k(1) by (simp add: of_nat_diff)
  ultimately show ?thesis by (simp only:)
qed

lemma enter_gate_correct:
  fixes s :: "'a machine_scheme" and c :: cpu and err :: u64
  assumes "interrupt_gate isr (idt t i)"
  defines "ws \<equiv> rev (hardware_frame c) @ (if pushes_error_code i then [err] else [])" and "a \<equiv> gprs c RSP AND NOT 0xF"
  shows "enter_gate t i err (c, s) = Some (c\<lparr>gprs := (gprs c)(RSP := a - 8 * of_nat (length ws)), sregs := (sregs c)(CS := 0x08),
    rip := isr, rflags := rflags c AND NOT 0x14300\<rparr>, s\<lparr>mem := push_words ws a (mem s)\<rparr>)"
proof -
  have g: "gate_offset (idt t i) = isr" "kernel_cs (idt t i) = 0x08" "ist (idt t i) = 0" "attributes (idt t i) = 0x8E"
    using assms(1) by (simp_all add: interrupt_gate_def GDT0_CODE_SEGMENT_def)
  have w: "[ucast (sregs c SS), gprs c RSP, rflags c, ucast (sregs c CS), rip c] @ (if pushes_error_code i then [err] else []) = ws"
    by (simp add: ws_def hardware_frame_def)
  show ?thesis unfolding enter_gate_def Let_def w prod.case g if_True
    by (simp add: fold_push_word a_def bit_numeral_rec)
qed

text \<open>The stubs that go to \<open>isr_common\<close>: which words lie below the hardware frame.\<close>

definition stub_words :: "nat \<Rightarrow> u64 \<Rightarrow> u64 list" where
  "stub_words i err = (if pushes_error_code i then [err] else []) @
     (if i \<in> {8, 10, 11, 12, 13, 14, 17, 30} then [] else [0]) @ [of_nat i]"

lemma take_interrupt_common:
  fixes s :: "'a irq_state_scheme" and c :: cpu and err :: u64
  assumes "interrupt_gate (stubs i) (idt t i)" "i < 48" "\<not> cpu_halted s"
  defines "ws \<equiv> rev (hardware_frame c) @ stub_words i err" and "a \<equiv> gprs c RSP AND NOT 0xF"
  shows "\<exists>c'. take_interrupt env stubs t i err (c, s) = run_code env isr_common (c', s\<lparr>mem := push_words ws a (mem s)\<rparr>) \<and>
    gprs c' = (gprs c)(RSP := a - 8 * of_nat (length ws)) \<and> sregs c' = (sregs c)(CS := 0x08)"
proof -
  let ?us = "rev (hardware_frame c) @ (if pushes_error_code i then [err] else [])"
  let ?vs = "(if i \<in> {8, 10, 11, 12, 13, 14, 17, 30} then [] else [0]) @ [of_nat i] :: u64 list"
  let ?c = "c\<lparr>gprs := (gprs c)(RSP := a - 8 * of_nat (length ?us)), sregs := (sregs c)(CS := 0x08),
    rip := stubs i, rflags := rflags c AND NOT 0x14300\<rparr>"
  let ?s = "s\<lparr>mem := push_words ?us a (mem s)\<rparr>"
  have ws: "ws = ?us @ ?vs" by (simp add: ws_def stub_words_def)
  have "enter_gate t i err (c, s) = Some (?c, ?s)" unfolding a_def by (rule enter_gate_correct [OF assms(1)])
  then have "take_interrupt env stubs t i err (c, s) = run_code env (isr_stub i) (?c, ?s)" by (simp add: take_interrupt_def)
  also have "\<dots> = run_code env isr_common (fold push_word ?vs (?c, ?s))"
    using assms(2,3) by (auto simp: isr_stub_def isr_err_stub_def isr_no_err_stub_def push_word_def Let_def)
  also have "fold push_word ?vs (?c, ?s) = (?c\<lparr>gprs := (gprs c)(RSP := a - 8 * of_nat (length ws))\<rparr>, s\<lparr>mem := push_words ws a (mem s)\<rparr>)"
    by (simp only: fold_push_word ws push_words_append) (simp add: algebra_simps)
  finally show ?thesis by (intro exI conjI) (assumption, simp_all)
qed

lemma take_interrupt_stack:
  fixes s :: "'a irq_state_scheme"
  assumes "interrupt_gate (stubs i) (idt t i)" "i < 48" "\<not> cpu_halted s"
    and "d + 208 \<le> 2 ^ 64" "length ws = 7" "rev (hardware_frame c) @ stub_words i err = rev ws"
  shows "\<exists>c' m. take_interrupt env stubs t i err (c, s) = run_code env isr_common (c', s\<lparr>mem := m\<rparr>) \<and>
    (\<forall>r. r \<noteq> RSP \<longrightarrow> gprs c' r = gprs c r) \<and> gprs c' RSP = (gprs c RSP AND NOT 0xF) - 56 \<and> sregs c' DS = sregs c DS \<and>
    stack_at (gprs c' RSP) ws m \<and>
    (\<forall>m'. unchanged_outside (region (gprs c' RSP - of_nat (d + 136)) (d + 136)) m m' \<longrightarrow>
      unchanged_outside (region (gprs c RSP - of_nat (d + 208)) (d + 208)) (mem s) m')"
proof -
  let ?a = "gprs c RSP AND NOT 0xF"
  let ?m = "push_words (rev ws) ?a (mem s)"
  obtain c' where c': "take_interrupt env stubs t i err (c, s) = run_code env isr_common (c', s\<lparr>mem := ?m\<rparr>)"
      "gprs c' = (gprs c)(RSP := ?a - 56)" "sregs c' = (sregs c)(CS := 0x08)"
    using take_interrupt_common [of stubs, OF assms(1-3), of env err c] assms(5) unfolding assms(6) by auto
  have st: "stack_at (?a - 56) ws ?m" using push_words_stack [of ?a "[]" "mem s" "rev ws"] assms(5) by simp
  have um: "unchanged_outside (region (?a - 56) 56) (mem s) ?m"
    using push_words_unchanged [of ?a 0 "mem s" "mem s" "rev ws"] assms(5) by (simp add: unchanged_outside_def)
  have big: "region (?a - of_nat (d + 192)) (d + 192) \<subseteq> region (gprs c RSP - of_nat (d + 208)) (d + 208)"
    using region_aligned_below [of "d + 192" "gprs c RSP"] assms(4) by (simp add: algebra_simps)
  have "region (?a - 56) 56 \<subseteq> region (?a - of_nat (d + 192)) (d + 192)"
    using region_below [of 56 "d + 192" ?a] assms(4) by simp
  moreover have "region (?a - 56 - of_nat (d + 136)) (d + 136) \<subseteq> region (?a - of_nat (d + 192)) (d + 192)"
    using region_mono [of "d + 136" "d + 192" "?a - of_nat (d + 192)"] by (simp add: algebra_simps)
  ultimately have "unchanged_outside (region (gprs c RSP - of_nat (d + 208)) (d + 208)) (mem s) m'"
    if "unchanged_outside (region (gprs c' RSP - of_nat (d + 136)) (d + 136)) ?m m'" for m'
    using unchanged_outside_trans [OF um, of "region (?a - 56 - of_nat (d + 136)) (d + 136)" m'] that big
    by (simp add: c'(2) del: of_nat_add)
  then show ?thesis using c' st by (intro exI [of _ c'] exI [of _ ?m]) simp
qed


text \<open>
  Every vector of \<open>isr_common\<close> whose stub pushes a zero exactly when the processor pushes no error
  code: all but 21 and 29.
\<close>

lemma take_interrupt_correct:
  fixes s :: "'a irq_state_scheme" and c :: cpu and err :: u64
  assumes abi: "sysv_callee d env" "d + 208 \<le> 2 ^ 64"
    and s: "g_virt_apic s \<noteq> NULL" "\<not> cpu_halted s"
    and i: "interrupt_gate (stubs i) (idt t i)" "i < 48" "i \<noteq> 21" "i \<noteq> 29"
  defines "r \<equiv> frame_of (of_nat i) (if pushes_error_code i then err else 0) c"
  shows "\<exists>c' m'. take_interrupt env stubs t i err (c, s) = Some (c', (handled r s)\<lparr>mem := m'\<rparr>) \<and>
    unchanged_outside (region (gprs c RSP - of_nat (d + 208)) (d + 208)) (mem s) m' \<and>
    (if i < 32 then gprs c' RDI = (gprs c RSP AND NOT 0xF) - 184 \<and> read_Registers (gprs c' RDI) m' = r else c' = returned c)"
proof -
  let ?err = "if pushes_error_code i then err else 0"
  have w: "rev (hardware_frame c) @ stub_words i err = rev (of_nat i # ?err # hardware_frame c)"
    using i(3,4) by (auto simp: stub_words_def pushes_error_code_def)
  have e: "is_exception r \<longleftrightarrow> i < 32"
    using i(2) by (simp add: r_def frame_of_def is_exception_def word_less_nat_alt unat_of_nat64)
  obtain c1 m1 where c1: "take_interrupt env stubs t i err (c, s) = run_code env isr_common (c1, s\<lparr>mem := m1\<rparr>)"
      "\<forall>r. r \<noteq> RSP \<longrightarrow> gprs c1 r = gprs c r" "gprs c1 RSP = (gprs c RSP AND NOT 0xF) - 56" "sregs c1 DS = sregs c DS"
      "stack_at (gprs c1 RSP) (of_nat i # ?err # hardware_frame c) m1"
      "\<And>m'. unchanged_outside (region (gprs c1 RSP - of_nat (d + 136)) (d + 136)) m1 m' \<Longrightarrow>
        unchanged_outside (region (gprs c RSP - of_nat (d + 208)) (d + 208)) (mem s) m'"
    using take_interrupt_stack [of stubs, OF i(1,2) s(2) abi(2) _ w, of env] by (auto simp: hardware_frame_def simp del: of_nat_add)
  have p: "d + 192 \<le> 2 ^ 64" "g_virt_apic (s\<lparr>mem := m1\<rparr>) \<noteq> NULL" "\<not> cpu_halted (s\<lparr>mem := m1\<rparr>)"
      "stack_at (gprs c1 RSP) (of_nat i # ?err # hardware_frame c) (mem (s\<lparr>mem := m1\<rparr>))"
    using abi(2) s c1(5) by simp_all
  obtain c' m' where c': "run_code env isr_common (c1, s\<lparr>mem := m1\<rparr>) = Some (c', (handled r s)\<lparr>mem := m'\<rparr>)"
      "unchanged_outside (region (gprs c1 RSP - of_nat (d + 136)) (d + 136)) m1 m'"
      "if is_exception r then gprs c' RDI = gprs c1 RSP - 128 \<and> read_Registers (gprs c' RDI) m' = r else c' = returned c"
    using isr_common_correct [OF abi(1) p(1-3) c1(2) [rule_format] c1(4) p(4)]
    unfolding r_def [symmetric] by (auto simp del: of_nat_add split del: if_split)
  show ?thesis using c1(1,3) c1(6) [OF c'(2)] c'(1,3) e
    by (intro exI [of _ c'] exI [of _ m']) (cases "i < 32"; simp del: of_nat_add; metis)
qed


lemma interrupt_handler_handled: "g_virt_apic s \<noteq> NULL \<Longrightarrow> interrupt_handler r s = Some (handled r s)"
  by (simp add: interrupt_handler_eq handled_def)

lemma idt_init_gate:
  assumes "i < 49 \<or> i = 255"
  shows "interrupt_gate (stubs i) (idt (idt_init addr stubs t) i)"
proof -
  let ?s0 = "t\<lparr>idtr := (idtr t)\<lparr>idtr_base := addr, idtr_limit := 4095\<rparr>\<rparr>"
  let ?s1 = "idt_init_loop 0 stubs ?s0"
  have "i < 49 \<Longrightarrow> interrupt_gate (stubs i) (idt ?s1 i)" using idt_init_loop_installs [of 0 stubs ?s0] by simp
  then show ?thesis using assms set_descriptor_gate [where v = 255 and s = ?s1 and isr = "stubs 255"]
    by (cases "i = 255") (auto simp: idt_init_def Let_def idt_set_descriptor_def)
qed

text \<open>
  Of the six segment registers \<open>isr_common\<close> saves \<open>ds\<close> only and loads \<open>es\<close>, \<open>fs\<close> and \<open>gs\<close> from it, under a
  comment that announces the old segments: whoever runs with another selector there loses it.
\<close>

lemma returned_segments: "sregs (returned c) q = (if q \<in> {ES, FS, GS} then sregs c DS else sregs c q)"
  by (cases q) (simp_all add: returned_def)

lemma returned_eq_iff: "returned c = c \<longleftrightarrow> (\<forall>q \<in> {ES, FS, GS}. sregs c q = sregs c DS)"
proof
  assume "returned c = c"
  then show "\<forall>q \<in> {ES, FS, GS}. sregs c q = sregs c DS" using returned_segments [of c] by (metis (full_types))
next
  assume "\<forall>q \<in> {ES, FS, GS}. sregs c q = sregs c DS"
  then have "sregs (returned c) = sregs c" by (intro ext) (auto simp: returned_segments)
  then show "returned c = c" by (intro cpu.equality) (simp_all add: returned_def)
qed

text \<open>
  C4. A device interrupt (vectors 32 to 47) of the running kernel is transparent but for three
  segment registers.  For any compiled \<open>interrupt_handler\<close> that keeps the calling convention and needs
  at most \<open>d\<close> bytes of stack, delivery through a gate of \<open>idt_init\<close>, the stub, the handler and \<open>iretq\<close>
  bring the processor back to where it was: every general register, the stack pointer, the
  instruction pointer, the flags, \<open>cs\<close>, \<open>ss\<close> and \<open>ds\<close> are as before, while \<open>es\<close>, \<open>fs\<close> and \<open>gs\<close> get the
  selector of \<open>ds\<close>; so the processor is exactly as before if and only if the three held that
  selector already, as they do in the kernel after \<open>initGdt\<close>.  The handler has run once, on the frame
  with the vector, the error code 0 and the interrupted registers; and of memory only the
  \<open>d + 208\<close> bytes below the interrupted stack pointer have changed.
\<close>

theorem interrupt_transparent:
  fixes s :: "'a irq_state_scheme"
  assumes "sysv_callee d env" "d + 208 \<le> 2 ^ 64" "g_virt_apic s \<noteq> NULL" "\<not> cpu_halted s" "32 \<le> i" "i < 48"
  shows "\<exists>c' s' m'. take_interrupt env stubs (idt_init addr stubs t) i err (c, s) = Some (c', s'\<lparr>mem := m'\<rparr>) \<and>
    gprs c' = gprs c \<and> rip c' = rip c \<and> rflags c' = rflags c \<and>
    (\<forall>q. sregs c' q = (if q \<in> {ES, FS, GS} then sregs c DS else sregs c q)) \<and>
    (c' = c \<longleftrightarrow> sregs c ES = sregs c DS \<and> sregs c FS = sregs c DS \<and> sregs c GS = sregs c DS) \<and>
    interrupt_handler (frame_of (of_nat i) 0 c) s = Some s' \<and>
    (\<forall>x. x \<notin> region (gprs c RSP - of_nat (d + 208)) (d + 208) \<longrightarrow> m' x = mem s x)"
proof -
  have i: "interrupt_gate (stubs i) (idt (idt_init addr stubs t) i)" "i \<noteq> 21" "i \<noteq> 29" "\<not> pushes_error_code i" "\<not> i < 32"
    using assms(5,6) idt_init_gate [of i] by (auto simp: pushes_error_code_def)
  obtain m' where m': "take_interrupt env stubs (idt_init addr stubs t) i err (c, s) =
        Some (returned c, (handled (frame_of (of_nat i) 0 c) s)\<lparr>mem := m'\<rparr>)"
      "unchanged_outside (region (gprs c RSP - of_nat (d + 208)) (d + 208)) (mem s) m'"
    using take_interrupt_correct [of d env s stubs, OF assms(1-4) i(1) assms(6) i(2,3), of err c] i(4,5)
    by (auto simp del: of_nat_add)
  have "gprs (returned c) = gprs c" "rip (returned c) = rip c" "rflags (returned c) = rflags c" by (simp_all add: returned_def)
  then show ?thesis
    by (intro exI [of _ "returned c"] exI [of _ "handled (frame_of (of_nat i) 0 c) s"] exI [of _ m'] conjI allI)
      (use m' assms(3) in \<open>simp_all add: returned_segments returned_eq_iff interrupt_handler_handled unchanged_outside_def del: of_nat_add\<close>)
qed

text \<open>
  C33. An exception on any of the vectors 0 to 31 but 21 and 29 (whose frames are one word off, lemma
  \<open>exception_21_29_shifted\<close>) stops the processor, with a complete report of the fault on the stack: the frame handed to \<open>interrupt_handler\<close> in \<open>rdi\<close> holds, member by member of
  \<open>Registers\<close>, the vector, the error code of the processor (0 when there is none) and all the
  registers of the faulting code; nothing else of the kernel's state changes and of memory only the
  \<open>d + 208\<close> bytes below the stack pointer.
\<close>

theorem exception_reported:
  fixes s :: "'a irq_state_scheme"
  assumes "sysv_callee d env" "d + 208 \<le> 2 ^ 64" "g_virt_apic s \<noteq> NULL" "\<not> cpu_halted s" "i < 32" "i \<noteq> 21" "i \<noteq> 29"
  shows "\<exists>c' m'. take_interrupt env stubs (idt_init addr stubs t) i err (c, s) = Some (c', s\<lparr>cpu_halted := True, mem := m'\<rparr>) \<and>
    read_Registers (gprs c' RDI) m' = frame_of (of_nat i) (if pushes_error_code i then err else 0) c \<and>
    (\<forall>x. x \<notin> region (gprs c RSP - of_nat (d + 208)) (d + 208) \<longrightarrow> m' x = mem s x)"
proof -
  let ?r = "frame_of (of_nat i) (if pushes_error_code i then err else 0) c"
  have i: "interrupt_gate (stubs i) (idt (idt_init addr stubs t) i)" "i < 48" using assms(5) idt_init_gate [of i] by auto
  have v: "reg_vectors ?r = of_nat i" "unat (of_nat i :: u64) = i" using assms(5) by (simp_all add: frame_of_def unat_of_nat64)
  have "is_exception ?r" "\<not> is_irq ?r" "reg_vectors ?r \<noteq> 0x20"
    using v assms(5) by (auto simp: is_exception_def is_irq_def word_less_nat_alt dest!: arg_cong [of _ _ unat])
  then have h: "(handled ?r s)\<lparr>mem := m\<rparr> = s\<lparr>cpu_halted := True, mem := m\<rparr>" for m by (simp add: handled_def)
  obtain c' m' where "take_interrupt env stubs (idt_init addr stubs t) i err (c, s) = Some (c', (handled ?r s)\<lparr>mem := m'\<rparr>)"
      "unchanged_outside (region (gprs c RSP - of_nat (d + 208)) (d + 208)) (mem s) m'" "read_Registers (gprs c' RDI) m' = ?r"
    using take_interrupt_correct [of d env s stubs, OF assms(1-4) i assms(6,7), of err c] assms(5)
    by (auto simp del: of_nat_add split del: if_split)
  then show ?thesis unfolding h by (intro exI [of _ c'] exI [of _ m'] conjI) (simp_all add: unchanged_outside_def del: of_nat_add)
qed

text \<open>
  The vectors 48 and 255 go to \<open>iretq\<close> at once: the processor goes on where it was, and no handler and
  no acknowledgement has run.
\<close>

lemma reserved_interrupt_returns:
  fixes s :: "'a irq_state_scheme"
  assumes "i = 48 \<or> i = 255" "\<not> cpu_halted s"
  shows "\<exists>m'. take_interrupt env stubs (idt_init addr stubs t) i err (c, s) = Some (c, s\<lparr>mem := m'\<rparr>)"
proof -
  have i: "interrupt_gate (stubs i) (idt (idt_init addr stubs t) i)" "\<not> pushes_error_code i" "isr_stub i = [Iretq]"
    using assms(1) idt_init_gate [of i] by (auto simp: pushes_error_code_def isr_stub_def isr_Reserved_stub_def)
  let ?ws = "hardware_frame c"
  define a m where "a = gprs c RSP AND NOT 0xF" and "m = push_words (rev ?ws) a (mem s)"
  let ?c = "c\<lparr>gprs := (gprs c)(RSP := a - 40), sregs := (sregs c)(CS := 0x08), rip := stubs i, rflags := rflags c AND NOT 0x14300\<rparr>"
  have e: "enter_gate (idt_init addr stubs t) i err (c, s) = Some (?c, s\<lparr>mem := m\<rparr>)"
    unfolding enter_gate_correct [OF i(1)] using i(2) by (simp add: a_def m_def) (simp add: hardware_frame_def)
  have "stack_at (a - 40) ?ws m" unfolding m_def
    using push_words_stack [of a "[]" "mem s" "rev ?ws"] by (simp add: hardware_frame_def)
  then have "run_code env [Iretq] (?c, s\<lparr>mem := m\<rparr>) = Some (c, s\<lparr>mem := m\<rparr>)"
    using assms(2) by (auto simp: Let_def hardware_frame_def algebra_simps intro!: cpu.equality)
  then show ?thesis unfolding take_interrupt_def e i(3) by (intro exI [of _ m]) simp
qed


text \<open>
  The processor also pushes an error code for 21 (control protection) and 29 (VMM communication),
  whose stubs push a 0 on top of it: the frame is one word off.  Its \<open>errorcode\<close> is 0 and its
  \<open>rip\<close> is the error code.
\<close>

lemma exception_21_29_shifted:
  fixes s :: "'a irq_state_scheme"
  assumes abi: "sysv_callee d env" "d + 216 \<le> 2 ^ 64"
    and s: "g_virt_apic s \<noteq> NULL" "\<not> cpu_halted s" and i: "i = 21 \<or> i = 29"
  shows "\<exists>c' s'. take_interrupt env stubs (idt_init addr stubs t) i err (c, s) = Some (c', s') \<and> cpu_halted s' \<and>
    reg_vectors (read_Registers (gprs c' RDI) (mem s')) = of_nat i \<and>
    reg_errorcode (read_Registers (gprs c' RDI) (mem s')) = 0 \<and>
    reg_rip (read_Registers (gprs c' RDI) (mem s')) = err \<and> Registers.reg_cs (read_Registers (gprs c' RDI) (mem s')) = rip c"
proof -
  let ?ws = "of_nat i # 0 # err # hardware_frame c"
  have g: "interrupt_gate (stubs i) (idt (idt_init addr stubs t) i)" "i < 48" using i idt_init_gate [of i] by auto
  have w: "rev (hardware_frame c) @ stub_words i err = rev ?ws"
    using i by (auto simp: stub_words_def pushes_error_code_def)
  let ?m = "push_words (rev ?ws) (gprs c RSP AND NOT 0xF) (mem s)"
  have l: "length ?ws = 8" by (simp add: hardware_frame_def)
  obtain c1 where c1: "take_interrupt env stubs (idt_init addr stubs t) i err (c, s) = run_code env isr_common (c1, s\<lparr>mem := ?m\<rparr>)"
      "gprs c1 RSP = (gprs c RSP AND NOT 0xF) - 64"
    using take_interrupt_common [of stubs, OF g s(2), of env err c] l unfolding w length_rev by auto
  have "stack_at (gprs c1 RSP) ?ws ?m"
    using push_words_stack [of "gprs c RSP AND NOT 0xF" "[]" "mem s" "rev ?ws"] l c1(2) by (simp del: rev.simps)
  then have st: "stack_at (gprs c1 RSP) (butlast ?ws) ?m"
    by (simp add: hardware_frame_def)
  have p: "d + 192 \<le> 2 ^ 64" "g_virt_apic (s\<lparr>mem := ?m\<rparr>) \<noteq> NULL" "\<not> cpu_halted (s\<lparr>mem := ?m\<rparr>)"
      "stack_at (gprs c1 RSP) (butlast ?ws) (mem (s\<lparr>mem := ?m\<rparr>))" "length (butlast ?ws) = 7"
    using abi(2) s st by (simp_all add: hardware_frame_def)
  obtain c2 m2 r where c2: "run_code env isr_common (c1, s\<lparr>mem := ?m\<rparr>) = run_code env isr_leave (c2, (handled r s)\<lparr>mem := m2\<rparr>)"
      "stack_at (gprs c1 RSP - 128) (ucast (sregs c1 DS) # rev (map (gprs c1) saved_gprs) @ butlast ?ws) m2"
      "read_Registers (gprs c1 RSP - 128) m2 = r"
      "if is_exception r then gprs c2 RDI = gprs c1 RSP - 128 else gprs c2 RSP = gprs c1 RSP - 128"
    using isr_common_call [OF abi(1) p] by (auto simp del: of_nat_add butlast.simps split del: if_split)
  have r: "reg_vectors r = of_nat i" "reg_errorcode r = 0" "reg_rip r = err" "Registers.reg_cs r = rip c"
    using c2(2) by (simp_all add: c2(3) [symmetric] read_Registers_def Let_def saved_gprs_def hardware_frame_def algebra_simps)
  have "is_exception r" using r(1) i by (auto simp: is_exception_def)
  then show ?thesis using c1(1) c2(1,3,4) r by (simp add: isr_leave_def)
qed

text \<open>There is a name for each exception, and those with an error code have one of their own.\<close>

lemma exceptions_named: "length g_Exceptions = 32" "\<forall>i<32. pushes_error_code i \<longrightarrow> g_Exceptions ! i \<noteq> ''Reserved''"
  by (auto simp: g_Exceptions_def pushes_error_code_def)

text \<open>
  At the call the stack pointer is 8 modulo 16, where the calling convention asks for 0; the kernel
  is compiled without SSE, whose aligned stores depend on it.
\<close>

lemma stack_mod_16: "((x :: u64) AND NOT 0xF) - 184 AND 0xF = 8"
proof -
  define p where "p = push_bit 4 (drop_bit 4 x - 12)"
  have p: "\<not> bit p 0" "\<not> bit p 1" "\<not> bit p 2" "\<not> bit p 3" by (simp_all only: p_def bit_push_bit_iff) simp_all
  have b: "bit (8 :: u64) n \<longleftrightarrow> n = 3" "bit (0xF :: u64) n \<longleftrightarrow> n = 0 \<or> n = 1 \<or> n = 2 \<or> n = 3" for n
    by (auto simp: bit_numeral_rec bit_1_iff numeral_eq_Suc split: nat.splits)
  have "p AND 8 = 0" by (rule bit_word_eqI) (use p b in \<open>auto simp only: bit_and_iff bit_0_eq bot_apply bot_bool_def\<close>)
  then have "p + 8 = p OR 8" by (rule disjunctive_add_eq_or)
  moreover have "(p OR 8) AND 0xF = 8" by (rule bit_word_eqI) (use p b in \<open>auto simp only: bit_and_iff bit_or_iff\<close>)
  moreover have "x AND NOT 0xF = push_bit 4 (drop_bit 4 x)" using and_not_mask_eq [of x 4] by simp
  then have "(x AND NOT 0xF) - 184 = p + 8" by (simp add: p_def push_bit_eq_mult)
  ultimately show ?thesis by (simp only:)
qed

lemma handler_stack_misaligned:
  fixes s :: "'a irq_state_scheme"
  assumes "sysv_callee d env" "d + 208 \<le> 2 ^ 64" "g_virt_apic s \<noteq> NULL" "\<not> cpu_halted s" "i < 32" "i \<noteq> 21" "i \<noteq> 29"
  shows "\<exists>c' s'. take_interrupt env stubs (idt_init addr stubs t) i err (c, s) = Some (c', s') \<and> gprs c' RDI AND 0xF = 8"
proof -
  have i: "interrupt_gate (stubs i) (idt (idt_init addr stubs t) i)" "i < 48" using assms(5) idt_init_gate [of i] by auto
  show ?thesis
    using take_interrupt_correct [of d env s stubs, OF assms(1-4) i assms(6,7), of err c] assms(5) stack_mod_16 [of "gprs c RSP"]
    by (auto simp del: of_nat_add split del: if_split)
qed

definition demo_compiled :: compiled where
  "demo_compiled = \<lparr>return_address = 0xFFFFFFFF80001050,
     left_gprs = (\<lambda>c r. if r \<in> {RBX, RBP, RSP, R12, R13, R14, R15} then gprs c r else 0xDEAD),
     left_mem = (\<lambda>c. store64 (gprs c RBP) (gprs c RSP - 8)), alu_flags = (\<lambda>_ f. f)\<rparr>"

definition demo_running :: cpu where
  "demo_running = \<lparr>gprs = (\<lambda>r. if r = RSP then 0xFFFF800000107FF4 else if r = RAX then 42 else 1), sregs = (\<lambda>q. if q = CS then 8 else 16),
     rip = 0xFFFFFFFF80002000, rflags = 0x202\<rparr>"

lemma demo_compiled_sysv: "sysv_callee 8 demo_compiled"
  by (simp add: sysv_callee_def demo_compiled_def unchanged_outside_def m64.store_outside)

theorem interrupt_transparent_witness:
  "\<exists>c' s'. take_interrupt demo_compiled (\<lambda>i. 0x1000 + of_nat i) (idt_init 0x9000 (\<lambda>i. 0x1000 + of_nat i) demo_cpu) 32 0
       (demo_running, demo_irq) = Some (c', s') \<and> gprs c' RAX = 42 \<and> rip c' = 0xFFFFFFFF80002000 \<and> rflags c' = 0x202 \<and> tick s' = 8"
  using interrupt_transparent [OF demo_compiled_sysv, of demo_irq 32 "\<lambda>i. 0x1000 + of_nat i" "0x9000" demo_cpu 0 demo_running]
  by (auto simp: demo_irq_def demo_apic_def demo_running_def frame_of_def interrupt_handler_eq apic_state.defs)

theorem exception_reported_witness:
  "\<exists>c' s'. take_interrupt demo_compiled (\<lambda>i. 0x1000 + of_nat i) (idt_init 0x9000 (\<lambda>i. 0x1000 + of_nat i) demo_cpu) 14 2
       (demo_running, demo_irq) = Some (c', s') \<and> cpu_halted s' \<and>
     read_Registers (gprs c' RDI) (mem s') = frame_of 14 2 demo_running"
  using exception_reported [OF demo_compiled_sysv, of demo_irq 14 "\<lambda>i. 0x1000 + of_nat i" "0x9000" demo_cpu 2 demo_running]
  by (auto simp: demo_irq_def demo_apic_def pushes_error_code_def apic_state.defs)

end
