(* ===== verification/Kernel_Interrupts.thy ===== *)
theory Kernel_Interrupts
  imports Kernel_Runs Interrupt_Entry
begin

text \<open>
  Interrupts at any point of a run of the kernel, with the assembly stubs: the services and their
  clients do not notice them.
\<close>

section \<open>Interrupts of the running kernel\<close>

text \<open>
  C5. An interrupt at any point of a run, from its delivery to \<open>iretq\<close>: when the bytes below the stack
  pointer that delivery, stub and handler use are not in a frame of the page tables, of the heap or of
  a client, the interrupted code goes on with all its registers, the kernel's invariant holds again
  and what clients own is unchanged, so that the interrupted service cannot tell that it was
  interrupted.
\<close>

theorem interrupt_keeps_kernel:
  fixes s0 s :: "'a irq_state_scheme" and c :: cpu
  assumes "kernel_inv I h s0 [] []" "kernel_reach I h (s0, [], []) (s, live, raw)" "\<not> cpu_halted s"
    and "sysv_callee d cc" "d + 208 \<le> 2 ^ 64" "32 \<le> i" "i < 48"
    and "region (gprs c RSP - of_nat (d + 208)) (d + 208) \<inter>
      frame_mem h (slab_frames s \<union> table_frames I s \<union> (\<Union>b\<in>set (live @ raw). held b)) = {}"
  shows "\<exists>c' s'. take_interrupt cc stubs (idt_init addr stubs t) i err (c, s) = Some (c', s') \<and>
    gprs c' = gprs c \<and> rip c' = rip c \<and> rflags c' = rflags c \<and>
    kernel_inv I h s' live raw \<and> (\<forall>x\<in>owned_data h live raw. mem s' x = mem s x) \<and> buddy s' = buddy s"
proof -
  have inv: "kernel_inv I h s live raw" using kernel_inv_reach [OF assms(2)] assms(1) by simp
  note D = kernel_invD [OF inv]
  have g: "g_virt_apic s \<noteq> NULL" using inv by (simp add: kernel_inv_def)
  have gate: "interrupt_gate (stubs i) (idt (idt_init addr stubs t) i)" "i \<noteq> 21" "i \<noteq> 29" "\<not> i < 32" "\<not> pushes_error_code i"
    using assms(6,7) idt_init_gate [of i] by (auto simp: pushes_error_code_def)
  let ?S = "region (gprs c RSP - of_nat (d + 208)) (d + 208)" and ?r = "frame_of (of_nat i) 0 c"
  obtain m where m: "take_interrupt cc stubs (idt_init addr stubs t) i err (c, s) =
        Some (returned c, (handled ?r s)\<lparr>mem := m\<rparr>)" "unchanged_outside ?S (mem s) m"
    using take_interrupt_correct [of d cc s stubs, OF assms(4,5) g assms(3) gate(1) assms(7) gate(2,3), of err c] gate(4,5)
    by (auto simp del: of_nat_add)
  let ?s' = "(handled ?r s)\<lparr>mem := m\<rparr>"
  have keep: "m x = mem s x" if "x \<in> frame_mem h F" "F \<subseteq> slab_frames s \<union> table_frames I s \<union> (\<Union>b\<in>set (live @ raw). held b)" for x F
    using that frame_mem_mono [OF that(2), of h] assms(8) by (intro unchanged_outsideD [OF m(2)]) blast
  have own: "m x = mem s x" if "b \<in> set (live @ raw)" "x \<in> frame_mem h (held b)" for b x
    using that by (intro keep [OF that(2)]) blast
  have "kernel_inv I h ?s' live raw"
  proof (rule kernel_inv_mem [OF inv])
    show "mem ?s' x = mem s x" if "x \<in> frame_mem h (slab_frames s \<union> table_frames I s)" for x
      using keep [OF that] by auto
    show "\<forall>b\<in>set live. large_block h (mem ?s') b"
    proof
      fix b assume b: "b \<in> set live"
      have "m x = mem s x" if "x \<in> region (fst b + h) 8" for x
        using that large_block_mem(2) [OF D(12) [OF b]] by (intro own [OF live_owned(1) [OF b]]) blast
      then show "large_block h (mem ?s') b" by (intro large_block_cong [OF D(12) [OF b]]) simp
    qed
  qed (use D in \<open>auto simp: handled_def\<close>)
  moreover have "mem ?s' x = mem s x" if x: "x \<in> owned_data h live raw" for x
  proof -
    obtain b where "b \<in> set (live @ raw)" "x \<in> frame_mem h (held b)" using owned_data_block [OF inv x] by blast
    then show ?thesis using own by simp
  qed
  ultimately show ?thesis using m(1) by (intro exI [of _ "returned c"] exI [of _ ?s']) (simp add: returned_def handled_def)
qed


lemma demo_run_tables: "table_frames {} demo_run = {5}" "slab_frames demo_run = {}" "\<not> cpu_halted demo_run" "g_virt_apic demo_run \<noteq> NULL"
proof -
  have "paths 3 {} = {[]}" by (auto simp: paths_def)
  moreover have "lookup demo_run [] = Some 0x5000" by (simp add: demo_run_def heap_init_caches lookup_def pt_root_def PAGE_ADDR_MASK_def)
  ultimately show "table_frames {} demo_run = {5}" by (simp add: table_frames_def)
qed (simp_all add: demo_run_def heap_init_caches slab_frames_def)

lemma demo_stack: "region (gprs demo_running RSP - of_nat (8 + 208)) (8 + 208) \<inter> frame_mem HH {5} = {}"
proof -
  have "unat x < unat (HH + 0x6000)" if x: "x \<in> frame_mem HH {5}" for x
  proof -
    obtain u where u: "aligned u" "unat u div 4096 = 5" "x \<in> region (u + HH) 4096" using x by (auto simp: frame_mem_def)
    have "u = 0x5000" using u(2) by (intro aligned_frame_eq [OF u(1)]) simp_all
    then show ?thesis using region_bounds(2) [OF u(3)] by simp
  qed
  moreover have "unat (HH + 0x6000) \<le> unat x" if "x \<in> region (gprs demo_running RSP - of_nat (8 + 208)) (8 + 208)" for x
    using region_bounds(1) [OF that] by (simp add: demo_running_def)
  ultimately show ?thesis by fastforce
qed

theorem interrupt_keeps_kernel_witness:
  "\<exists>c' s'. take_interrupt demo_compiled (\<lambda>i. 0x1000 + of_nat i) (idt_init 0x9000 (\<lambda>i. 0x1000 + of_nat i) demo_cpu) 32 0
       (demo_running, demo_run) = Some (c', s') \<and> gprs c' RAX = 42 \<and> kernel_inv {} HH s' [] []"
proof -
  have st: "region (gprs demo_running RSP - of_nat (8 + 208)) (8 + 208) \<inter>
      frame_mem HH (slab_frames demo_run \<union> table_frames {} demo_run \<union> (\<Union>b\<in>set ([] @ []). held b)) = {}"
    using demo_stack by (simp add: demo_run_tables)
  show ?thesis
    using interrupt_keeps_kernel [OF demo_run_inv kernel_reach.start demo_run_tables(3) demo_compiled_sysv _ _ _ st,
        of 32 "\<lambda>i. 0x1000 + of_nat i" "0x9000" demo_cpu 0]
    by (auto simp: demo_running_def)
qed

end
