(* ===== verification/Processor_Id.thy ===== *)
theory Processor_Id
  imports Local_APIC
begin

text \<open>
  Processor identification, \<open>src/kernel/src/system/cpu/cpuid.h\<close>: the vendor strings, the feature masks, the
  requests, and the two functions that issue them.  The instruction itself is an argument.
\<close>

section \<open>Names of the header\<close>

text \<open>The vendor strings, of processors and of hypervisors.\<close>

definition cpuid_vendors :: "(string \<times> string) list" where
  "cpuid_vendors = [
     (''AMD'', ''AuthenticAMD''), (''AMD_OLD'', ''AMDisbetter!''), (''INTEL'', ''GenuineIntel''), (''VIA'', ''VIA VIA VIA ''),
     (''TRANSMETA'', ''GenuineTMx86''), (''TRANSMETA_OLD'', ''TransmetaCPU''), (''CYRIX'', ''CyrixInstead''),
     (''CENTAUR'', ''CentaurHauls''), (''NEXGEN'', ''NexGenDriven''), (''UMC'', ''UMC UMC UMC ''), (''SIS'', ''SiS SiS SiS ''),
     (''NSC'', ''Geode by NSC''), (''RISE'', ''RiseRiseRise''), (''VORTEX'', ''Vortex86 SoC''), (''AO486'', ''MiSTer AO486''),
     (''AO486_OLD'', ''GenuineAO486''), (''ZHAOXIN'', ''  Shanghai  ''), (''HYGON'', ''HygonGenuine''), (''ELBRUS'', ''E2K MACHINE ''),
     (''QEMU'', ''TCGTCGTCGTCG''), (''KVM'', '' KVMKVMKVM  ''), (''VMWARE'', ''VMwareVMware''), (''VIRTUALBOX'', ''VBoxVBoxVBox''),
     (''XEN'', ''XenVMMXenVMM''), (''HYPERV'', ''Microsoft Hv''), (''PARALLELS'', '' prl hyperv ''),
     (''PARALLELS_ALT'', '' lrpepyh vr ''), (''BHYVE'', ''bhyve bhyve ''), (''QNX'', '' QNXQVMBSQG '')]"

text \<open>The masks of the registers of request 1, each with its shift.\<close>

definition CPUID_FEAT_EBX :: "(string \<times> u32) list" where
  "CPUID_FEAT_EBX = [(''BRAND_INDEX'', push_bit 0 0xFF), (''CLFLUSH_LINE_SIZE'', push_bit 8 0xFF),
     (''APIC_ID_SPACE'', push_bit 16 0xFF), (''INITIAL_APIC_ID'', push_bit 24 0xFF)]"

definition CPUID_FEAT_ECX :: "(string \<times> u32) list" where
  "CPUID_FEAT_ECX = [(''SSE3'', push_bit 0 1), (''PCLMUL'', push_bit 1 1), (''DTES64'', push_bit 2 1), (''MONITOR'', push_bit 3 1),
     (''DS_CPL'', push_bit 4 1), (''VMX'', push_bit 5 1), (''SMX'', push_bit 6 1), (''EST'', push_bit 7 1), (''TM2'', push_bit 8 1),
     (''SSSE3'', push_bit 9 1), (''CID'', push_bit 10 1), (''SDBG'', push_bit 11 1), (''FMA'', push_bit 12 1), (''CX16'', push_bit 13 1),
     (''XTPR'', push_bit 14 1), (''PDCM'', push_bit 15 1), (''PCID'', push_bit 17 1), (''DCA'', push_bit 18 1), (''SSE4_1'', push_bit 19 1),
     (''SSE4_2'', push_bit 20 1), (''X2APIC'', push_bit 21 1), (''MOVBE'', push_bit 22 1), (''POPCNT'', push_bit 23 1),
     (''TSC'', push_bit 24 1), (''AES'', push_bit 25 1), (''XSAVE'', push_bit 26 1), (''OSXSAVE'', push_bit 27 1), (''AVX'', push_bit 28 1),
     (''F16C'', push_bit 29 1), (''RDRAND'', push_bit 30 1), (''HYPERVISOR'', push_bit 31 1)]"

definition CPUID_FEAT_EDX :: "(string \<times> u32) list" where
  "CPUID_FEAT_EDX = [(''FPU'', push_bit 0 1), (''VME'', push_bit 1 1), (''DE'', push_bit 2 1), (''PSE'', push_bit 3 1), (''TSC'', push_bit 4 1),
     (''MSR'', push_bit 5 1), (''PAE'', push_bit 6 1), (''MCE'', push_bit 7 1), (''CX8'', push_bit 8 1), (''APIC'', push_bit 9 1),
     (''SEP'', push_bit 11 1), (''MTRR'', push_bit 12 1), (''PGE'', push_bit 13 1), (''MCA'', push_bit 14 1), (''CMOV'', push_bit 15 1),
     (''PAT'', push_bit 16 1), (''PSE36'', push_bit 17 1), (''PSN'', push_bit 18 1), (''CLFLUSH'', push_bit 19 1), (''DS'', push_bit 21 1),
     (''ACPI'', push_bit 22 1), (''MMX'', push_bit 23 1), (''FXSR'', push_bit 24 1), (''SSE'', push_bit 25 1), (''SSE2'', push_bit 26 1),
     (''SS'', push_bit 27 1), (''HTT'', push_bit 28 1), (''TM'', push_bit 29 1), (''IA64'', push_bit 30 1), (''PBE'', push_bit 31 1)]"

text \<open>The requests, with the values of the enumeration.\<close>

datatype cpuid_requests = CPUID_GETVENDORSTRING | CPUID_GETFEATURES | CPUID_GETTLB | CPUID_GETSERIAL
  | CPUID_INTELEXTENDED | CPUID_INTELFEATURES | CPUID_INTELBRANDSTRING | CPUID_INTELBRANDSTRINGMORE | CPUID_INTELBRANDSTRINGEND

fun request_code :: "cpuid_requests \<Rightarrow> u32" where
  "request_code CPUID_GETVENDORSTRING = 0"
| "request_code CPUID_GETFEATURES = 1"
| "request_code CPUID_GETTLB = 2"
| "request_code CPUID_GETSERIAL = 3"
| "request_code CPUID_INTELEXTENDED = 0x80000000"
| "request_code CPUID_INTELFEATURES = 0x80000001"
| "request_code CPUID_INTELBRANDSTRING = 0x80000002"
| "request_code CPUID_INTELBRANDSTRINGMORE = 0x80000003"
| "request_code CPUID_INTELBRANDSTRINGEND = 0x80000004"

section \<open>The two requests\<close>

text \<open>\<open>ins\<close> is the instruction: the registers \<open>eax\<close>, \<open>ebx\<close>, \<open>ecx\<close>, \<open>edx\<close> for a code in \<open>eax\<close>.\<close>

type_synonym cpuid_instruction = "u32 \<Rightarrow> u32 \<times> u32 \<times> u32 \<times> u32"

definition cpuid :: "cpuid_instruction \<Rightarrow> u32 \<Rightarrow> u32 \<times> u32" where
  "cpuid ins code = (let (eax, ebx, ecx, edx) = ins code in (eax, edx))"

text \<open>\<open>cpuid_string\<close> stores the four registers to \<open>where\<close> and returns the first as an \<open>int\<close>.\<close>

definition cpuid_string :: "cpuid_instruction \<Rightarrow> u32 \<Rightarrow> int \<times> u32 list" where
  "cpuid_string ins code = (let (eax, ebx, ecx, edx) = ins code; where = [eax, ebx, ecx, edx] in (sint (where ! 0), where))"

section \<open>Proofs\<close>

definition word_chars :: "u32 \<Rightarrow> string" where
  "word_chars w = map (\<lambda>i. char_of (unat (ucast (drop_bit (8 * i) w) :: u8))) [0..<4]"

definition chars_word :: "string \<Rightarrow> u32" where
  "chars_word cs = foldr (\<lambda>c w. ucast (of_nat (of_char c) :: u8) OR push_bit 8 w) cs 0"

text \<open>No two masks of a register share a bit, so that each feature is tested apart from the others.\<close>

definition disjoint_masks :: "(string \<times> u32) list \<Rightarrow> bool" where
  "disjoint_masks fs \<longleftrightarrow> sorted_wrt (\<lambda>f g. snd f AND snd g = 0) fs"

lemma cpuid_masks_disjoint: "disjoint_masks CPUID_FEAT_EBX" "disjoint_masks CPUID_FEAT_ECX" "disjoint_masks CPUID_FEAT_EDX"
  by (simp_all add: disjoint_masks_def CPUID_FEAT_EBX_def CPUID_FEAT_ECX_def CPUID_FEAT_EDX_def)

lemma cpuid_vendors_ok: "distinct (map snd cpuid_vendors)" "\<forall>v\<in>set cpuid_vendors. length (snd v) = 12"
  by (simp_all add: cpuid_vendors_def)


lemma word_bytes:
  fixes a b c d :: u8
  defines "w \<equiv> ucast a OR push_bit 8 (ucast b OR push_bit 8 (ucast c OR push_bit 8 (ucast d))) :: u32"
  shows "(ucast w :: u8) = a" "(ucast (drop_bit 8 w) :: u8) = b" "(ucast (drop_bit 16 w) :: u8) = c" "(ucast (drop_bit 24 w) :: u8) = d"
  by (rule bit_word_eqI, auto simp: w_def bit_simps dest: bit_imp_le_length)+

lemma word_chars_word:
  assumes "length cs = 4"
  shows "word_chars (chars_word cs) = cs"
proof -
  obtain a b c d where cs: "cs = [a, b, c, d]" using assms by (auto simp: length_Suc_conv numeral_eq_Suc)
  let ?b = "\<lambda>e. of_nat (of_char e) :: u8"
  have u: "unat (?b e) = of_char e" for e :: char by (simp add: unat_of_nat take_bit_nat_eq_self)
  define w where "w = (ucast (?b a) OR push_bit 8 (ucast (?b b) OR push_bit 8 (ucast (?b c) OR push_bit 8 (ucast (?b d)))) :: u32)"
  have "chars_word cs = w"
    unfolding cs chars_word_def w_def by (simp only: foldr.simps o_apply id_apply push_bit_of_0 or.right_neutral)
  moreover have "word_chars w = map (\<lambda>v. char_of (unat v)) [ucast w :: u8, ucast (drop_bit 8 w), ucast (drop_bit 16 w), ucast (drop_bit 24 w)]"
    by (simp add: word_chars_def upt_rec)
  moreover have "\<dots> = cs" unfolding w_def word_bytes cs by (simp add: u)
  ultimately show ?thesis by simp
qed

text \<open>
  A string that the processor spreads over the registers in the order \<open>eax\<close>, \<open>ebx\<close>, \<open>ecx\<close>, \<open>edx\<close>, which is
  the case for the three brand requests, is in \<open>where\<close> as it is, character by character.
\<close>

lemma cpuid_string_brand:
  assumes "ins code = (chars_word a, chars_word b, chars_word c, chars_word d)" "\<forall>x\<in>{a, b, c, d}. length x = 4"
  shows "concat (map word_chars (snd (cpuid_string ins code))) = a @ b @ c @ d"
  using assms by (simp add: cpuid_string_def word_chars_word)

text \<open>
  The vendor string is spread over \<open>ebx\<close>, \<open>edx\<close> and \<open>ecx\<close> in this order: \<open>where\<close> has its second and third
  part exchanged, so that it is none of the vendor strings of the header for an Intel processor.
\<close>

lemma cpuid_string_vendor:
  assumes "ins (request_code CPUID_GETVENDORSTRING) = (leaf, chars_word b, chars_word c, chars_word d)"
    and "\<forall>x\<in>{b, c, d}. length x = 4"
  shows "concat (map word_chars (tl (snd (cpuid_string ins (request_code CPUID_GETVENDORSTRING))))) = b @ d @ c \<longleftrightarrow> c = d"
  using assms by (auto simp: cpuid_string_def word_chars_word)

lemma cpuid_string_intel:
  "concat (map word_chars (tl (snd (cpuid_string (\<lambda>_. (22, chars_word ''Genu'', chars_word ''ntel'', chars_word ''ineI'')) 0)))) \<notin> snd ` set cpuid_vendors"
  by (simp add: cpuid_string_def word_chars_word cpuid_vendors_def)

text \<open>
  The same in \<open>get_model\<close>: it returns the register \<open>ebx\<close> of request 0, the first four characters of the
  vendor string and no model.
\<close>

lemma get_model_vendor: "get_model (\<lambda>c. if c = request_code CPUID_GETVENDORSTRING then chars_word ''Genu'' else 0) = 0x756E6547"
  by (simp add: get_model_def chars_word_def)

text \<open>
  \<open>cpuid\<close> is what the drivers test features with: the masks they use are those of the header.
\<close>

lemma driver_masks:
  "map_of CPUID_FEAT_EDX ''APIC'' = Some CPUID_FEAT_EDX_APIC" "map_of CPUID_FEAT_EDX ''MSR'' = Some CPUID_FLAG_MSR"
  by (simp_all add: CPUID_FEAT_EDX_def CPUID_FEAT_EDX_APIC_def CPUID_FLAG_MSR_def)

lemma cpuHasMSR_feature:
  "cpuHasMSR (cpuid ins) \<longleftrightarrow> (case ins 1 of (eax, ebx, ecx, edx) \<Rightarrow> bit edx 5)"
proof -
  have "d AND CPUID_FLAG_MSR \<noteq> 0 \<longleftrightarrow> bit d 5" for d :: u32
    unfolding CPUID_FLAG_MSR_def by (metis and_exp_eq_0_iff_not_bit push_bit_of_1)
  then show ?thesis by (simp add: cpuHasMSR_def cpuid_def split: prod.splits)
qed

end
