(* ===== verification/Struct_Access.thy ===== *)
theory Struct_Access
  imports Byte_Memory
begin

text \<open>
  Access to the members of structures in byte memory, as the compiler lays them out: the contract
  \<open>struct_access\<close> of a layout, and what loads and stores of members do under it.  Packed layouts
  (\<open>Firmware_Structures\<close>) and the natural layout of C (\<open>C_Types\<close>) provide it.
\<close>

section \<open>Access to members\<close>

text \<open>
  What a layout comes to: the offset and the size of each member, by name.  \<open>read_at\<close> and \<open>write_at\<close>
  are the bytes of a member of the structure at address \<open>a\<close>.
\<close>

type_synonym member_table = "string \<Rightarrow> (nat \<times> nat) option"

definition read_at :: "member_table \<Rightarrow> string \<Rightarrow> u64 \<Rightarrow> memory \<Rightarrow> u8 list option" where
  "read_at member f a m = do { (i, n) \<leftarrow> member f; Some (map (\<lambda>k. m (a + of_nat (i + k))) [0..<n]) }"

definition write_at :: "member_table \<Rightarrow> string \<Rightarrow> u64 \<Rightarrow> u8 list \<Rightarrow> memory \<Rightarrow> memory option" where
  "write_at member f a bs m = do { (i, n) \<leftarrow> member f;
     if length bs = n then Some (\<lambda>x. if unat (x - (a + of_nat i)) < n then bs ! unat (x - (a + of_nat i)) else m x) else None }"

text \<open>
  The contract of a layout: the members are inside the structure and apart from each other, and the
  structure fits an address.
\<close>

locale struct_access =
  fixes member :: member_table and total :: nat
  assumes member_end: "member f = Some (i, n) \<Longrightarrow> i + n \<le> total"
    and members_in_order: "member f = Some (i, n) \<Longrightarrow> member g = Some (j, k) \<Longrightarrow> f \<noteq> g \<Longrightarrow> i + n \<le> j \<or> j + k \<le> i"
    and small: "total < 2 ^ 32"
begin

lemma member_region: "member f = Some (i, n) \<Longrightarrow> region (a + of_nat i) n \<subseteq> region a total"
  using member_end [of f i n] small by (intro region_offset) (auto simp: unat_of_nat64)

lemma member_offset:
  assumes "member f = Some (i, n)"
  shows "unat (of_nat i :: u64) = i" "i + n < 2 ^ 32"
  using member_end [OF assms] small by (auto intro!: unat_of_nat64)

lemma member_regions_apart:
  assumes "member f = Some (i, n)" "member g = Some (j, k)" "f \<noteq> g"
  shows "region (a + of_nat i) n \<inter> region (a + of_nat j) k = {}"
proof -
  note u = member_offset [OF assms(1)] member_offset [OF assms(2)]
  from members_in_order [OF assms] show ?thesis
  proof
    assume "i + n \<le> j"
    then show ?thesis using u by (intro region_disjoint_offsets) simp_all
  next
    assume "j + k \<le> i"
    then have "region (a + of_nat j) k \<inter> region (a + of_nat i) n = {}" using u by (intro region_disjoint_offsets) simp_all
    then show ?thesis by blast
  qed
qed

lemma member_address:
  assumes "member f = Some (i, n)" "k < n"
  shows "a + of_nat (i + k) \<in> region (a + of_nat i) n" "unat (a + of_nat (i + k) - (a + of_nat i)) = k"
proof -
  have "unat (of_nat k :: u64) = k" using member_offset [OF assms(1)] assms(2) by (intro unat_of_nat64) simp
  then show "unat (a + of_nat (i + k) - (a + of_nat i)) = k" by simp
  then show "a + of_nat (i + k) \<in> region (a + of_nat i) n" using assms(2) by (simp add: region_def)
qed

lemma write_changes_member:
  assumes "write_at member f a bs m = Some m'" "member f = Some (i, n)" "x \<notin> region (a + of_nat i) n"
  shows "m' x = m x"
  using assms by (auto simp: write_at_def region_def split: if_splits)

lemma write_total: "member f = Some (i, n) \<Longrightarrow> length bs = n \<Longrightarrow> \<exists>m'. write_at member f a bs m = Some m'"
  by (auto simp: write_at_def)

lemma read_written:
  assumes "write_at member f a bs m = Some m'"
  shows "read_at member f a m' = Some bs"
proof -
  obtain i n where i: "member f = Some (i, n)" "length bs = n" and
    m': "m' = (\<lambda>x. if unat (x - (a + of_nat i)) < n then bs ! unat (x - (a + of_nat i)) else m x)"
    using assms by (auto simp: write_at_def split: if_splits bind_splits)
  have "m' (a + of_nat (i + k)) = bs ! k" if "k < n" for k
    unfolding m' member_address(2) [OF i(1) that] using that by simp
  then show ?thesis using i by (auto simp: read_at_def intro!: nth_equalityI)
qed

lemma read_other:
  assumes "write_at member f a bs m = Some m'" "f \<noteq> g"
  shows "read_at member g a m' = read_at member g a m"
proof (cases "member g")
  case (Some p)
  obtain j k where p: "member g = Some (j, k)" using Some by (cases p) auto
  obtain i n where i: "member f = Some (i, n)" using assms(1) by (auto simp: write_at_def split: bind_splits)
  have "m' (a + of_nat (j + q)) = m (a + of_nat (j + q))" if "q < k" for q
    using member_address(1) [OF p that] member_regions_apart [OF i p assms(2), of a]
    by (intro write_changes_member [OF assms(1) i]) blast
  then show ?thesis using p by (simp add: read_at_def)
qed (simp add: read_at_def)

lemma write_outside:
  assumes "write_at member f a bs m = Some m'" "x \<notin> region a total"
  shows "m' x = m x"
proof -
  obtain i n where i: "member f = Some (i, n)" using assms(1) by (auto simp: write_at_def split: bind_splits)
  then show ?thesis using member_region [OF i, of a] assms(2) by (intro write_changes_member [OF assms(1) i]) blast
qed

text \<open>
  A store to a member puts its bytes at the member's offset and nowhere else: it is read back, and
  what is outside the member, other members among it, does not change.
\<close>

lemma member_sound:
  assumes "member f = Some (i, n)" "length bs = n"
  shows "\<exists>m'. write_at member f a bs m = Some m' \<and> read_at member f a m' = Some bs \<and>
    (\<forall>k<n. m' (a + of_nat (i + k)) = bs ! k) \<and> (\<forall>x. x \<notin> region (a + of_nat i) n \<longrightarrow> m' x = m x) \<and>
    (\<forall>g. g \<noteq> f \<longrightarrow> read_at member g a m' = read_at member g a m)"
proof -
  obtain m' where m': "write_at member f a bs m = Some m'" using write_total [OF assms] by blast
  have "m' (a + of_nat (i + k)) = bs ! k" if "k < n" for k
  proof -
    have "map (\<lambda>k. m' (a + of_nat (i + k))) [0..<n] = bs" using read_written [OF m'] assms(1) by (simp add: read_at_def)
    then show ?thesis using that by (auto dest: arg_cong [of _ _ "\<lambda>xs. xs ! k"])
  qed
  then show ?thesis
    by (intro exI [of _ m'] conjI allI impI m' read_written [OF m'])
       (simp_all add: read_other [OF m'] write_changes_member [OF m' assms(1)])
qed

end

end
