(* ===== verification/Firmware_Structures.thy ===== *)
theory Firmware_Structures
  imports IOAPIC_Model Struct_Access
begin

text \<open>
  The structures that the firmware headers declare, \<open>acpi.h\<close>, \<open>madt.h\<close>, \<open>srat.h\<close>, \<open>mcfg.h\<close> and \<open>waet.h\<close> of
  \<open>src/kernel/src/drivers/ACPI\<close>, as packed layouts, with access to their members.  \<open>packed_struct\<close> is what
  makes a layout a type; every structure is an instance.
\<close>

section \<open>The structures\<close>

text \<open>Of \<open>acpi.h\<close>.  A flexible array member takes no room in the structure.\<close>

definition XSDT :: struct_layout where
  "XSDT = [(''h'', size_of ACPISDTHeader), (''PointerToOtherSDT'', 0)]"

definition RSDT :: struct_layout where
  "RSDT = [(''header'', size_of ACPISDTHeader), (''entries'', 0)]"

definition BGRT_t :: struct_layout where
  "BGRT_t = [(''Signature'', 4), (''Length'', 4), (''Revision'', 1), (''Checksum'', 1), (''OEMID'', 6),
     (''OEM_TABLE'', 8), (''OEM_Revision'', 4), (''Creater_ID'', 4), (''Creater_Revision'', 4), (''Version_ID'', 2),
     (''Status'', 1), (''Image_Type'', 1), (''Image_Address'', 8), (''Image_X_Offset'', 4), (''Image_Y_Offset'', 4)]"

definition GenericAddressStructure :: struct_layout where
  "GenericAddressStructure = [(''AddressSpace'', 1), (''BitWidth'', 1), (''BitOffset'', 1), (''AccessSize'', 1),
     (''Address'', 8)]"

definition FADT :: struct_layout where
  "FADT = [(''h'', size_of ACPISDTHeader), (''FirmwareCtrl'', 4), (''Dsdt'', 4), (''Reserved'', 1),
     (''PreferredPowerManagementProfile'', 1), (''SCI_Interrupt'', 2), (''SMI_CommandPort'', 4), (''AcpiEnable'', 1),
     (''AcpiDisable'', 1), (''S4BIOS_REQ'', 1), (''PSTATE_Control'', 1), (''PM1aEventBlock'', 4),
     (''PM1bEventBlock'', 4), (''PM1aControlBlock'', 4), (''PM1bControlBlock'', 4), (''PM2ControlBlock'', 4),
     (''PMTimerBlock'', 4), (''GPE0Block'', 4), (''GPE1Block'', 4), (''PM1EventLength'', 1),
     (''PM1ControlLength'', 1), (''PM2ControlLength'', 1), (''PMTimerLength'', 1), (''GPE0Length'', 1),
     (''GPE1Length'', 1), (''GPE1Base'', 1), (''CStateControl'', 1), (''WorstC2Latency'', 2),
     (''WorstC3Latency'', 2), (''FlushSize'', 2), (''FlushStride'', 2), (''DutyOffset'', 1), (''DutyWidth'', 1),
     (''DayAlarm'', 1), (''MonthAlarm'', 1), (''Century'', 1), (''BootArchitectureFlags'', 2), (''Reserved2'', 1),
     (''Flags'', 4), (''ResetReg'', size_of GenericAddressStructure), (''ResetValue'', 1), (''Reserved3'', 3),
     (''X_FirmwareControl'', 8), (''X_Dsdt'', 8), (''X_PM1aEventBlock'', size_of GenericAddressStructure),
     (''X_PM1bEventBlock'', size_of GenericAddressStructure),
     (''X_PM1aControlBlock'', size_of GenericAddressStructure),
     (''X_PM1bControlBlock'', size_of GenericAddressStructure),
     (''X_PM2ControlBlock'', size_of GenericAddressStructure), (''X_PMTimerBlock'', size_of GenericAddressStructure),
     (''X_GPE0Block'', size_of GenericAddressStructure), (''X_GPE1Block'', size_of GenericAddressStructure)]"


text \<open>Of \<open>madt.h\<close>: the records of the interrupt table besides those \<open>ioapic.c\<close> reads.\<close>

definition PLA :: struct_layout where
  "PLA = [(''Entry_type'', 1), (''Record_Length'', 1), (''ACPI_Processor_ID'', 1), (''APIC_ID'', 1), (''Flags'', 4)]"

definition IOAPIC_NMI :: struct_layout where
  "IOAPIC_NMI = [(''Entry_type'', 1), (''Record_Length'', 1), (''NMI_Source'', 1), (''Reserved'', 1), (''Flags'', 2),
     (''GSI'', 4)]"

definition LAPIC_NMI :: struct_layout where
  "LAPIC_NMI = [(''Entry_type'', 1), (''Record_Length'', 1), (''ACPI_Processor_ID'', 1), (''Flags'', 2),
     (''LINT'', 1)]"

definition LAPIC_AO :: struct_layout where
  "LAPIC_AO = [(''Entry_type'', 1), (''Record_Length'', 1), (''Reserved'', 2), (''LAPIC_Address'', 8)]"

definition LAPIC_X2 :: struct_layout where
  "LAPIC_X2 = [(''Entry_type'', 1), (''Record_Length'', 1), (''Reserved'', 2), (''x2LAPIC'', 4), (''FLAGS'', 4),
     (''ACPI_ID'', 4)]"


text \<open>Of \<open>srat.h\<close>, \<open>mcfg.h\<close> and \<open>waet.h\<close>.\<close>

definition SRAT :: struct_layout where
  "SRAT = [(''h'', size_of ACPISDTHeader), (''reserved'', 12)]"

definition SRAT_proc_lapic_struct :: struct_layout where
  "SRAT_proc_lapic_struct = [(''type'', 1), (''length'', 1), (''lo_DM'', 1), (''APIC_ID'', 1), (''flags'', 4),
     (''SAPIC_EID'', 1), (''hi_DM'', 3), (''_CDM'', 4)]"

definition SRAT_mem_struct :: struct_layout where
  "SRAT_mem_struct = [(''type'', 1), (''length'', 1), (''domain'', 4), (''reserved1'', 2), (''lo_base'', 4),
     (''hi_base'', 4), (''lo_length'', 4), (''hi_length'', 4), (''reserved2'', 4), (''flags'', 4),
     (''reserved3'', 8)]"

definition SRAT_proc_lapic2_struct :: struct_layout where
  "SRAT_proc_lapic2_struct = [(''type'', 1), (''length'', 1), (''reserved1'', 2), (''domain'', 4),
     (''x2APIC_ID'', 4), (''flags'', 4), (''_CDM'', 4), (''reserved2'', 4)]"

definition MCFG_Entry :: struct_layout where
  "MCFG_Entry = [(''base_address'', 8), (''PCI_segment'', 2), (''PCI_start'', 1), (''PCI_end'', 1),
     (''Reserved2'', 4)]"

definition MCFG :: struct_layout where
  "MCFG = [(''h'', size_of ACPISDTHeader), (''Reserved1'', 8), (''entries'', 0)]"

definition WAET :: struct_layout where
  "WAET = [(''h'', size_of ACPISDTHeader), (''Emulated_Device_Flags'', 4)]"

lemmas layout_eval = size_of_def ACPISDTHeader_def GenericAddressStructure_def

section \<open>Members\<close>

text \<open>
  Access to a member of a packed structure at address \<open>a\<close>: the member's offset and size, and its
  bytes in memory.
\<close>

fun member_of :: "string \<Rightarrow> struct_layout \<Rightarrow> (nat \<times> nat) option" where
  "member_of f [] = None"
| "member_of f ((g, n) # l) = (if f = g then Some (0, n) else map_option (\<lambda>(i, k). (n + i, k)) (member_of f l))"



lemma offset_of_member: "offset_of f l = map_option fst (member_of f l)"
  by (induction l rule: offset_of.induct) (auto simp: option.map_comp o_def split_def)

































section \<open>The layouts of the specification\<close>





section \<open>Properties\<close>



text \<open>
  The sizes: those of the comments (12 bytes for the address structure, the values of \<open>length\<close> in the
  records of \<open>srat.h\<close>), and of the tables; the entries of the tables start right after the header,
  which is where \<open>findTable\<close> reads them.
\<close>

lemma firmware_sizes:
  "size_of GenericAddressStructure = 12" "size_of SRAT_proc_lapic_struct = 16" "size_of SRAT_mem_struct = 40"
  "size_of SRAT_proc_lapic2_struct = 24" "size_of FADT = 244" "size_of BGRT_t = 56" "size_of SRAT = 48" "size_of MCFG_Entry = 16"
  "size_of MCFG = 44" "size_of WAET = 40" "size_of PLA = 8" "size_of LAPIC_NMI = 6" "size_of LAPIC_AO = 12" "size_of LAPIC_X2 = 16"
  by (simp_all add: layout_eval SRAT_proc_lapic_struct_def SRAT_mem_struct_def SRAT_proc_lapic2_struct_def FADT_def
    BGRT_t_def SRAT_def MCFG_Entry_def MCFG_def WAET_def PLA_def LAPIC_NMI_def LAPIC_AO_def LAPIC_X2_def)

lemma firmware_entries:
  "offset_of ''PointerToOtherSDT'' XSDT = Some (unat SDT_SIZE)" "offset_of ''entries'' RSDT = Some (unat SDT_SIZE)"
  by (simp_all add: XSDT_def RSDT_def layout_eval)

text \<open>
  The record of a non-maskable interrupt source has ten bytes here; the firmware's record of that
  type has eight, without the members \<open>NMI_Source\<close> and \<open>Reserved\<close>, so that its flags are at 2 and its
  number is at 4.
\<close>

lemma IOAPIC_NMI_size:
  "size_of IOAPIC_NMI = 10" "member_of ''Flags'' IOAPIC_NMI = Some (4, 2)" "member_of ''GSI'' IOAPIC_NMI = Some (6, 4)"
  by (simp_all add: layout_eval IOAPIC_NMI_def)

end
