(* ===== verification/C_Types.thy ===== *)
theory C_Types
  imports Struct_Access
begin

text \<open>
  The natural layout of structures in C, on x86-64: sizes, alignments and offsets, and the proof that
  every structure with distinct members is a layout in the sense of \<open>struct_access\<close> whose members are
  aligned.
\<close>

section \<open>C types\<close>

text \<open>
  The types of C that the boot protocol's structures are made of, with their sizes and alignments
  on x86-64: a member is at the first offset after the member before it that its alignment divides,
  and the size of a structure is a multiple of its alignment, which is that of its strictest member.
\<close>

datatype ctype = uint8_t | uint16_t | uint32_t | uint64_t | int64_t | pointer | array ctype nat | struct "(string \<times> ctype) list"

type_synonym members = "(string \<times> ctype) list"

definition round_up :: "nat \<Rightarrow> nat \<Rightarrow> nat" where
  "round_up n a = (n + a - 1) div a * a"

fun alignof :: "ctype \<Rightarrow> nat" and members_align :: "members \<Rightarrow> nat" where
  "alignof uint8_t = 1"
| "alignof uint16_t = 2"
| "alignof uint32_t = 4"
| "alignof uint64_t = 8"
| "alignof int64_t = 8"
| "alignof pointer = 8"
| "alignof (array t n) = alignof t"
| "alignof (struct l) = members_align l"
| "members_align [] = 1"
| "members_align ((f, t) # l) = max (alignof t) (members_align l)"

fun sizeof :: "ctype \<Rightarrow> nat" and members_end :: "nat \<Rightarrow> members \<Rightarrow> nat" where
  "sizeof uint8_t = 1"
| "sizeof uint16_t = 2"
| "sizeof uint32_t = 4"
| "sizeof uint64_t = 8"
| "sizeof int64_t = 8"
| "sizeof pointer = 8"
| "sizeof (array t n) = n * sizeof t"
| "sizeof (struct l) = round_up (members_end 0 l) (members_align l)"
| "members_end i [] = i"
| "members_end i ((f, t) # l) = members_end (round_up i (alignof t) + sizeof t) l"

fun member_from :: "nat \<Rightarrow> members \<Rightarrow> string \<Rightarrow> (nat \<times> ctype) option" where
  "member_from i [] f = None"
| "member_from i ((g, t) # l) f =
     (let j = round_up i (alignof t) in if f = g then Some (j, t) else member_from (j + sizeof t) l f)"

definition member_at :: "ctype \<Rightarrow> member_table" where
  "member_at s f = (case s of struct l \<Rightarrow> map_option (\<lambda>(i, t). (i, sizeof t)) (member_from 0 l f) | _ \<Rightarrow> None)"

lemma round_up_ge: "0 < a \<Longrightarrow> n \<le> round_up n a"
proof -
  assume a: "0 < a"
  have "n + a - 1 = (n + a - 1) div a * a + (n + a - 1) mod a" by simp
  moreover have "(n + a - 1) mod a < a" using a by simp
  ultimately show ?thesis unfolding round_up_def using a by linarith
qed

lemma round_up_dvd: "a dvd round_up n a"
  by (simp add: round_up_def)

lemma align_power: "\<exists>k. alignof t = 2 ^ k" "\<exists>k. members_align l = 2 ^ k"
proof (induction t and l rule: alignof_members_align.induct)
  case (10 f t l)
  then show ?case by (auto simp: max_def)
qed (auto intro: exI [of _ 0] exI [of _ 1] exI [of _ 2] exI [of _ 3])

lemma align_pos: "0 < alignof t" "0 < members_align l"
  using align_power(1) [of t] align_power(2) [of l] by auto

lemma align_dvd: "(f, t) \<in> set l \<Longrightarrow> alignof t dvd members_align l"
proof (induction l)
  case (Cons e l)
  obtain g u where e: "e = (g, u)" by (cases e)
  obtain i j where ij: "alignof u = 2 ^ i" "members_align l = 2 ^ j" using align_power by blast
  have m: "max (2 ^ i) (2 ^ j) = (2 :: nat) ^ max i j" by (simp add: max_def)
  have "members_align (e # l) = 2 ^ max i j" using ij m e by simp
  moreover have "(2 :: nat) ^ i dvd 2 ^ max i j" "(2 :: nat) ^ j dvd 2 ^ max i j" by (auto intro: le_imp_power_dvd)
  ultimately show ?case using Cons ij e by (auto intro: dvd_trans)
qed simp

lemma members_end_ge: "i \<le> members_end i l"
proof (induction l arbitrary: i)
  case (Cons e l)
  obtain g u where e: "e = (g, u)" by (cases e)
  have "i \<le> round_up i (alignof u) + sizeof u" using round_up_ge [of "alignof u" i] align_pos by simp
  also have "\<dots> \<le> members_end (round_up i (alignof u) + sizeof u) l" by (rule Cons.IH)
  finally show ?case by (simp add: e)
qed simp

lemma member_from_bounds:
  "member_from k l f = Some (i, t) \<Longrightarrow> k \<le> i \<and> i + sizeof t \<le> members_end k l \<and> alignof t dvd i \<and> (f, t) \<in> set l"
proof (induction k l f rule: member_from.induct)
  case (2 k g u l f)
  let ?j = "round_up k (alignof u)"
  have j: "k \<le> ?j" using round_up_ge align_pos by simp
  show ?case
  proof (cases "f = g")
    case True
    then show ?thesis using 2(2) j members_end_ge [of "?j + sizeof u" l] round_up_dvd by (auto simp: Let_def)
  next
    case False
    then show ?thesis using 2 j by (auto simp: Let_def)
  qed
qed simp

lemma members_from_in_order:
  "member_from k l f = Some (i, t) \<Longrightarrow> member_from k l g = Some (j, u) \<Longrightarrow> f \<noteq> g \<Longrightarrow> i + sizeof t \<le> j \<or> j + sizeof u \<le> i"
proof (induction k l f rule: member_from.induct)
  case (2 k h v l f)
  let ?j = "round_up k (alignof v)"
  consider "f = h" | "g = h" | "f \<noteq> h" "g \<noteq> h" by blast
  then show ?case
  proof cases
    case 1
    then have "?j + sizeof v \<le> j" using 2(3,4) member_from_bounds [of "?j + sizeof v" l g j u] by (auto simp: Let_def)
    then show ?thesis using 1 2(2) by (auto simp: Let_def)
  next
    case 2
    then have "?j + sizeof v \<le> i" using "2.prems" member_from_bounds [of "?j + sizeof v" l f i t] by (auto simp: Let_def)
    then show ?thesis using 2 "2.prems" by (auto simp: Let_def)
  next
    case 3
    then show ?thesis using 2 by (auto simp: Let_def)
  qed
qed simp

text \<open>All members with their offsets and types; \<open>member_from\<close> finds them there.\<close>

fun placed_members :: "nat \<Rightarrow> members \<Rightarrow> (string \<times> nat \<times> ctype) list" where
  "placed_members i [] = []"
| "placed_members i ((f, t) # l) = (let j = round_up i (alignof t) in (f, j, t) # placed_members (j + sizeof t) l)"

lemma map_of_placed_members: "map_of (placed_members i l) = member_from i l"
  by (intro ext) (induction i l rule: placed_members.induct; simp add: Let_def)

lemma placed_members_names: "map fst (placed_members i l) = map fst l"
  by (induction i l rule: placed_members.induct) (simp_all add: Let_def)

definition sized_members :: "members \<Rightarrow> (string \<times> nat \<times> nat) list" where
  "sized_members l = map (\<lambda>(f, i, t). (f, i, sizeof t)) (placed_members 0 l)"

lemma map_of_sized_members: "map_of (sized_members l) f = member_at (struct l) f"
proof -
  have e: "map_of (map (\<lambda>(f, i, t). (f, i, sizeof t)) xs) f = map_option (\<lambda>(i, t). (i, sizeof t)) (map_of xs f)" for xs
    by (induction xs) auto
  show ?thesis unfolding sized_members_def e by (simp add: member_at_def map_of_placed_members)
qed

lemma sized_members_names: "map fst (sized_members l) = map fst l"
  using placed_members_names [of 0 l] by (simp add: sized_members_def comp_def split_def)

text \<open>A structure type: members of different names, and a size that fits an address.\<close>

locale c_struct =
  fixes l :: members
  assumes distinct_members: "distinct (map fst l)"
    and small: "sizeof (struct l) < 2 ^ 32"
begin

lemma sized_member:
  assumes "(f, i, n) \<in> set (sized_members l)"
  shows "member_at (struct l) f = Some (i, n)" "\<exists>t. (f, t) \<in> set l \<and> n = sizeof t \<and> alignof t dvd i \<and> alignof t dvd alignof (struct l)"
proof -
  have "distinct (map fst (sized_members l))" using distinct_members by (simp add: sized_members_names)
  then have "map_of (sized_members l) f = Some (i, n)" using assms by simp
  then show m: "member_at (struct l) f = Some (i, n)" by (simp add: map_of_sized_members)
  then obtain t where "member_from 0 l f = Some (i, t)" "n = sizeof t" by (auto simp: member_at_def)
  then show "\<exists>t. (f, t) \<in> set l \<and> n = sizeof t \<and> alignof t dvd i \<and> alignof t dvd alignof (struct l)"
    using member_from_bounds [of 0 l f i t] align_dvd [of f t l] by auto
qed

end

sublocale c_struct \<subseteq> layout: struct_access "member_at (struct l)" "sizeof (struct l)"
proof
  fix f g :: string and i n j k
  assume "member_at (struct l) f = Some (i, n)"
  then obtain t where t: "member_from 0 l f = Some (i, t)" "n = sizeof t" by (auto simp: member_at_def)
  show "i + n \<le> sizeof (struct l)"
    using member_from_bounds [OF t(1)] t(2) round_up_ge [OF align_pos(2), of "members_end 0 l" l] by simp
  assume "member_at (struct l) g = Some (j, k)" "f \<noteq> g"
  then show "i + n \<le> j \<or> j + k \<le> i" using members_from_in_order [OF t(1), of g] t(2) by (auto simp: member_at_def)
qed (rule small)

context c_struct
begin

lemma declared_member_sound:
  assumes "(f, i, n) \<in> set (sized_members l)" "length bs = n"
  shows "member_at (struct l) f = Some (i, n) \<and>
    (\<exists>t. (f, t) \<in> set l \<and> n = sizeof t \<and> alignof t dvd i \<and> alignof t dvd alignof (struct l)) \<and>
    (\<exists>m'. write_at (member_at (struct l)) f a bs m = Some m' \<and> read_at (member_at (struct l)) f a m' = Some bs \<and>
      (\<forall>k<n. m' (a + of_nat (i + k)) = bs ! k) \<and> (\<forall>x. x \<notin> region (a + of_nat i) n \<longrightarrow> m' x = m x) \<and>
      (\<forall>g. g \<noteq> f \<longrightarrow> read_at (member_at (struct l)) g a m' = read_at (member_at (struct l)) g a m)) \<and>
    alignof (struct l) dvd sizeof (struct l)"
  using sized_member [OF assms(1)] layout.member_sound [OF sized_member(1) [OF assms(1)] assms(2), of a m] round_up_dvd by auto

end

end
