(* ===== verification/Limine_Structures.thy ===== *)
theory Limine_Structures
  imports C_Types Boot_Protocol Buddy_Model
begin

text \<open>
  The declarations of \<open>src/kernel/src/boot/limine.h\<close>: the identification of every request of the boot
  protocol, and the structures of the requests and of the answers, as the compiler lays them out.
\<close>

section \<open>The identifications\<close>

definition LIMINE_BOOTLOADER_INFO_REQUEST_ID :: "u64 list" where
  "LIMINE_BOOTLOADER_INFO_REQUEST_ID = LIMINE_COMMON_MAGIC @ [0xf55038d8e2a1202f, 0x279426fcf5f59740]"

definition LIMINE_EXECUTABLE_CMDLINE_REQUEST_ID :: "u64 list" where
  "LIMINE_EXECUTABLE_CMDLINE_REQUEST_ID = LIMINE_COMMON_MAGIC @ [0x4b161536e598651e, 0xb390ad4a2f1f303a]"

definition LIMINE_FIRMWARE_TYPE_REQUEST_ID :: "u64 list" where
  "LIMINE_FIRMWARE_TYPE_REQUEST_ID = LIMINE_COMMON_MAGIC @ [0x8c2f75d90bef28a8, 0x7045a4688eac00c3]"

definition LIMINE_STACK_SIZE_REQUEST_ID :: "u64 list" where
  "LIMINE_STACK_SIZE_REQUEST_ID = LIMINE_COMMON_MAGIC @ [0x224ef0460a8e8926, 0xe1cb0fc25f46ea3d]"

definition LIMINE_FLANTERM_FB_INIT_PARAMS_REQUEST_ID :: "u64 list" where
  "LIMINE_FLANTERM_FB_INIT_PARAMS_REQUEST_ID = LIMINE_COMMON_MAGIC @ [0x3259399fe7c5f126, 0xe01c1c8c5db9d1a9]"

definition LIMINE_PAGING_MODE_REQUEST_ID :: "u64 list" where
  "LIMINE_PAGING_MODE_REQUEST_ID = LIMINE_COMMON_MAGIC @ [0x95c1a0edab0944cb, 0xa4e5cb3842f7488a]"

definition LIMINE_MP_REQUEST_ID :: "u64 list" where
  "LIMINE_MP_REQUEST_ID = LIMINE_COMMON_MAGIC @ [0x95a67b819a1b857e, 0xa0b61b723b6a73e0]"

definition LIMINE_ENTRY_POINT_REQUEST_ID :: "u64 list" where
  "LIMINE_ENTRY_POINT_REQUEST_ID = LIMINE_COMMON_MAGIC @ [0x13d86c035a1cd3e1, 0x2b0caa89d8f3026a]"

definition LIMINE_EXECUTABLE_FILE_REQUEST_ID :: "u64 list" where
  "LIMINE_EXECUTABLE_FILE_REQUEST_ID = LIMINE_COMMON_MAGIC @ [0xad97e90e83f1ed67, 0x31eb5d1c5ff23b69]"

definition LIMINE_MODULE_REQUEST_ID :: "u64 list" where
  "LIMINE_MODULE_REQUEST_ID = LIMINE_COMMON_MAGIC @ [0x3e7e279702be32af, 0xca1c4f3bd1280cee]"

definition LIMINE_SMBIOS_REQUEST_ID :: "u64 list" where
  "LIMINE_SMBIOS_REQUEST_ID = LIMINE_COMMON_MAGIC @ [0x9e9046f11e095391, 0xaa4a520fefbde5ee]"

definition LIMINE_EFI_SYSTEM_TABLE_REQUEST_ID :: "u64 list" where
  "LIMINE_EFI_SYSTEM_TABLE_REQUEST_ID = LIMINE_COMMON_MAGIC @ [0x5ceba5163eaaf6d6, 0x0a6981610cf65fcc]"

definition LIMINE_TPM_EVENT_LOG_REQUEST_ID :: "u64 list" where
  "LIMINE_TPM_EVENT_LOG_REQUEST_ID = LIMINE_COMMON_MAGIC @ [0x98e094fc7e76e979, 0xee8d8775c54e1d1f]"

definition LIMINE_EFI_MEMMAP_REQUEST_ID :: "u64 list" where
  "LIMINE_EFI_MEMMAP_REQUEST_ID = LIMINE_COMMON_MAGIC @ [0x7df62a431d6872d5, 0xa4fcdfb3e57306c8]"

definition LIMINE_DATE_AT_BOOT_REQUEST_ID :: "u64 list" where
  "LIMINE_DATE_AT_BOOT_REQUEST_ID = LIMINE_COMMON_MAGIC @ [0x502746e184c088aa, 0xfbc5ec83e6327893]"

definition LIMINE_EXECUTABLE_ADDRESS_REQUEST_ID :: "u64 list" where
  "LIMINE_EXECUTABLE_ADDRESS_REQUEST_ID = LIMINE_COMMON_MAGIC @ [0x71ba76863cc55f63, 0xb2644a48c516a487]"

definition LIMINE_DTB_REQUEST_ID :: "u64 list" where
  "LIMINE_DTB_REQUEST_ID = LIMINE_COMMON_MAGIC @ [0xb40ddb48fb54bac7, 0x545081493f81ffb7]"

definition LIMINE_RISCV_BSP_HARTID_REQUEST_ID :: "u64 list" where
  "LIMINE_RISCV_BSP_HARTID_REQUEST_ID = LIMINE_COMMON_MAGIC @ [0x1369359f025525f9, 0x2ff2a56178391bb6]"

definition LIMINE_BOOTLOADER_PERFORMANCE_REQUEST_ID :: "u64 list" where
  "LIMINE_BOOTLOADER_PERFORMANCE_REQUEST_ID = LIMINE_COMMON_MAGIC @ [0x6b50ad9bf36d13ad, 0xdc4c7e88fc759e17]"

definition LIMINE_X86_64_KEEP_IOMMU_REQUEST_ID :: "u64 list" where
  "LIMINE_X86_64_KEEP_IOMMU_REQUEST_ID = LIMINE_COMMON_MAGIC @ [0x8ebaabe51f490179, 0x2aa86a59ffb4ab0f]"

definition LIMINE_TSC_FREQUENCY_REQUEST_ID :: "u64 list" where
  "LIMINE_TSC_FREQUENCY_REQUEST_ID = LIMINE_COMMON_MAGIC @ [0x10f2ee1d87d195e4, 0xf747a2b78f6ddb31]"

lemmas all_limine_ids = limine_ids LIMINE_BOOTLOADER_INFO_REQUEST_ID_def LIMINE_EXECUTABLE_CMDLINE_REQUEST_ID_def
  LIMINE_FIRMWARE_TYPE_REQUEST_ID_def LIMINE_STACK_SIZE_REQUEST_ID_def
  LIMINE_FLANTERM_FB_INIT_PARAMS_REQUEST_ID_def LIMINE_PAGING_MODE_REQUEST_ID_def LIMINE_MP_REQUEST_ID_def
  LIMINE_ENTRY_POINT_REQUEST_ID_def LIMINE_EXECUTABLE_FILE_REQUEST_ID_def LIMINE_MODULE_REQUEST_ID_def
  LIMINE_SMBIOS_REQUEST_ID_def LIMINE_EFI_SYSTEM_TABLE_REQUEST_ID_def LIMINE_TPM_EVENT_LOG_REQUEST_ID_def
  LIMINE_EFI_MEMMAP_REQUEST_ID_def LIMINE_DATE_AT_BOOT_REQUEST_ID_def LIMINE_EXECUTABLE_ADDRESS_REQUEST_ID_def
  LIMINE_DTB_REQUEST_ID_def LIMINE_RISCV_BSP_HARTID_REQUEST_ID_def
  LIMINE_BOOTLOADER_PERFORMANCE_REQUEST_ID_def LIMINE_X86_64_KEEP_IOMMU_REQUEST_ID_def
  LIMINE_TSC_FREQUENCY_REQUEST_ID_def

section \<open>The structures\<close>

text \<open>The members of each structure, in the order of declaration; of the processor structures those of x86-64.\<close>

definition struct_limine_uuid :: members where
  "struct_limine_uuid = [(''a'', uint32_t), (''b'', uint16_t),
     (''c'', uint16_t), (''d'', array uint8_t 8)]"

definition struct_limine_file :: members where
  "struct_limine_file = [(''revision'', uint64_t),
     (''address'', pointer), (''size'', uint64_t), (''path'', pointer), (''string'', pointer),
     (''media_type'', uint32_t), (''unused'', uint32_t), (''tftp_ip'', uint32_t), (''tftp_port'', uint32_t),
     (''partition_index'', uint32_t), (''mbr_disk_id'', uint32_t), (''gpt_disk_uuid'', struct struct_limine_uuid),
     (''gpt_part_uuid'', struct struct_limine_uuid), (''part_uuid'', struct struct_limine_uuid)]"

definition struct_limine_bootloader_info_response :: members where
  "struct_limine_bootloader_info_response = [
     (''revision'', uint64_t), (''name'', pointer), (''version'', pointer)]"

definition struct_limine_bootloader_info_request :: members where
  "struct_limine_bootloader_info_request = [
     (''id'', array uint64_t 4), (''revision'', uint64_t), (''response'', pointer)]"

definition struct_limine_executable_cmdline_response :: members where
  "struct_limine_executable_cmdline_response = [
     (''revision'', uint64_t), (''cmdline'', pointer)]"

definition struct_limine_executable_cmdline_request :: members where
  "struct_limine_executable_cmdline_request = [
     (''id'', array uint64_t 4), (''revision'', uint64_t), (''response'', pointer)]"

definition struct_limine_firmware_type_response :: members where
  "struct_limine_firmware_type_response = [
     (''revision'', uint64_t), (''firmware_type'', uint64_t)]"

definition struct_limine_firmware_type_request :: members where
  "struct_limine_firmware_type_request = [
     (''id'', array uint64_t 4), (''revision'', uint64_t), (''response'', pointer)]"

definition struct_limine_stack_size_response :: members where
  "struct_limine_stack_size_response = [
     (''revision'', uint64_t)]"

definition struct_limine_stack_size_request :: members where
  "struct_limine_stack_size_request = [
     (''id'', array uint64_t 4), (''revision'', uint64_t), (''response'', pointer), (''stack_size'', uint64_t)]"

definition struct_limine_hhdm_response :: members where
  "struct_limine_hhdm_response = [(''revision'', uint64_t),
     (''offset'', uint64_t)]"

definition struct_limine_hhdm_request :: members where
  "struct_limine_hhdm_request = [(''id'', array uint64_t 4),
     (''revision'', uint64_t), (''response'', pointer)]"

definition struct_limine_video_mode :: members where
  "struct_limine_video_mode = [(''pitch'', uint64_t),
     (''width'', uint64_t), (''height'', uint64_t), (''bpp'', uint16_t), (''memory_model'', uint8_t),
     (''red_mask_size'', uint8_t), (''red_mask_shift'', uint8_t), (''green_mask_size'', uint8_t),
     (''green_mask_shift'', uint8_t), (''blue_mask_size'', uint8_t), (''blue_mask_shift'', uint8_t)]"

definition struct_limine_framebuffer :: members where
  "struct_limine_framebuffer = [(''address'', pointer),
     (''width'', uint64_t), (''height'', uint64_t), (''pitch'', uint64_t), (''bpp'', uint16_t),
     (''memory_model'', uint8_t), (''red_mask_size'', uint8_t), (''red_mask_shift'', uint8_t),
     (''green_mask_size'', uint8_t), (''green_mask_shift'', uint8_t), (''blue_mask_size'', uint8_t),
     (''blue_mask_shift'', uint8_t), (''unused'', array uint8_t 7), (''edid_size'', uint64_t), (''edid'', pointer),
     (''mode_count'', uint64_t), (''modes'', pointer)]"

definition struct_limine_framebuffer_response :: members where
  "struct_limine_framebuffer_response = [
     (''revision'', uint64_t), (''framebuffer_count'', uint64_t), (''framebuffers'', pointer)]"

definition struct_limine_framebuffer_request :: members where
  "struct_limine_framebuffer_request = [
     (''id'', array uint64_t 4), (''revision'', uint64_t), (''response'', pointer)]"

definition struct_limine_flanterm_fb_init_params :: members where
  "struct_limine_flanterm_fb_init_params = [
     (''canvas'', pointer), (''canvas_size'', uint64_t), (''ansi_colours'', array uint32_t 8),
     (''ansi_bright_colours'', array uint32_t 8), (''default_bg'', uint32_t), (''default_fg'', uint32_t),
     (''default_bg_bright'', uint32_t), (''default_fg_bright'', uint32_t), (''font'', pointer),
     (''font_width'', uint64_t), (''font_height'', uint64_t), (''font_spacing'', uint64_t),
     (''font_scale_x'', uint64_t), (''font_scale_y'', uint64_t), (''margin'', uint64_t), (''rotation'', uint64_t)]"

definition struct_limine_flanterm_fb_init_params_response :: members where
  "struct_limine_flanterm_fb_init_params_response = [
     (''revision'', uint64_t), (''entry_count'', uint64_t), (''entries'', pointer)]"

definition struct_limine_flanterm_fb_init_params_request :: members where
  "struct_limine_flanterm_fb_init_params_request = [
     (''id'', array uint64_t 4), (''revision'', uint64_t), (''response'', pointer)]"

definition struct_limine_paging_mode_response :: members where
  "struct_limine_paging_mode_response = [
     (''revision'', uint64_t), (''mode'', uint64_t)]"

definition struct_limine_paging_mode_request :: members where
  "struct_limine_paging_mode_request = [
     (''id'', array uint64_t 4), (''revision'', uint64_t), (''response'', pointer), (''mode'', uint64_t),
     (''max_mode'', uint64_t), (''min_mode'', uint64_t)]"

definition struct_limine_mp_info :: members where
  "struct_limine_mp_info = [(''processor_id'', uint32_t),
     (''lapic_id'', uint32_t), (''reserved'', uint64_t), (''goto_address'', pointer),
     (''extra_argument'', uint64_t)]"

definition struct_limine_mp_response :: members where
  "struct_limine_mp_response = [(''revision'', uint64_t),
     (''flags'', uint32_t), (''bsp_lapic_id'', uint32_t), (''cpu_count'', uint64_t), (''cpus'', pointer)]"

definition struct_limine_mp_request :: members where
  "struct_limine_mp_request = [(''id'', array uint64_t 4),
     (''revision'', uint64_t), (''response'', pointer), (''flags'', uint64_t)]"

definition struct_limine_memmap_entry :: members where
  "struct_limine_memmap_entry = [(''base'', uint64_t),
     (''length'', uint64_t), (''type'', uint64_t)]"

definition struct_limine_memmap_response :: members where
  "struct_limine_memmap_response = [
     (''revision'', uint64_t), (''entry_count'', uint64_t), (''entries'', pointer)]"

definition struct_limine_memmap_request :: members where
  "struct_limine_memmap_request = [
     (''id'', array uint64_t 4), (''revision'', uint64_t), (''response'', pointer)]"

definition struct_limine_entry_point_response :: members where
  "struct_limine_entry_point_response = [
     (''revision'', uint64_t)]"

definition struct_limine_entry_point_request :: members where
  "struct_limine_entry_point_request = [
     (''id'', array uint64_t 4), (''revision'', uint64_t), (''response'', pointer), (''entry'', pointer)]"

definition struct_limine_executable_file_response :: members where
  "struct_limine_executable_file_response = [
     (''revision'', uint64_t), (''executable_file'', pointer)]"

definition struct_limine_executable_file_request :: members where
  "struct_limine_executable_file_request = [
     (''id'', array uint64_t 4), (''revision'', uint64_t), (''response'', pointer)]"

definition struct_limine_internal_module :: members where
  "struct_limine_internal_module = [(''path'', pointer),
     (''string'', pointer), (''flags'', uint64_t)]"

definition struct_limine_module_response :: members where
  "struct_limine_module_response = [
     (''revision'', uint64_t), (''module_count'', uint64_t), (''modules'', pointer)]"

definition struct_limine_module_request :: members where
  "struct_limine_module_request = [
     (''id'', array uint64_t 4), (''revision'', uint64_t), (''response'', pointer),
     (''internal_module_count'', uint64_t), (''internal_modules'', pointer)]"

definition struct_limine_rsdp_response :: members where
  "struct_limine_rsdp_response = [(''revision'', uint64_t),
     (''address'', pointer)]"

definition struct_limine_rsdp_request :: members where
  "struct_limine_rsdp_request = [(''id'', array uint64_t 4),
     (''revision'', uint64_t), (''response'', pointer)]"

definition struct_limine_smbios_response :: members where
  "struct_limine_smbios_response = [
     (''revision'', uint64_t), (''entry_32'', pointer), (''entry_64'', pointer)]"

definition struct_limine_smbios_request :: members where
  "struct_limine_smbios_request = [
     (''id'', array uint64_t 4), (''revision'', uint64_t), (''response'', pointer)]"

definition struct_limine_efi_system_table_response :: members where
  "struct_limine_efi_system_table_response = [
     (''revision'', uint64_t), (''address'', pointer)]"

definition struct_limine_efi_system_table_request :: members where
  "struct_limine_efi_system_table_request = [
     (''id'', array uint64_t 4), (''revision'', uint64_t), (''response'', pointer)]"

definition struct_limine_tpm_event_log_response :: members where
  "struct_limine_tpm_event_log_response = [
     (''revision'', uint64_t), (''format'', uint64_t), (''size'', uint64_t), (''address'', pointer)]"

definition struct_limine_tpm_event_log_request :: members where
  "struct_limine_tpm_event_log_request = [
     (''id'', array uint64_t 4), (''revision'', uint64_t), (''response'', pointer)]"

definition struct_limine_efi_memmap_response :: members where
  "struct_limine_efi_memmap_response = [
     (''revision'', uint64_t), (''memmap'', pointer), (''memmap_size'', uint64_t), (''desc_size'', uint64_t),
     (''desc_version'', uint64_t)]"

definition struct_limine_efi_memmap_request :: members where
  "struct_limine_efi_memmap_request = [
     (''id'', array uint64_t 4), (''revision'', uint64_t), (''response'', pointer)]"

definition struct_limine_date_at_boot_response :: members where
  "struct_limine_date_at_boot_response = [
     (''revision'', uint64_t), (''timestamp'', int64_t)]"

definition struct_limine_date_at_boot_request :: members where
  "struct_limine_date_at_boot_request = [
     (''id'', array uint64_t 4), (''revision'', uint64_t), (''response'', pointer)]"

definition struct_limine_executable_address_response :: members where
  "struct_limine_executable_address_response = [
     (''revision'', uint64_t), (''physical_base'', uint64_t), (''virtual_base'', uint64_t)]"

definition struct_limine_executable_address_request :: members where
  "struct_limine_executable_address_request = [
     (''id'', array uint64_t 4), (''revision'', uint64_t), (''response'', pointer)]"

definition struct_limine_dtb_response :: members where
  "struct_limine_dtb_response = [(''revision'', uint64_t),
     (''dtb_ptr'', pointer)]"

definition struct_limine_dtb_request :: members where
  "struct_limine_dtb_request = [(''id'', array uint64_t 4),
     (''revision'', uint64_t), (''response'', pointer)]"

definition struct_limine_riscv_bsp_hartid_response :: members where
  "struct_limine_riscv_bsp_hartid_response = [
     (''revision'', uint64_t), (''bsp_hartid'', uint64_t)]"

definition struct_limine_riscv_bsp_hartid_request :: members where
  "struct_limine_riscv_bsp_hartid_request = [
     (''id'', array uint64_t 4), (''revision'', uint64_t), (''response'', pointer)]"

definition struct_limine_bootloader_performance_response :: members where
  "struct_limine_bootloader_performance_response = [
     (''revision'', uint64_t), (''reset_usec'', uint64_t), (''init_usec'', uint64_t), (''exec_usec'', uint64_t)]"

definition struct_limine_bootloader_performance_request :: members where
  "struct_limine_bootloader_performance_request = [
     (''id'', array uint64_t 4), (''revision'', uint64_t), (''response'', pointer)]"

definition struct_limine_x86_64_keep_iommu_response :: members where
  "struct_limine_x86_64_keep_iommu_response = [
     (''revision'', uint64_t)]"

definition struct_limine_x86_64_keep_iommu_request :: members where
  "struct_limine_x86_64_keep_iommu_request = [
     (''id'', array uint64_t 4), (''revision'', uint64_t), (''response'', pointer)]"

definition struct_limine_tsc_frequency_response :: members where
  "struct_limine_tsc_frequency_response = [
     (''revision'', uint64_t), (''frequency'', uint64_t)]"

definition struct_limine_tsc_frequency_request :: members where
  "struct_limine_tsc_frequency_request = [
     (''id'', array uint64_t 4), (''revision'', uint64_t), (''response'', pointer)]"

lemmas limine_structure_defs = struct_limine_uuid_def struct_limine_file_def
  struct_limine_bootloader_info_response_def struct_limine_bootloader_info_request_def
  struct_limine_executable_cmdline_response_def struct_limine_executable_cmdline_request_def
  struct_limine_firmware_type_response_def struct_limine_firmware_type_request_def
  struct_limine_stack_size_response_def struct_limine_stack_size_request_def struct_limine_hhdm_response_def
  struct_limine_hhdm_request_def struct_limine_video_mode_def struct_limine_framebuffer_def
  struct_limine_framebuffer_response_def struct_limine_framebuffer_request_def
  struct_limine_flanterm_fb_init_params_def struct_limine_flanterm_fb_init_params_response_def
  struct_limine_flanterm_fb_init_params_request_def struct_limine_paging_mode_response_def
  struct_limine_paging_mode_request_def struct_limine_mp_info_def struct_limine_mp_response_def
  struct_limine_mp_request_def struct_limine_memmap_entry_def struct_limine_memmap_response_def
  struct_limine_memmap_request_def struct_limine_entry_point_response_def struct_limine_entry_point_request_def
  struct_limine_executable_file_response_def struct_limine_executable_file_request_def
  struct_limine_internal_module_def struct_limine_module_response_def struct_limine_module_request_def
  struct_limine_rsdp_response_def struct_limine_rsdp_request_def struct_limine_smbios_response_def
  struct_limine_smbios_request_def struct_limine_efi_system_table_response_def
  struct_limine_efi_system_table_request_def struct_limine_tpm_event_log_response_def
  struct_limine_tpm_event_log_request_def struct_limine_efi_memmap_response_def
  struct_limine_efi_memmap_request_def struct_limine_date_at_boot_response_def
  struct_limine_date_at_boot_request_def struct_limine_executable_address_response_def
  struct_limine_executable_address_request_def struct_limine_dtb_response_def struct_limine_dtb_request_def
  struct_limine_riscv_bsp_hartid_response_def struct_limine_riscv_bsp_hartid_request_def
  struct_limine_bootloader_performance_response_def struct_limine_bootloader_performance_request_def
  struct_limine_x86_64_keep_iommu_response_def struct_limine_x86_64_keep_iommu_request_def
  struct_limine_tsc_frequency_response_def struct_limine_tsc_frequency_request_def

definition limine_structures :: "members list" where
  "limine_structures = [struct_limine_uuid, struct_limine_file,
     struct_limine_bootloader_info_response, struct_limine_bootloader_info_request,
     struct_limine_executable_cmdline_response, struct_limine_executable_cmdline_request,
     struct_limine_firmware_type_response, struct_limine_firmware_type_request, struct_limine_stack_size_response,
     struct_limine_stack_size_request, struct_limine_hhdm_response, struct_limine_hhdm_request,
     struct_limine_video_mode, struct_limine_framebuffer, struct_limine_framebuffer_response,
     struct_limine_framebuffer_request, struct_limine_flanterm_fb_init_params,
     struct_limine_flanterm_fb_init_params_response, struct_limine_flanterm_fb_init_params_request,
     struct_limine_paging_mode_response, struct_limine_paging_mode_request, struct_limine_mp_info,
     struct_limine_mp_response, struct_limine_mp_request, struct_limine_memmap_entry, struct_limine_memmap_response,
     struct_limine_memmap_request, struct_limine_entry_point_response, struct_limine_entry_point_request,
     struct_limine_executable_file_response, struct_limine_executable_file_request, struct_limine_internal_module,
     struct_limine_module_response, struct_limine_module_request, struct_limine_rsdp_response,
     struct_limine_rsdp_request, struct_limine_smbios_response, struct_limine_smbios_request,
     struct_limine_efi_system_table_response, struct_limine_efi_system_table_request,
     struct_limine_tpm_event_log_response, struct_limine_tpm_event_log_request, struct_limine_efi_memmap_response,
     struct_limine_efi_memmap_request, struct_limine_date_at_boot_response, struct_limine_date_at_boot_request,
     struct_limine_executable_address_response, struct_limine_executable_address_request,
     struct_limine_dtb_response, struct_limine_dtb_request, struct_limine_riscv_bsp_hartid_response,
     struct_limine_riscv_bsp_hartid_request, struct_limine_bootloader_performance_response,
     struct_limine_bootloader_performance_request, struct_limine_x86_64_keep_iommu_response,
     struct_limine_x86_64_keep_iommu_request, struct_limine_tsc_frequency_response,
     struct_limine_tsc_frequency_request]"

definition limine_features :: "(u64 list \<times> members) list" where
  "limine_features = [
     (LIMINE_BOOTLOADER_INFO_REQUEST_ID, struct_limine_bootloader_info_request),
     (LIMINE_EXECUTABLE_CMDLINE_REQUEST_ID, struct_limine_executable_cmdline_request),
     (LIMINE_FIRMWARE_TYPE_REQUEST_ID, struct_limine_firmware_type_request),
     (LIMINE_STACK_SIZE_REQUEST_ID, struct_limine_stack_size_request),
     (LIMINE_HHDM_REQUEST_ID, struct_limine_hhdm_request),
     (LIMINE_FRAMEBUFFER_REQUEST_ID, struct_limine_framebuffer_request),
     (LIMINE_FLANTERM_FB_INIT_PARAMS_REQUEST_ID, struct_limine_flanterm_fb_init_params_request),
     (LIMINE_PAGING_MODE_REQUEST_ID, struct_limine_paging_mode_request),
     (LIMINE_MP_REQUEST_ID, struct_limine_mp_request), (LIMINE_MEMMAP_REQUEST_ID, struct_limine_memmap_request),
     (LIMINE_ENTRY_POINT_REQUEST_ID, struct_limine_entry_point_request),
     (LIMINE_EXECUTABLE_FILE_REQUEST_ID, struct_limine_executable_file_request),
     (LIMINE_MODULE_REQUEST_ID, struct_limine_module_request), (LIMINE_RSDP_REQUEST_ID, struct_limine_rsdp_request),
     (LIMINE_SMBIOS_REQUEST_ID, struct_limine_smbios_request),
     (LIMINE_EFI_SYSTEM_TABLE_REQUEST_ID, struct_limine_efi_system_table_request),
     (LIMINE_TPM_EVENT_LOG_REQUEST_ID, struct_limine_tpm_event_log_request),
     (LIMINE_EFI_MEMMAP_REQUEST_ID, struct_limine_efi_memmap_request),
     (LIMINE_DATE_AT_BOOT_REQUEST_ID, struct_limine_date_at_boot_request),
     (LIMINE_EXECUTABLE_ADDRESS_REQUEST_ID, struct_limine_executable_address_request),
     (LIMINE_DTB_REQUEST_ID, struct_limine_dtb_request),
     (LIMINE_RISCV_BSP_HARTID_REQUEST_ID, struct_limine_riscv_bsp_hartid_request),
     (LIMINE_BOOTLOADER_PERFORMANCE_REQUEST_ID, struct_limine_bootloader_performance_request),
     (LIMINE_X86_64_KEEP_IOMMU_REQUEST_ID, struct_limine_x86_64_keep_iommu_request),
     (LIMINE_TSC_FREQUENCY_REQUEST_ID, struct_limine_tsc_frequency_request)]"

section \<open>The types of memory\<close>

text \<open>The values of the member \<open>type\<close> of an entry of the memory map, besides \<open>LIMINE_MEMMAP_USABLE\<close>.\<close>

definition LIMINE_MEMMAP_RESERVED :: u64 where
  "LIMINE_MEMMAP_RESERVED = 1"

definition LIMINE_MEMMAP_ACPI_RECLAIMABLE :: u64 where
  "LIMINE_MEMMAP_ACPI_RECLAIMABLE = 2"

definition LIMINE_MEMMAP_ACPI_NVS :: u64 where
  "LIMINE_MEMMAP_ACPI_NVS = 3"

definition LIMINE_MEMMAP_BAD_MEMORY :: u64 where
  "LIMINE_MEMMAP_BAD_MEMORY = 4"

definition LIMINE_MEMMAP_BOOTLOADER_RECLAIMABLE :: u64 where
  "LIMINE_MEMMAP_BOOTLOADER_RECLAIMABLE = 5"

definition LIMINE_MEMMAP_EXECUTABLE_AND_MODULES :: u64 where
  "LIMINE_MEMMAP_EXECUTABLE_AND_MODULES = 6"

definition LIMINE_MEMMAP_FRAMEBUFFER :: u64 where
  "LIMINE_MEMMAP_FRAMEBUFFER = 7"

definition LIMINE_MEMMAP_RESERVED_MAPPED :: u64 where
  "LIMINE_MEMMAP_RESERVED_MAPPED = 8"

definition memmap_not_usable :: "u64 list" where
  "memmap_not_usable = [LIMINE_MEMMAP_RESERVED, LIMINE_MEMMAP_ACPI_RECLAIMABLE, LIMINE_MEMMAP_ACPI_NVS,
     LIMINE_MEMMAP_BAD_MEMORY, LIMINE_MEMMAP_BOOTLOADER_RECLAIMABLE, LIMINE_MEMMAP_EXECUTABLE_AND_MODULES,
     LIMINE_MEMMAP_FRAMEBUFFER, LIMINE_MEMMAP_RESERVED_MAPPED]"

lemmas memmap_types = memmap_not_usable_def LIMINE_MEMMAP_USABLE_def LIMINE_MEMMAP_RESERVED_def
  LIMINE_MEMMAP_ACPI_RECLAIMABLE_def LIMINE_MEMMAP_ACPI_NVS_def LIMINE_MEMMAP_BAD_MEMORY_def
  LIMINE_MEMMAP_BOOTLOADER_RECLAIMABLE_def LIMINE_MEMMAP_EXECUTABLE_AND_MODULES_def LIMINE_MEMMAP_FRAMEBUFFER_def
  LIMINE_MEMMAP_RESERVED_MAPPED_def

text \<open>
  Memory of every other type, the kernel's own image and the tables of the firmware among it, is
  never given to the page allocator.
\<close>

lemma memmap_others_kept: "mm_type e \<in> set memmap_not_usable \<Longrightarrow> init_entry (Some e) s = Some s"
  by (auto simp: init_entry_def memmap_types)

section \<open>The structures as types\<close>

lemma limine_c_struct: "l \<in> set limine_structures \<Longrightarrow> c_struct l"
proof -
  have "\<forall>l \<in> set limine_structures. distinct (map fst l) \<and> sizeof (struct l) < 2 ^ 32"
    unfolding limine_structures_def by (simp add: limine_structure_defs round_up_def)
  then show "l \<in> set limine_structures \<Longrightarrow> c_struct l" by (simp add: c_struct_def)
qed

text \<open>
  Every request begins with the four words of its identification, the revision and the pointer to
  the response, at the offsets at which the boot loader looks for them; every response begins with
  its revision.
\<close>

lemma limine_request_head:
  "\<forall>(ident, l) \<in> set limine_features. member_at (struct l) ''id'' = Some (0, 32) \<and>
     member_at (struct l) ''revision'' = Some (32, 8) \<and> member_at (struct l) ''response'' = Some (40, 8)"
  unfolding limine_features_def by (simp add: limine_structure_defs member_at_def round_up_def)

text \<open>The identifications: of the same form and pairwise different.\<close>

lemma limine_features_ids:
  "distinct (map fst limine_features)" "\<forall>ident \<in> set (map fst limine_features). length ident = 4 \<and> take 2 ident = LIMINE_COMMON_MAGIC"
  unfolding limine_features_def by (simp_all add: all_limine_ids)

text \<open>The requests that the kernel does not make are not in its section, not even by accident.\<close>

lemma find_id_sound: "i \<in> set (find_id k ident ws) \<Longrightarrow> k \<le> i \<and> take (length ident) (drop (i - k) ws) = ident"
proof (induction ws arbitrary: k)
  case (Cons w ws)
  show ?case
  proof (cases "i \<in> set (find_id (k + 1) ident ws)")
    case True
    then have "k + 1 \<le> i" "take (length ident) (drop (i - (k + 1)) ws) = ident" using Cons.IH [of "k + 1"] by simp_all
    moreover have "i - k = Suc (i - (k + 1))" using calculation by simp
    ultimately show ?thesis by simp
  next
    case False
    then show ?thesis using Cons.prems by (auto split: if_splits)
  qed
qed simp

lemma find_id_prefix: "set (find_id k (ident @ rest) ws) \<subseteq> set (find_id k ident ws)"
proof (induction ws arbitrary: k)
  case (Cons w ws)
  have "take (length ident) v = ident" if "take (length (ident @ rest)) v = ident @ rest" for v
    using arg_cong [OF that, of "take (length ident)"] by (simp add: min_def)
  then show ?case using Cons.IH [of "k + 1"] by (auto simp del: length_append take_Suc_Cons)
qed simp

lemma limine_not_requested:
  assumes "ident \<in> set (map fst limine_features)" "find_id 0 ident limine_section \<noteq> []"
  shows "ident \<in> {LIMINE_FRAMEBUFFER_REQUEST_ID, LIMINE_MEMMAP_REQUEST_ID, LIMINE_HHDM_REQUEST_ID, LIMINE_RSDP_REQUEST_ID}"
proof -
  obtain i where i: "i \<in> set (find_id 0 ident limine_section)" using assms(2) by (cases "find_id 0 ident limine_section") auto
  have l: "length ident = 4" "take 2 ident @ drop 2 ident = ident" "take 2 ident = LIMINE_COMMON_MAGIC"
    using limine_features_ids(2) assms(1) by auto
  have "i \<in> set (find_id 0 LIMINE_COMMON_MAGIC limine_section)"
    using find_id_prefix [of 0 "take 2 ident" "drop 2 ident" limine_section] i l by auto
  moreover have "find_id 0 LIMINE_COMMON_MAGIC limine_section = [7, 13, 19, 25]" by (simp add: limine_words)
  ultimately have "i \<in> {7, 13, 19, 25}" by simp
  moreover have "ident = take 4 (drop i limine_section)" using find_id_sound [OF i] l(1) by simp
  ultimately show ?thesis by (auto simp: limine_words)
qed

section \<open>The members that the kernel reads\<close>

interpretation framebuffer_request: c_struct struct_limine_framebuffer_request
  by (rule limine_c_struct) (simp add: limine_structures_def)

interpretation framebuffer_response: c_struct struct_limine_framebuffer_response
  by (rule limine_c_struct) (simp add: limine_structures_def)

interpretation framebuffer_struct: c_struct struct_limine_framebuffer
  by (rule limine_c_struct) (simp add: limine_structures_def)

interpretation memmap_request: c_struct struct_limine_memmap_request
  by (rule limine_c_struct) (simp add: limine_structures_def)

interpretation memmap_response: c_struct struct_limine_memmap_response
  by (rule limine_c_struct) (simp add: limine_structures_def)

interpretation memmap_entry: c_struct struct_limine_memmap_entry
  by (rule limine_c_struct) (simp add: limine_structures_def)

interpretation hhdm_request: c_struct struct_limine_hhdm_request
  by (rule limine_c_struct) (simp add: limine_structures_def)

interpretation hhdm_response: c_struct struct_limine_hhdm_response
  by (rule limine_c_struct) (simp add: limine_structures_def)

interpretation rsdp_request: c_struct struct_limine_rsdp_request
  by (rule limine_c_struct) (simp add: limine_structures_def)

interpretation rsdp_response: c_struct struct_limine_rsdp_response
  by (rule limine_c_struct) (simp add: limine_structures_def)

lemma limine_offsets:
  "member_at (struct struct_limine_framebuffer_request) ''response'' = Some (40, 8)"
  "member_at (struct struct_limine_memmap_request) ''response'' = Some (40, 8)"
  "member_at (struct struct_limine_hhdm_request) ''response'' = Some (40, 8)"
  "member_at (struct struct_limine_rsdp_request) ''response'' = Some (40, 8)"
  "member_at (struct struct_limine_framebuffer_response) ''framebuffer_count'' = Some (8, 8)"
  "member_at (struct struct_limine_framebuffer_response) ''framebuffers'' = Some (16, 8)"
  "member_at (struct struct_limine_framebuffer) ''address'' = Some (0, 8)"
  "member_at (struct struct_limine_framebuffer) ''width'' = Some (8, 8)"
  "member_at (struct struct_limine_framebuffer) ''height'' = Some (16, 8)"
  "member_at (struct struct_limine_framebuffer) ''pitch'' = Some (24, 8)"
  "member_at (struct struct_limine_memmap_response) ''entry_count'' = Some (8, 8)"
  "member_at (struct struct_limine_memmap_response) ''entries'' = Some (16, 8)"
  "member_at (struct struct_limine_memmap_entry) ''base'' = Some (0, 8)"
  "member_at (struct struct_limine_memmap_entry) ''length'' = Some (8, 8)"
  "member_at (struct struct_limine_memmap_entry) ''type'' = Some (16, 8)"
  "member_at (struct struct_limine_hhdm_response) ''offset'' = Some (8, 8)"
  "member_at (struct struct_limine_rsdp_response) ''address'' = Some (8, 8)"
  by (simp_all add: limine_structure_defs member_at_def round_up_def)

text \<open>Padding: only where a smaller member comes before a larger one, and at the end.\<close>

lemma limine_sizes:
  "sizeof (struct struct_limine_uuid) = 16" "sizeof (struct struct_limine_file) = 112"
  "sizeof (struct struct_limine_video_mode) = 40" "sizeof (struct struct_limine_framebuffer) = 80"
  "sizeof (struct struct_limine_flanterm_fb_init_params) = 160" "sizeof (struct struct_limine_mp_info) = 32"
  "sizeof (struct struct_limine_mp_response) = 32" "sizeof (struct struct_limine_memmap_entry) = 24"
  by (simp_all add: limine_structure_defs round_up_def)

section \<open>The layouts of the boot protocol\<close>




section \<open>Properties\<close>



end
