(* ===== verification/Boot_Memory.thy ===== *)
theory Boot_Memory
  imports Boot Limine_Structures
begin

text \<open>
  \<open>kmain\<close> (\<open>src/kernel/src/main.c\<close>) at the level of memory: the requests and the structures of the answers
  are bytes that the code reads through pointers, member by member, where and as often as it does.
  \<open>Boot\<close> has the answers as values; \<open>kmain_from_memory_refines\<close> relates the two.
\<close>

section \<open>Access to the answers\<close>

text \<open>Where the linker puts \<open>limine_base_revision\<close> and the requests.\<close>

record request_addrs =
  base_revision_at :: u64
  framebuffer_request_at :: u64
  memmap_request_at :: u64
  hhdm_request_at :: u64
  RSDP_request_at :: u64

text \<open>The member \<open>f\<close> of the structure that \<open>p\<close> points to, for members of eight bytes.\<close>

definition fetch :: "members \<Rightarrow> string \<Rightarrow> u64 \<Rightarrow> 'a machine_scheme \<Rightarrow> u64 option" where
  "fetch l f p s = do { (i, n) \<leftarrow> member_at (struct l) f; if n = 8 then read64 p (of_nat i) s else None }"

definition member64 :: "members \<Rightarrow> string \<Rightarrow> u64 \<Rightarrow> memory \<Rightarrow> u64" where
  "member64 l f p m = load64 (p + of_nat (fst (the (member_at (struct l) f)))) m"

text \<open>The operator \<open>||\<close>: the second operand is evaluated only when the first is false.\<close>

definition c_or :: "bool option \<Rightarrow> bool option \<Rightarrow> bool option" where
  "c_or a b = do { x \<leftarrow> a; if x then Some True else b }"

definition no_framebuffer :: "request_addrs \<Rightarrow> 'a machine_scheme \<Rightarrow> bool option" where
  "no_framebuffer rq s =
     c_or (do { r \<leftarrow> fetch struct_limine_framebuffer_request ''response'' (framebuffer_request_at rq) s; Some (r = NULL) })
          (do { r \<leftarrow> fetch struct_limine_framebuffer_request ''response'' (framebuffer_request_at rq) s;
                c \<leftarrow> fetch struct_limine_framebuffer_response ''framebuffer_count'' r s; Some (c < 1) })"

definition no_memmap :: "request_addrs \<Rightarrow> 'a machine_scheme \<Rightarrow> bool option" where
  "no_memmap rq s =
     c_or (do { r \<leftarrow> fetch struct_limine_memmap_request ''response'' (memmap_request_at rq) s; Some (r = NULL) })
       (c_or (do { r \<leftarrow> fetch struct_limine_memmap_request ''response'' (memmap_request_at rq) s;
                   c \<leftarrow> fetch struct_limine_memmap_response ''entry_count'' r s; Some (c = 0) })
             (do { r \<leftarrow> fetch struct_limine_memmap_request ''response'' (memmap_request_at rq) s;
                   e \<leftarrow> fetch struct_limine_memmap_response ''entries'' r s; Some (e = NULL) }))"

definition no_hhdm :: "request_addrs \<Rightarrow> 'a machine_scheme \<Rightarrow> bool option" where
  "no_hhdm rq s = do { r \<leftarrow> fetch struct_limine_hhdm_request ''response'' (hhdm_request_at rq) s; Some (r = NULL) }"

definition no_rsdp :: "request_addrs \<Rightarrow> 'a machine_scheme \<Rightarrow> bool option" where
  "no_rsdp rq s = do { r \<leftarrow> fetch struct_limine_rsdp_request ''response'' (RSDP_request_at rq) s; Some (r = NULL) }"

section \<open>The pattern\<close>

text \<open>
  The loops read the members of \<open>*framebuffer\<close> again for every pixel.  A row that overwrote the
  height could make the division fail, and one that overwrote the width could go on for ever: not
  returning is \<open>None\<close>.
\<close>

definition pixel_step :: "u64 \<Rightarrow> u64 \<Rightarrow> u64 \<Rightarrow> u64 \<Rightarrow> 'a machine_scheme \<Rightarrow> 'a machine_scheme option" where
  "pixel_step fb fb_ptr y x s =
     do { w \<leftarrow> fetch struct_limine_framebuffer ''width'' fb s;
          if w = 0 then None else do {
          let nX = (ucast (x * 255 div w) :: u32);
          h \<leftarrow> fetch struct_limine_framebuffer ''height'' fb s;
          if h = 0 then None else do {
          let nY = (ucast (y * 255 div h) :: u32);
          p \<leftarrow> fetch struct_limine_framebuffer ''pitch'' fb s;
          write32 fb_ptr (4 * (y * (p div 4) + x)) (push_bit 8 nY OR nX) s } } }"

partial_function (option) row_loop :: "u64 \<Rightarrow> u64 \<Rightarrow> u64 \<Rightarrow> u64 \<Rightarrow> 'a machine_scheme \<Rightarrow> 'a machine_scheme option" where
  "row_loop fb fb_ptr y x s =
     do { w \<leftarrow> fetch struct_limine_framebuffer ''width'' fb s;
          if x < w then do { s \<leftarrow> pixel_step fb fb_ptr y x s; row_loop fb fb_ptr y (x + 1) s } else Some s }"

partial_function (option) rows_loop :: "u64 \<Rightarrow> u64 \<Rightarrow> u64 \<Rightarrow> 'a machine_scheme \<Rightarrow> 'a machine_scheme option" where
  "rows_loop fb fb_ptr y s =
     do { h \<leftarrow> fetch struct_limine_framebuffer ''height'' fb s;
          if y < h then do { s \<leftarrow> row_loop fb fb_ptr y 0 s; rows_loop fb fb_ptr (y + 1) s } else Some s }"

section \<open>\<open>kmain\<close> over memory\<close>

text \<open>
  The memory map as \<open>buddy_init\<close> reads it through its argument: the array of pointers, and the entry
  behind each of them that is not null.
\<close>

definition read_entry :: "memory \<Rightarrow> u64 \<Rightarrow> limine_memmap_entry option" where
  "read_entry m p = (if p = NULL then None
     else Some \<lparr>mm_base = member64 struct_limine_memmap_entry ''base'' p m, mm_length = member64 struct_limine_memmap_entry ''length'' p m,
       mm_type = member64 struct_limine_memmap_entry ''type'' p m\<rparr>)"

definition read_memmap :: "memory \<Rightarrow> u64 \<Rightarrow> limine_memmap_response option" where
  "read_memmap m r = (if r = NULL then None
     else let c = member64 struct_limine_memmap_response ''entry_count'' r m;
              e = member64 struct_limine_memmap_response ''entries'' r m in
       Some \<lparr>entry_count = c, entries = (if e = NULL then None
         else Some (map (\<lambda>i. read_entry m (load64 (e + 8 * of_nat i) m)) [0..<unat c]))\<rparr>)"

definition start_from_memory :: "link_env \<Rightarrow> request_addrs \<Rightarrow> 'a kernel_state_scheme \<Rightarrow> 'a kernel_state_scheme option" where
  "start_from_memory env rq s =
     do { r \<leftarrow> fetch struct_limine_framebuffer_request ''response'' (framebuffer_request_at rq) s;
          fbs \<leftarrow> fetch struct_limine_framebuffer_response ''framebuffers'' r s;
          fb \<leftarrow> read64 fbs 0 s;
          fb_ptr \<leftarrow> fetch struct_limine_framebuffer ''address'' fb s;
          s \<leftarrow> rows_loop fb fb_ptr 0 s;
          let s = s\<lparr>tables := initGdt (gdt_addr env) (tables s)\<rparr>;
          let s = s\<lparr>tables := idt_init (idt_addr env) (isr_stubs env) (tables s)\<rparr>;
          r \<leftarrow> fetch struct_limine_memmap_request ''response'' (memmap_request_at rq) s;
          b \<leftarrow> buddy_init (read_memmap (mem s) r) (buddy s);
          let s = s\<lparr>buddy := b\<rparr>;
          let s = heap_init s;
          s \<leftarrow> enable_apic (shift32 env) s;
          r \<leftarrow> fetch struct_limine_rsdp_request ''response'' (RSDP_request_at rq) s;
          rsdp \<leftarrow> fetch struct_limine_rsdp_response ''address'' r s;
          madt \<leftarrow> findTable rsdp (apic_sign env) s;
          init_IOAPIC (device env) madt s }"

definition kmain_from_memory :: "link_env \<Rightarrow> request_addrs \<Rightarrow> 'a kernel_state_scheme \<Rightarrow> (hcf_call \<times> 'a kernel_state_scheme) option" where
  "kmain_from_memory env rq s =
     do { v \<leftarrow> read64 (base_revision_at rq) 16 s;
          if v \<noteq> 0 then Some (Hcf_revision, s) else do {
          g \<leftarrow> no_framebuffer rq s;
          if g then Some (Hcf_framebuffer, s) else do {
          g \<leftarrow> no_memmap rq s;
          if g then Some (Hcf_memmap, s) else do {
          g \<leftarrow> no_hhdm rq s;
          if g then Some (Hcf_hhdm, s) else do {
          g \<leftarrow> no_rsdp rq s;
          if g then Some (Hcf_rsdp, s) else do {
          s \<leftarrow> start_from_memory env rq s;
          Some (Hcf_done, s) } } } } } }"

section \<open>What the answers stand for\<close>

definition read_framebuffer :: "memory \<Rightarrow> u64 \<Rightarrow> framebuffer" where
  "read_framebuffer m p =
     \<lparr>fb_address = member64 struct_limine_framebuffer ''address'' p m, fb_width = member64 struct_limine_framebuffer ''width'' p m,
      fb_height = member64 struct_limine_framebuffer ''height'' p m, fb_pitch = member64 struct_limine_framebuffer ''pitch'' p m\<rparr>"

definition framebuffer_at :: "request_addrs \<Rightarrow> memory \<Rightarrow> nat \<Rightarrow> u64" where
  "framebuffer_at rq m i =
     (let r = member64 struct_limine_framebuffer_request ''response'' (framebuffer_request_at rq) m
      in load64 (member64 struct_limine_framebuffer_response ''framebuffers'' r m + 8 * of_nat i) m)"

definition read_boot_info :: "request_addrs \<Rightarrow> memory \<Rightarrow> boot_info" where
  "read_boot_info rq m =
     \<lparr>base_revision = map (\<lambda>i. load64 (base_revision_at rq + 8 * of_nat i) m) [0..<3],
      framebuffers = (let r = member64 struct_limine_framebuffer_request ''response'' (framebuffer_request_at rq) m in
        if r = NULL then None
        else Some (map (\<lambda>i. read_framebuffer m (framebuffer_at rq m i))
          [0..<unat (member64 struct_limine_framebuffer_response ''framebuffer_count'' r m)])),
      memmap = read_memmap m (member64 struct_limine_memmap_request ''response'' (memmap_request_at rq) m),
      rsdp_address = (let r = member64 struct_limine_rsdp_request ''response'' (RSDP_request_at rq) m in
        if r = NULL then None else Some (member64 struct_limine_rsdp_response ''address'' r m))\<rparr>"

definition hhdm_answer :: "request_addrs \<Rightarrow> memory \<Rightarrow> u64 option" where
  "hhdm_answer rq m = (let r = member64 struct_limine_hhdm_request ''response'' (hhdm_request_at rq) m in
     if r = NULL then None else Some (member64 struct_limine_hhdm_response ''offset'' r m))"

text \<open>
  The requests are in memory, and the machine's direct map is the one of the answer to \<open>hhdm_request\<close>.
\<close>

definition answered :: "request_addrs \<Rightarrow> 'a machine_scheme \<Rightarrow> bool" where
  "answered rq s \<longleftrightarrow> base_revision_at rq \<noteq> NULL \<and> framebuffer_request_at rq \<noteq> NULL \<and> memmap_request_at rq \<noteq> NULL \<and>
     hhdm_request_at rq \<noteq> NULL \<and> RSDP_request_at rq \<noteq> NULL \<and> hhdm s = hhdm_answer rq (mem s)"

lemma fetch_member64:
  "member_at (struct l) f = Some (i, 8) \<Longrightarrow> fetch l f p s = (if p = NULL then None else Some (member64 l f p (mem s)))"
  by (simp add: fetch_def member64_def read64_def)

lemmas fetch_eval = limine_offsets [THEN fetch_member64]

section \<open>The guards\<close>

lemma guard_framebuffer:
  "answered rq s \<Longrightarrow> no_framebuffer rq s = Some (framebuffers (read_boot_info rq (mem s)) \<in> {None, Some []})"
  by (auto simp: no_framebuffer_def c_or_def fetch_eval answered_def read_boot_info_def Let_def unat_eq_zero
    word_less_nat_alt split: if_splits)

lemma guard_memmap:
  "answered rq s \<Longrightarrow> no_memmap rq s =
     Some (case memmap (read_boot_info rq (mem s)) of None \<Rightarrow> True | Some r \<Rightarrow> entry_count r = 0 \<or> entries r = None)"
  by (auto simp: no_memmap_def c_or_def fetch_eval answered_def read_boot_info_def read_memmap_def Let_def split: if_splits)

lemma guard_hhdm: "answered rq s \<Longrightarrow> no_hhdm rq s = Some (hhdm s = None)"
  by (auto simp: no_hhdm_def fetch_eval answered_def hhdm_answer_def Let_def split: if_splits)

lemma guard_rsdp: "answered rq s \<Longrightarrow> no_rsdp rq s = Some (rsdp_address (read_boot_info rq (mem s)) = None)"
  by (auto simp: no_rsdp_def fetch_eval answered_def read_boot_info_def Let_def split: if_splits)

lemma guard_revision:
  "answered rq s \<Longrightarrow> read64 (base_revision_at rq) 16 s = Some (base_revision (read_boot_info rq (mem s)) ! 2)"
  by (simp add: answered_def read64_def read_boot_info_def)

lemmas guards = guard_revision guard_framebuffer guard_memmap guard_hhdm guard_rsdp

text \<open>The guards decide alike; \<open>kmain\<close> over memory then differs from \<open>kmain\<close> in the part after them only.\<close>

lemma kmain_guards_agree:
  assumes "answered rq s"
    and "\<And>fb fbs rsdp. framebuffers (read_boot_info rq (mem s)) = Some (fb # fbs) \<Longrightarrow> rsdp_address (read_boot_info rq (mem s)) = Some rsdp \<Longrightarrow>
      start_from_memory env rq s = start_kernel env fb (memmap (read_boot_info rq (mem s))) rsdp s"
  shows "kmain_from_memory env rq s = kmain env (read_boot_info rq (mem s)) s"
proof -
  let ?i = "read_boot_info rq (mem s)"
  note g = guards [OF assms(1)]
  consider "framebuffers ?i \<in> {None, Some []}" | fb fbs where "framebuffers ?i = Some (fb # fbs)"
    by (cases "framebuffers ?i"; cases "the (framebuffers ?i)") auto
  then show ?thesis
  proof cases
    case 1
    then show ?thesis using g by (auto simp: kmain_from_memory_def kmain_def LIMINE_BASE_REVISION_SUPPORTED_def)
  next
    case 2
    then show ?thesis using g assms(2) [OF 2]
      by (cases "rsdp_address ?i") (auto simp: kmain_from_memory_def kmain_def LIMINE_BASE_REVISION_SUPPORTED_def)
  qed
qed

section \<open>The loops\<close>

text \<open>
  When no pixel is in the structure \<open>*framebuffer\<close>, reading its members again makes no difference: the
  loops return, and draw what \<open>draw_rows\<close> draws.
\<close>

lemma pixel_step_agrees:
  assumes "p \<noteq> NULL" "read_framebuffer (mem s) p = fb" "x < fb_width fb" "y < fb_height fb"
  shows "pixel_step p (fb_address fb) y x s = put_pixel fb y x s"
proof -
  have "fb_width fb \<noteq> 0" "fb_height fb \<noteq> 0" using assms(3,4) by auto
  then show ?thesis using assms(1,2) by (auto simp: pixel_step_def put_pixel_def fetch_eval Let_def read_framebuffer_def)
qed

lemma row_loop_agrees:
  assumes "p \<noteq> NULL" "\<forall>s'. drawn fb s s' \<longrightarrow> read_framebuffer (mem s') p = fb" "drawn fb s t" "y < fb_height fb"
  shows "row_loop p (fb_address fb) y x t = draw_row fb y x t"
  using assms
proof (induction fb y x t rule: draw_row.induct)
  case (1 fb y x t)
  have r: "read_framebuffer (mem t) p = fb" using "1.prems"(2,3) by blast
  have w: "fetch struct_limine_framebuffer ''width'' p t = Some (fb_width fb)"
    using r "1.prems"(1) by (auto simp: fetch_eval read_framebuffer_def)
  show ?case
  proof (cases "x < fb_width fb")
    case True
    have "row_loop p (fb_address fb) y (x + 1) u = draw_row fb y (x + 1) u" if "put_pixel fb y x t = Some u" for u
      by (rule "1.IH" [OF True that "1.prems"(1,2) drawn_trans [OF "1.prems"(3) put_pixel_Some [OF that True "1.prems"(4)]] "1.prems"(4)])
    then show ?thesis
      using True w pixel_step_agrees [OF "1.prems"(1) r True "1.prems"(4)]
      by (subst row_loop.simps, subst draw_row.simps) (cases "put_pixel fb y x t"; simp)
  qed (subst row_loop.simps, subst draw_row.simps, simp add: w)
qed

lemma rows_loop_agrees:
  assumes "p \<noteq> NULL" "\<forall>s'. drawn fb s s' \<longrightarrow> read_framebuffer (mem s') p = fb" "drawn fb s t"
  shows "rows_loop p (fb_address fb) y t = draw_rows fb y t"
  using assms
proof (induction fb y t rule: draw_rows.induct)
  case (1 fb y t)
  have h: "fetch struct_limine_framebuffer ''height'' p t = Some (fb_height fb)"
    using "1.prems" by (auto simp: fetch_eval read_framebuffer_def)
  show ?case
  proof (cases "y < fb_height fb")
    case True
    have "rows_loop p (fb_address fb) (y + 1) u = draw_rows fb (y + 1) u" if "draw_row fb y 0 t = Some u" for u
      by (rule "1.IH" [OF True that "1.prems"(1,2) drawn_trans [OF "1.prems"(3) draw_row_Some [OF that True]]])
    then show ?thesis
      using True h row_loop_agrees [OF "1.prems" True]
      by (subst rows_loop.simps, subst draw_rows.simps) (cases "draw_row fb y 0 t"; simp)
  qed (subst rows_loop.simps, subst draw_rows.simps, simp add: h)
qed

section \<open>The start\<close>

definition framebuffers_placed :: "request_addrs \<Rightarrow> memory \<Rightarrow> bool" where
  "framebuffers_placed rq m \<longleftrightarrow> framebuffer_at rq m 0 \<noteq> NULL \<and>
     member64 struct_limine_framebuffer_response ''framebuffers''
       (member64 struct_limine_framebuffer_request ''response'' (framebuffer_request_at rq) m) m \<noteq> NULL"

text \<open>
  The answers last as long as the code reads them: the array of framebuffers is there, drawing
  changes neither the answers nor which framebuffer is the first, and no more does the start of the
  memory management, if it gets to its end.
\<close>

definition answers_stable :: "link_env \<Rightarrow> request_addrs \<Rightarrow> 'a kernel_state_scheme \<Rightarrow> bool" where
  "answers_stable env rq s \<longleftrightarrow> (let info = read_boot_info rq (mem s) in
     \<forall>fb fbs. framebuffers info = Some (fb # fbs) \<longrightarrow> framebuffers_placed rq (mem s) \<and>
       (\<forall>s'. drawn fb s s' \<longrightarrow> read_boot_info rq (mem s') = info \<and> framebuffer_at rq (mem s') 0 = framebuffer_at rq (mem s) 0) \<and>
       (\<forall>s'. start_memory env fb (memmap info) s = Some s' \<longrightarrow> read_boot_info rq (mem s') = info))"

lemma first_framebuffer:
  "framebuffers (read_boot_info rq m) = Some (fb # fbs) \<Longrightarrow> read_framebuffer m (framebuffer_at rq m 0) = fb"
proof -
  assume "framebuffers (read_boot_info rq m) = Some (fb # fbs)"
  then obtain n where "map (\<lambda>i. read_framebuffer m (framebuffer_at rq m i)) [0..<n] = fb # fbs"
    by (auto simp: read_boot_info_def Let_def split: if_splits)
  then show ?thesis by (cases n) (simp_all add: upt_rec)
qed

lemma start_from_memory_splits:
  fixes s :: "'a kernel_state_scheme"
  assumes ans: "answered rq s" "answers_stable env rq s" and fb: "framebuffers (read_boot_info rq (mem s)) = Some (fb # fbs)"
  shows "start_from_memory env rq s =
    do { s \<leftarrow> start_memory env fb (memmap (read_boot_info rq (mem s))) s;
         r \<leftarrow> fetch struct_limine_rsdp_request ''response'' (RSDP_request_at rq) s;
         rsdp \<leftarrow> fetch struct_limine_rsdp_response ''address'' r s;
         madt \<leftarrow> findTable rsdp (apic_sign env) s;
         init_IOAPIC (device env) madt s }"
proof -
  let ?p = "framebuffer_at rq (mem s) 0"
  let ?r = "member64 struct_limine_framebuffer_request ''response'' (framebuffer_request_at rq) (mem s)"
  let ?f = "member64 struct_limine_framebuffer_response ''framebuffers'' ?r (mem s)"
  have ptr: "framebuffers_placed rq (mem s)" and kept: "\<And>s'. drawn fb s s' \<Longrightarrow> read_boot_info rq (mem s') = read_boot_info rq (mem s)"
      "\<And>s'. drawn fb s s' \<Longrightarrow> framebuffer_at rq (mem s') 0 = framebuffer_at rq (mem s) 0"
    using ans(2) fb by (auto simp: answers_stable_def Let_def)
  have read: "\<forall>s'. drawn fb s s' \<longrightarrow> read_framebuffer (mem s') ?p = fb"
    using kept first_framebuffer [of rq _ fb fbs] fb by metis
  have a: "?r \<noteq> NULL" "?f \<noteq> NULL" "?p \<noteq> NULL"
    using fb ptr by (auto simp: framebuffers_placed_def read_boot_info_def Let_def split: if_splits)
  have rows: "rows_loop ?p (fb_address fb) 0 s = draw_rows fb 0 s" by (rule rows_loop_agrees [OF a(3) read drawn_refl])
  have p: "read64 ?f 0 s = Some ?p" using a(2) by (simp add: read64_def framebuffer_at_def Let_def)
  have "read_framebuffer (mem s) ?p = fb" using read drawn_refl by blast
  then have q: "member64 struct_limine_framebuffer ''address'' ?p (mem s) = fb_address fb" by (auto simp: read_framebuffer_def)
  show ?thesis
  proof (cases "draw_rows fb 0 s")
    case None
    then show ?thesis using ans(1) a p q rows by (simp add: start_from_memory_def start_memory_def fetch_eval answered_def)
  next
    case (Some t)
    have "read_memmap (mem t) (member64 struct_limine_memmap_request ''response'' (memmap_request_at rq) (mem t)) =
        memmap (read_boot_info rq (mem s))"
      using kept(1) [OF draw_rows_Some [OF Some]] by (simp add: read_boot_info_def)
    then show ?thesis
      using ans(1) a p q rows Some by (simp add: start_from_memory_def start_memory_def fetch_eval answered_def Let_def)
  qed
qed

lemma start_from_memory_agrees:
  fixes s :: "'a kernel_state_scheme"
  assumes "answered rq s" "answers_stable env rq s"
    and "framebuffers (read_boot_info rq (mem s)) = Some (fb # fbs)" "rsdp_address (read_boot_info rq (mem s)) = Some rsdp"
  shows "start_from_memory env rq s = start_kernel env fb (memmap (read_boot_info rq (mem s))) rsdp s"
proof (cases "start_memory env fb (memmap (read_boot_info rq (mem s))) s")
  case None
  then show ?thesis using start_from_memory_splits [OF assms(1-3)] by (simp add: start_kernel_def)
next
  case (Some t)
  have "read_boot_info rq (mem t) = read_boot_info rq (mem s)" using assms(2,3) Some by (auto simp: answers_stable_def Let_def)
  then have "rsdp_address (read_boot_info rq (mem t)) = Some rsdp" using assms(4) by simp
  then have "do { r \<leftarrow> fetch struct_limine_rsdp_request ''response'' (RSDP_request_at rq) t;
      fetch struct_limine_rsdp_response ''address'' r t } = Some rsdp"
    using assms(1) by (auto simp: fetch_eval answered_def read_boot_info_def Let_def split: if_splits)
  then show ?thesis
    using start_from_memory_splits [OF assms(1-3)] Some by (auto simp: start_kernel_def bind_eq_Some_conv)
qed

section \<open>Where the answers are safe\<close>

text \<open>
  The answers are outside the memory that changes while the kernel starts: outside the screen, and
  outside the page tables and free frames.
\<close>

definition answers_kept :: "u64 set \<Rightarrow> u64 \<Rightarrow> nat set \<Rightarrow> framebuffer \<Rightarrow> request_addrs \<Rightarrow> 'a machine_scheme \<Rightarrow> bool" where
  "answers_kept I h F fb rq s \<longleftrightarrow> (\<forall>s' m. drawn fb s s' \<longrightarrow> (\<forall>x. x \<notin> boot_area I h F s' \<longrightarrow> m x = mem s' x) \<longrightarrow>
     read_boot_info rq m = read_boot_info rq (mem s) \<and> framebuffer_at rq m 0 = framebuffer_at rq (mem s) 0 \<and>
     hhdm_answer rq m = hhdm_answer rq (mem s))"

lemma answers_kept_stable:
  fixes s :: "'a kernel_state_scheme"
  assumes kept: "answers_kept I h (usable_frames es) fb rq s" "framebuffers_placed rq (mem s)"
    and info: "framebuffers (read_boot_info rq (mem s)) = Some (fb # fbs)"
      "memmap (read_boot_info rq (mem s)) = Some \<lparr>entry_count = n, entries = Some es\<rparr>"
    and mm: "memmap_ok es" "unat n = length es"
    and bt: "fb_address fb \<noteq> NULL" "\<And>s'. drawn fb s s' \<Longrightarrow> paging_bootable I h (usable_frames es) s'"
    and ap: "PML4_INDEX (apic_base s + h) \<in> I" "apic_base s + h \<noteq> NULL" "apic_low s" "shift32 env 0 32 = Some 0" "3 \<le> card (usable_frames es)"
  shows "answers_stable env rq s"
proof -
  obtain s1 s3 where dr: "drawn fb s s1" and st: "start_memory env fb (memmap (read_boot_info rq (mem s))) s = Some s3"
    and frame: "\<forall>x. x \<notin> boot_area I h (usable_frames es) s1 \<longrightarrow> mem s3 x = mem s1 x"
    using start_memory_correct [OF mm bt ap] info(2) by metis
  have "read_boot_info rq (mem s3) = read_boot_info rq (mem s)" using kept(1) dr frame by (auto simp: answers_kept_def)
  moreover have "read_boot_info rq (mem s') = read_boot_info rq (mem s)" "framebuffer_at rq (mem s') 0 = framebuffer_at rq (mem s) 0"
    if "drawn fb s s'" for s' using kept(1) that by (auto simp: answers_kept_def)
  ultimately show ?thesis using kept(2) info(1) st by (auto simp: answers_stable_def)
qed

text \<open>A guard that fails stops \<open>kmain\<close> in the same call of \<open>hcf\<close>, whatever the rest of the memory holds.\<close>

lemma kmain_from_memory_stops:
  assumes "answered rq s" "kmain env (read_boot_info rq (mem s)) s = Some (c, s')" "c \<noteq> Hcf_done"
  shows "kmain_from_memory env rq s = Some (c, s)" "s' = s"
proof -
  let ?i = "read_boot_info rq (mem s)"
  note g = guards [OF assms(1)]
  have n: "Option.bind f (\<lambda>t. Some (Hcf_done, t)) \<noteq> Some (c, s')" for f :: "'a kernel_state_scheme option"
    using assms(3) by (auto simp: bind_eq_Some_conv)
  show "kmain_from_memory env rq s = Some (c, s)" "s' = s"
    using assms(2) g n
    by (auto simp: kmain_from_memory_def kmain_def LIMINE_BASE_REVISION_SUPPORTED_def split: option.splits list.splits if_splits)
qed

section \<open>A memory with requests and answers\<close>

text \<open>
  The section of the requests in the image with the answers the boot loader fills in, and the
  structures of the answers behind it, one word after the other.
\<close>

fun put_words :: "u64 \<Rightarrow> u64 list \<Rightarrow> memory \<Rightarrow> memory" where
  "put_words a [] m = m"
| "put_words a (w # ws) m = store64 w a (put_words (a + 8) ws m)"

lemma put_words_outside: "8 * length ws < 2 ^ 64 \<Longrightarrow> x \<notin> region a (8 * length ws) \<Longrightarrow> put_words a ws m x = m x"
proof (induction ws arbitrary: a)
  case (Cons w ws)
  have "region (a + 8) (8 * length ws) \<subseteq> region a (8 * length (w # ws))" "region a 8 \<subseteq> region a (8 * length (w # ws))"
    using Cons.prems(1) region_offset [of 8 "8 * length ws" "8 * length (w # ws)" a] region_mono [of 8 "8 * length (w # ws)" a] by simp_all
  then have "x \<notin> region (a + 8) (8 * length ws)" "x \<notin> region a 8" using Cons.prems(2) by blast+
  then show ?case using Cons.IH [of "a + 8"] Cons.prems(1) by (simp add: m64.store_outside)
qed simp

lemma put_words_load: "k < length ws \<Longrightarrow> 8 * length ws < 2 ^ 64 \<Longrightarrow> load64 (a + 8 * of_nat k) (put_words a ws m) = ws ! k"
proof (induction ws arbitrary: a k)
  case (Cons w ws)
  show ?case
  proof (cases k)
    case (Suc j)
    have u: "unat (8 * of_nat k :: u64) = 8 * k"
      using Cons.prems unat_of_nat64 [of "8 * k"] by simp
    have "region a 8 \<inter> region (a + 8 * of_nat k) 8 = {}"
      using region_disjoint_offsets [of 0 8 "8 * of_nat k" 8 a] u Suc Cons.prems by simp
    then have "load64 (a + 8 * of_nat k) (put_words a (w # ws) m) = load64 (a + 8 * of_nat k) (put_words (a + 8) ws m)"
      by (simp add: m64.load_store_apart Int_commute)
    moreover have "a + 8 * of_nat k = a + 8 + 8 * of_nat j" using Suc by (simp add: algebra_simps)
    ultimately show ?thesis using Cons.IH [of j "a + 8"] Cons.prems Suc by (simp add: add.assoc)
  qed (simp add: m64.load_store)
qed simp

definition demo_words :: "u64 list" where
  "demo_words = limine_section[6 := 0, 12 := demo_upper + 8 * 33, 18 := demo_upper + 8 * 47, 24 := demo_upper + 8 * 54, 30 := demo_upper + 8 * 56]
     @ [0, 1, demo_upper + 8 * 36] @ [demo_upper + 8 * 37]
     @ [0xFFFF800000200000, 2, 2, 8, 0, 0, 0, 0, 0, 0]
     @ [0, 1, demo_upper + 8 * 50] @ [demo_upper + 8 * 51] @ [0x100000, 0x8000, 0]
     @ [0, HH] @ [2, RSDP]"

definition demo_requests :: request_addrs where
  "demo_requests = \<lparr>base_revision_at = demo_upper + 8 * 4, framebuffer_request_at = demo_upper + 8 * 7,
     memmap_request_at = demo_upper + 8 * 13, hhdm_request_at = demo_upper + 8 * 19, RSDP_request_at = demo_upper + 8 * 25\<rparr>"

definition demo_loaded :: kernel_state where
  "demo_loaded = demo_kernel\<lparr>mem := put_words demo_upper demo_words demo_madt_mem\<rparr>"

lemma demo_words_length: "length demo_words = 58"
  by (simp add: demo_words_def limine_words)

lemma demo_words_at:
  "demo_words ! 4 = 0xf9562b2d5c95a6c8"
  "demo_words ! 5 = 0x6a7b384944536bdc"
  "demo_words ! 6 = 0"
  "demo_words ! 12 = demo_upper + 8 * 33"
  "demo_words ! 18 = demo_upper + 8 * 47"
  "demo_words ! 24 = demo_upper + 8 * 54"
  "demo_words ! 30 = demo_upper + 8 * 56"
  "demo_words ! 34 = 1"
  "demo_words ! 35 = demo_upper + 8 * 36"
  "demo_words ! 36 = demo_upper + 8 * 37"
  "demo_words ! 37 = 0xFFFF800000200000"
  "demo_words ! 38 = 2"
  "demo_words ! 39 = 2"
  "demo_words ! 40 = 8"
  "demo_words ! 48 = 1"
  "demo_words ! 49 = demo_upper + 8 * 50"
  "demo_words ! 50 = demo_upper + 8 * 51"
  "demo_words ! 51 = 0x100000"
  "demo_words ! 52 = 0x8000"
  "demo_words ! 53 = 0"
  "demo_words ! 55 = HH"
  "demo_words ! 57 = RSDP"
  by (simp_all add: demo_words_def limine_words nth_append)

lemma demo_answers:
  assumes "\<And>k. k < 58 \<Longrightarrow> load64 (demo_upper + 8 * of_nat k) m = demo_words ! k"
  shows "read_boot_info demo_requests m = demo_info" "framebuffer_at demo_requests m 0 = demo_upper + 8 * 37"
    "framebuffers_placed demo_requests m" "hhdm_answer demo_requests m = Some HH"
proof -
  have w: "load64 (demo_upper + 32) m = 0xf9562b2d5c95a6c8"
    "load64 (demo_upper + 40) m = 0x6a7b384944536bdc"
    "load64 (demo_upper + 48) m = 0"
    "load64 (demo_upper + 96) m = demo_upper + 8 * 33"
    "load64 (demo_upper + 144) m = demo_upper + 8 * 47"
    "load64 (demo_upper + 192) m = demo_upper + 8 * 54"
    "load64 (demo_upper + 240) m = demo_upper + 8 * 56"
    "load64 (demo_upper + 272) m = 1"
    "load64 (demo_upper + 280) m = demo_upper + 8 * 36"
    "load64 (demo_upper + 288) m = demo_upper + 8 * 37"
    "load64 (demo_upper + 296) m = 0xFFFF800000200000"
    "load64 (demo_upper + 304) m = 2"
    "load64 (demo_upper + 312) m = 2"
    "load64 (demo_upper + 320) m = 8"
    "load64 (demo_upper + 384) m = 1"
    "load64 (demo_upper + 392) m = demo_upper + 8 * 50"
    "load64 (demo_upper + 400) m = demo_upper + 8 * 51"
    "load64 (demo_upper + 408) m = 0x100000"
    "load64 (demo_upper + 416) m = 0x8000"
    "load64 (demo_upper + 424) m = 0"
    "load64 (demo_upper + 440) m = HH"
    "load64 (demo_upper + 456) m = RSDP"
    using assms [of 4] assms [of 5] assms [of 6] assms [of 12] assms [of 18] assms [of 24] assms [of 30] assms [of 34] assms [of 35] assms [of 36] assms [of 37] assms [of 38] assms [of 39] assms [of 40] assms [of 48] assms [of 49] assms [of 50] assms [of 51] assms [of 52] assms [of 53] assms [of 55] assms [of 57]
    by (simp_all add: demo_words_at)
  note ev = w [unfolded demo_upper_def, simplified] member64_def limine_offsets demo_requests_def demo_upper_def
  have u: "[0..<3] = [0, Suc 0, 2]" by (simp add: upt_rec)
  show "framebuffer_at demo_requests m 0 = demo_upper + 8 * 37" "hhdm_answer demo_requests m = Some HH"
    by (simp_all add: ev framebuffer_at_def hhdm_answer_def)
  show "framebuffers_placed demo_requests m" by (simp add: ev framebuffers_placed_def framebuffer_at_def)
  show "read_boot_info demo_requests m = demo_info"
    by (simp add: ev u read_boot_info_def demo_info_def read_memmap_def read_entry_def read_framebuffer_def framebuffer_at_def
      LIMINE_BASE_REVISION_def demo_screen_def boot_map_def)
qed

lemma demo_loaded_mem: "x < demo_upper \<Longrightarrow> put_words demo_upper demo_words demo_madt_mem x = demo_madt_mem x"
proof -
  assume x: "x < demo_upper"
  have "x \<notin> region demo_upper (8 * length demo_words)"
  proof
    assume "x \<in> region demo_upper (8 * length demo_words)"
    then have "unat demo_upper \<le> unat x" using region_bounds [of x demo_upper "8 * length demo_words"] by (simp add: demo_words_length demo_upper_def)
    then show False using x by (simp add: word_less_nat_alt)
  qed
  then show ?thesis by (simp add: put_words_outside demo_words_length)
qed

lemma demo_loaded_words:
  assumes d: "drawn demo_screen demo_loaded s" and m: "\<forall>x. x \<notin> boot_area {256} HH {256..<264} s \<longrightarrow> m x = mem s x" and k: "k < 58"
  shows "load64 (demo_upper + 8 * of_nat k) m = demo_words ! k"
proof -
  have f: "hhdm s = Some HH" "cr3 s = 0x5018" "\<forall>x. x \<notin> screen demo_screen \<longrightarrow> mem s x = mem demo_loaded x"
    using d by (auto simp: drawn_def demo_loaded_def demo_kernel_def ioapic_state.defs demo_ioapic_def)
  note M = demo_unchanged [OF demo_loaded_mem d [unfolded demo_loaded_def]]
  have e: "entry_at HH (mem s) 0x5000 256 = 0"
    by (simp add: entry_at_def load_eval M) (simp add: demo_madt_mem_def demo_tables_mem_def)
  have u: "unat (demo_upper + 8 * of_nat k) = unat demo_upper + 8 * k"
    using k unat_of_nat64 [of "8 * k"] by (subst unat_add_less) (simp_all add: demo_upper_def)
  have "load64 (demo_upper + 8 * of_nat k) m = load64 (demo_upper + 8 * of_nat k) (mem demo_loaded)"
  proof (rule m64.load_region)
    fix x assume x: "x \<in> region (demo_upper + 8 * of_nat k) 8"
    have ge: "unat demo_upper \<le> unat x" using region_bounds [OF x] u k by (simp add: demo_upper_def)
    then have "x \<notin> boot_area {256} HH {256..<264} s"
      using demo_boot_area [OF _ f(1,2) e, of x] by (auto simp: word_less_nat_alt demo_upper_def)
    moreover have "x \<notin> screen demo_screen"
      using demo_screen_region region_bounds [of x "0xFFFF800000200000" 16] ge by (auto simp: demo_upper_def)
    ultimately show "m x = mem demo_loaded x" using m f(3) by simp
  qed
  then show ?thesis using put_words_load [of k demo_words demo_upper demo_madt_mem] k by (simp add: demo_loaded_def demo_words_length)
qed

lemma demo_loaded_answers:
  "answered demo_requests demo_loaded" "framebuffers_placed demo_requests (mem demo_loaded)"
  "read_boot_info demo_requests (mem demo_loaded) = demo_info" "answers_kept {256} HH {256..<264} demo_screen demo_requests demo_loaded"
proof -
  have w: "load64 (demo_upper + 8 * of_nat k) (mem demo_loaded) = demo_words ! k" if "k < 58" for k
    using demo_loaded_words [OF drawn_refl _ that, of "mem demo_loaded"] by simp
  note a = demo_answers [OF w]
  show "framebuffers_placed demo_requests (mem demo_loaded)" "read_boot_info demo_requests (mem demo_loaded) = demo_info" by (rule a, assumption)+
  have "hhdm demo_loaded = Some HH" by (simp add: demo_loaded_def demo_kernel_def ioapic_state.defs demo_ioapic_def)
  then show "answered demo_requests demo_loaded" using a(4) by (simp add: answered_def demo_requests_def demo_upper_def)
  show "answers_kept {256} HH {256..<264} demo_screen demo_requests demo_loaded"
    unfolding answers_kept_def using demo_answers [OF demo_loaded_words] a by auto
qed

section \<open>Properties\<close>

text \<open>
  C7. \<open>kmain\<close> over memory refines \<open>kmain\<close> over the answers of the boot loader, in every outcome: as long
  as nothing that \<open>kmain\<close> writes before it has read them changes the answers (\<open>answers_stable\<close>), reading
  every member where the code reads it, in the loops again for each pixel, after the page allocator
  has started and after the local controller is mapped, stops at the same guard, ends in the same
  state or is undefined alike as \<open>kmain\<close> on the decoded answers; in particular its loops end.
\<close>

theorem kmain_from_memory_refines:
  fixes s :: "'a kernel_state_scheme"
  assumes "answered rq s" "answers_stable env rq s"
  shows "kmain_from_memory env rq s = kmain env (read_boot_info rq (mem s)) s"
  using start_from_memory_agrees [OF assms] by (intro kmain_guards_agree [OF assms(1)])

text \<open>
  The answers are safe, and the memory-level \<open>kmain\<close> boots, when they are apart from the screen, the page
  tables and the free frames in a machine that can boot.
\<close>

lemma kmain_from_memory_boots:
  fixes s :: "'a kernel_state_scheme"
  assumes "answered rq s" "framebuffers_placed rq (mem s)" "answers_kept I h (usable_frames es) fb rq s"
    and "LIMINE_BASE_REVISION_SUPPORTED (base_revision (read_boot_info rq (mem s)))"
    and "framebuffers (read_boot_info rq (mem s)) = Some (fb # fbs)" "rsdp_address (read_boot_info rq (mem s)) = Some rsdp"
    and "memmap (read_boot_info rq (mem s)) = Some \<lparr>entry_count = n, entries = Some es\<rparr>" "memmap_ok es" "unat n = length es"
    and "bootable I h (usable_frames es) fb rsdp (apic_sign env) madt rs s"
    and "PML4_INDEX (apic_base s + h) \<in> I" "apic_base s + h \<noteq> NULL" "apic_low s" "shift32 env 0 32 = Some 0"
    and "ps = records_of 1 (madt + MADT_SIZE) rs" "ps \<noteq> []" "length ps \<le> 16" "4 * length ps + 3 \<le> card (usable_frames es)"
  shows "answers_stable env rq s" "\<exists>s'. kmain_from_memory env rq s = Some (Hcf_done, s') \<and>
    booted I h env ps s s' \<and> boot_confined I h (usable_frames es) fb s s'"
proof -
  let ?i = "read_boot_info rq (mem s)"
  have b: "fb_address fb \<noteq> NULL" "\<And>s'. drawn fb s s' \<Longrightarrow> paging_bootable I h (usable_frames es) s'" "3 \<le> card (usable_frames es)"
    using assms(10,18) by (simp_all add: bootable_def)
  show st: "answers_stable env rq s" by (rule answers_kept_stable [OF assms(3,2,5,7-9) b(1,2) assms(11-14) b(3)])
  obtain s' where s': "start_kernel env fb (memmap ?i) rsdp s = Some s'" "booted I h env ps s s'"
    "boot_confined I h (usable_frames es) fb s s'"
    using start_kernel_correct [OF assms(8-18)] assms(7) by auto
  have "kmain_from_memory env rq s = kmain env ?i s"
    using start_from_memory_agrees [OF assms(1) st] by (intro kmain_guards_agree [OF assms(1)])
  moreover have "n \<noteq> 0" using assms(9,18) by (auto simp: usable_frames_def)
  moreover have "hhdm s \<noteq> None" using b(2) drawn_refl by (auto simp: paging_bootable_def)
  ultimately show "\<exists>s'. kmain_from_memory env rq s = Some (Hcf_done, s') \<and> booted I h env ps s s' \<and>
      boot_confined I h (usable_frames es) fb s s'"
    using assms(4-7) s' by (simp add: kmain_def)
qed

lemma demo_loaded_boots:
  "answers_stable demo_env demo_requests demo_loaded"
  "\<exists>s'. kmain_from_memory demo_env demo_requests demo_loaded = Some (Hcf_done, s') \<and>
     booted {256} HH demo_env [0xFFFF80000000402C] demo_loaded s' \<and> boot_confined {256} HH {256..<264} demo_screen demo_loaded s'"
proof -
  have b: "apic_base demo_loaded = 0xFEE00000" "apic_low demo_loaded"
    by (simp_all add: apic_base_def apic_low_def demo_loaded_def demo_kernel_def ioapic_state.defs demo_ioapic_def)
  have f: "bootable {256} HH {256..<264} demo_screen RSDP SIGN MADT [(1, 12), (2, 10)] demo_loaded"
    unfolding demo_loaded_def by (rule demo_bootable_with [OF demo_loaded_mem])
  note r = kmain_from_memory_boots [where rq = demo_requests and fb = demo_screen and es = boot_map and n = 1 and I = "{256}" and h = HH
      and env = demo_env and madt = MADT and rs = "[(1, 12), (2, 10)]" and s = demo_loaded and rsdp = RSDP and fbs = "[]"]
  note ev = demo_info_def demo_env_def x86_shl32_zero PML4_INDEX_def boot_map_def LIMINE_BASE_REVISION_SUPPORTED_def LIMINE_BASE_REVISION_def
  show "answers_stable demo_env demo_requests demo_loaded"
    using r(1) demo_loaded_answers boot_map_frames f b by (simp add: ev)
  show "\<exists>s'. kmain_from_memory demo_env demo_requests demo_loaded = Some (Hcf_done, s') \<and>
      booted {256} HH demo_env [0xFFFF80000000402C] demo_loaded s' \<and> boot_confined {256} HH {256..<264} demo_screen demo_loaded s'"
    using r(2) demo_loaded_answers boot_map_frames f b by (simp add: ev)
qed

theorem kmain_from_memory_refines_witness:
  "\<exists>s'. kmain_from_memory demo_env demo_requests demo_loaded = Some (Hcf_done, s') \<and>
     kmain demo_env demo_info demo_loaded = Some (Hcf_done, s') \<and> booted {256} HH demo_env [0xFFFF80000000402C] demo_loaded s'"
  using kmain_from_memory_refines [OF demo_loaded_answers(1) demo_loaded_boots(1)] demo_loaded_boots(2) demo_loaded_answers(3) by auto

end
