(* ===== verification/Kernel_Confinement.thy ===== *)
theory Kernel_Confinement
  imports Kernel_Runs Boot_Memory
begin

text \<open>
  What the running kernel may write: every step of a run changes memory in frames only that are free,
  hold page tables or slab pages, or are owned by clients, and no frame is added to these.  So
  everything else the boot loader left is never written.
\<close>

section \<open>The memory the kernel manages\<close>

text \<open>The frames that are free, hold page tables or slab pages, or are owned by clients.\<close>

definition managed :: "u64 set \<Rightarrow> 'a irq_state_scheme \<Rightarrow> owned \<Rightarrow> nat set" where
  "managed I s own = free_set (buddy s) \<union> table_frames I s \<union> slab_frames s \<union> (\<Union>b\<in>set own. held b)"

definition stays_inside :: "u64 set \<Rightarrow> u64 \<Rightarrow> 'a irq_state_scheme \<Rightarrow> owned \<Rightarrow> 'a irq_state_scheme \<Rightarrow> owned \<Rightarrow> bool" where
  "stays_inside I h s own s' own' \<longleftrightarrow> managed I s' own' \<subseteq> managed I s own \<and>
     (\<forall>x. x \<notin> frame_mem h (managed I s own) \<longrightarrow> mem s' x = mem s x)"

lemma stays_inside_refl: "stays_inside I h s own s own"
  by (simp add: stays_inside_def)

lemma stays_inside_trans:
  assumes "stays_inside I h s own s1 own1" "stays_inside I h s1 own1 s2 own2"
  shows "stays_inside I h s own s2 own2"
  using assms frame_mem_mono [of "managed I s1 own1" "managed I s own" h] unfolding stays_inside_def by (metis subsetD subset_trans)

text \<open>A change of memory in managed frames that are no page tables.\<close>

lemma stays_insideI:
  assumes inv: "kernel_inv I h s live raw" and m: "\<And>x. x \<notin> frame_mem h G \<Longrightarrow> mem s' x = mem s x"
    and G: "G \<subseteq> managed I s (live @ raw)" "G \<inter> table_frames I s = {}"
    and b: "buddy_wf (buddy s')" "free_set (buddy s') \<inter> table_frames I s = {}" and f: "hhdm s' = hhdm s" "cr3 s' = cr3 s"
    and sub: "free_set (buddy s') \<union> slab_frames s' \<union> (\<Union>b\<in>set own'. held b) \<subseteq> managed I s (live @ raw)"
  shows "stays_inside I h s (live @ raw) s' own'"
proof -
  note D = kernel_invD [OF inv]
  have "mem s' x = mem s x" if "x \<in> frame_mem h (table_frames I s)" for x
    using that m frame_mem_apart [OF G(2), of h] by blast
  then have "table_frames I s' = table_frames I s"
    using paging_unchanged(2) [OF D(1,5) _ _ f(2) b] f(1) D(5) by simp
  then show ?thesis using sub m frame_mem_mono [OF G(1), of h] by (auto simp: stays_inside_def managed_def)
qed

lemma stays_inside_same:
  assumes "buddy s' = buddy s" "mem s' = mem s" "hhdm s' = hhdm s" "cr3 s' = cr3 s" "heap_caches s' = heap_caches s"
  shows "stays_inside I h s own s' own"
proof -
  have "table_frames I s' = table_frames I s" using lookup_cong [OF assms(2-4)] by (simp add: table_frames_def)
  then show ?thesis using assms by (simp add: stays_inside_def managed_def slab_frames_def)
qed

lemma vm_step_inside:
  assumes "kernel_inv I h s live raw" "vm_step I s s'"
  shows "stays_inside I h s (live @ raw) s' (live @ raw)"
proof -
  note D = kernel_invD [OF assms(1)]
  have "heap_caches s' = heap_caches s" using assms(2) by (intro apic_fields) (simp add: vm_step_def)
  then have "slab_frames s' = slab_frames s" by (simp add: slab_frames_def)
  then have "managed I s' (live @ raw) \<subseteq> managed I s (live @ raw)" using vm_step_frames [OF D(1) assms(2)] by (auto simp: managed_def)
  moreover have "mem s' x = mem s x" if "x \<notin> frame_mem h (managed I s (live @ raw))" for x
  proof -
    have "x \<notin> vm_area I s"
      using that frame_mem_mono [of "free_set (buddy s) \<union> table_frames I s" "managed I s (live @ raw)" h] vm_area_frames [OF D(1,5)]
      by (auto simp: managed_def)
    then show ?thesis using assms(2) by (simp add: vm_step_def)
  qed
  ultimately show ?thesis by (simp add: stays_inside_def)
qed

section \<open>Each operation\<close>

lemma alloc_inside:
  assumes inv: "kernel_inv I h s live raw" and a: "buddy_alloc_pages n (buddy s) = Some (p, b)" "p \<noteq> BUDDY_INVALID_ADDRESS"
    and s': "buddy s' = b" "hhdm s' = hhdm s" "cr3 s' = cr3 s" "heap_caches s' = heap_caches s"
    and m: "\<And>x. x \<notin> frame_mem h (held (p, n)) \<Longrightarrow> mem s' x = mem s x" and own: "set own = insert (p, n) (set (live @ raw))"
  shows "stays_inside I h s (live @ raw) s' own"
proof -
  note D = kernel_invD [OF inv]
  note f = buddy.alloc_fresh [OF D(4) a]
  have G: "held (p, n) \<subseteq> free_set (buddy s)" "free_set b \<subseteq> free_set (buddy s)" using f by (auto simp: held_def)
  show ?thesis
  proof (rule stays_insideI [OF inv m])
    show "buddy_wf (buddy s')" using buddy.alloc_new(3) [OF D(4) a] s'(1) by simp
    show "held (p, n) \<inter> table_frames I s = {}" "free_set (buddy s') \<inter> table_frames I s = {}" using G D(9) s'(1) by auto
  qed (use G s' own in \<open>auto simp: managed_def slab_frames_def\<close>)
qed

lemma release_inside:
  assumes inv: "kernel_inv I h s live raw" and b: "(p, n) \<in> set (live @ raw)" "buddy_free_pages p n (buddy s) = Some b'"
    and own: "set own \<subseteq> set (live @ raw)"
  shows "stays_inside I h s (live @ raw) (s\<lparr>buddy := b'\<rparr>) own"
proof -
  have f: "free_set b' \<subseteq> free_set (buddy s) \<union> held (p, n)" "buddy_wf b'"
    using release_frames [OF inv b(1)] b(2) by (metis option.inject)+
  have "held (p, n) \<subseteq> managed I s (live @ raw)" using b(1) unfolding managed_def by blast
  then have "free_set b' \<subseteq> managed I s (live @ raw)" using f(1) by (auto simp: managed_def)
  moreover have "(\<Union>b\<in>set own. held b) \<subseteq> managed I s (live @ raw)" using own unfolding managed_def by blast
  moreover have "free_set b' \<inter> table_frames I s = {}" using f(1) kernel_invD(9) [OF inv] kernel_invD(14) [OF inv b(1)] by auto
  ultimately show ?thesis using f(2) by (intro stays_insideI [OF inv, where G = "{}"]) (auto simp: managed_def slab_frames_def)
qed

lemma page_free_inside:
  assumes "kernel_inv I h s live raw" "(p, 1) \<in> set raw" "machine_free_page p s = Some s'"
  shows "stays_inside I h s (live @ raw) s' (live @ remove1 (p, 1) raw)"
proof -
  obtain b' where b': "buddy_free_pages p 1 (buddy s) = Some b'" "s' = s\<lparr>buddy := b'\<rparr>"
    using assms(3) by (auto simp: machine_free_page_def buddy_free_page_def bind_eq_Some_conv)
  have "set (live @ remove1 (p, 1) raw) \<subseteq> set (live @ raw)" using set_remove1_subset by fastforce
  then show ?thesis using release_inside [OF assms(1) _ b'(1)] assms(2) b'(2) by simp
qed

lemma kmalloc_small_inside:
  assumes inv: "kernel_inv I h s live raw" and sz: "unat sz \<le> 2048" "kmalloc sz s = Some (r, s')"
  shows "stays_inside I h s (live @ raw) s' (live @ raw)"
proof (cases "sz = 0")
  case True
  then show ?thesis using sz(2) by (simp add: kmalloc_def stays_inside_refl)
next
  case False
  note D = kernel_invD [OF inv]
  from D(2) False sz(1) show ?thesis
  proof (cases rule: kmalloc_small_cases [case_names same new])
    case same
    then show ?thesis using sz(2) by (simp add: stays_inside_refl)
  next
    case (new c p b m)
    let ?G = "{unat p div 4096}"
    have s': "s' = s\<lparr>buddy := b, mem := m, heap_caches := (heap_caches s)(c := (heap_caches s c)\<lparr>partial_pages := p\<rparr>)\<rparr>"
      using new(2) sz(2) by simp
    have G: "?G \<subseteq> free_set (buddy s)" using new(5) by simp
    have "mem s' x = mem s x" if "x \<notin> frame_mem h ?G" for x
      using that new(10) frame_mem_page [OF new(3), of ?G h] s' by auto
    moreover have "slab_frames s' \<subseteq> insert (unat p div 4096) (slab_frames s)" unfolding s' by (auto simp: slab_frames_def split: if_splits)
    ultimately show ?thesis using G new(6,7) D(9) s' by (intro stays_insideI [OF inv, where G = ?G]) (auto simp: managed_def)
  qed
qed

lemma kmalloc_large_inside:
  assumes inv: "kernel_inv I h s live raw" and sz: "2048 < unat sz" "kmalloc sz s = Some (r, s')"
  shows "if r = NULL then s' = s else stays_inside I h s (live @ raw) s' ((r - h - 8, large_pages sz) # live @ raw)"
proof -
  note D = kernel_invD [OF inv]
  from D(3) sz(1) show ?thesis
  proof (cases rule: kmalloc_large_cases [case_names none new])
    case none
    then show ?thesis using sz(2) by simp
  next
    case (new p b)
    have r: "r = p + h + 8" "s' = s\<lparr>buddy := b, mem := large_header (p + h) (large_pages sz) (mem s)\<rparr>" using new(1) sz(2) by auto
    have "mem s' x = mem s x" if "x \<notin> frame_mem h (held (p, large_pages sz))" for x
      using that large_block_mem(2) [OF large_block_new [OF D(4) new(2,3), of h "mem s"]] large_header_fields(3) [of x "p + h"] r(2) by auto
    then have "stays_inside I h s (live @ raw) s' ((p, large_pages sz) # live @ raw)"
      using r(2) by (intro alloc_inside [OF inv new(2,3)]) simp_all
    then show ?thesis using r(1) new(4) by simp
  qed
qed

lemma vmm_unmap_inside:
  assumes inv: "kernel_inv I h s live raw" and v: "PML4_INDEX v \<in> I" and u: "vmm_unmap v s = Some (ok, s')"
    and p: "\<And>p. lookup s (va_path v) = Some p \<Longrightarrow>
      (p, 1) \<in> set raw \<and> raw' = remove1 (p, 1) raw \<or> raw' = raw \<and> unat p < 2 ^ 44 \<and> unat p div 4096 \<notin> allocated_set (buddy s)"
    and none: "lookup s (va_path v) = None \<Longrightarrow> raw' = raw"
  shows "stays_inside I h s (live @ raw) s' (live @ raw')"
proof (cases "lookup s (va_path v)")
  case None
  then show ?thesis using vmm_unmap_absent [OF kernel_invD(1) [OF inv] v] none u by (simp add: stays_inside_refl)
next
  case (Some f)
  note D = kernel_invD [OF inv]
  obtain s1 where s1: "vm_step I s s1" "buddy s1 = buddy s" "aligned f"
    "vmm_unmap v s = do { s' \<leftarrow> machine_free_page f (invlpg_tlb v s1); Some (True, s') }"
    using vmm_unmap_eval [OF D(1) v Some] by blast
  let ?s1 = "invlpg_tlb v s1"
  have free: "machine_free_page f ?s1 = Some s'" using u unfolding s1(4) by (auto simp: bind_eq_Some_conv)
  have "stays_inside I h s1 (live @ raw) ?s1 (live @ raw)" by (rule stays_inside_same) (simp_all add: invlpg_tlb_def)
  then have st: "stays_inside I h s (live @ raw) ?s1 (live @ raw)" using stays_inside_trans [OF vm_step_inside [OF inv s1(1)]] by blast
  have i1: "kernel_inv I h ?s1 live raw" using vm_step_inv(1) [OF inv s1(1)] by (simp add: invlpg_inv)
  from p [OF Some] show ?thesis
  proof
    assume "(f, 1) \<in> set raw \<and> raw' = remove1 (f, 1) raw"
    then show ?thesis using stays_inside_trans [OF st page_free_inside [OF i1 _ free]] by simp
  next
    assume a: "raw' = raw \<and> unat f < 2 ^ 44 \<and> unat f div 4096 \<notin> allocated_set (buddy s)"
    then have "buddy_free_page f (buddy s) = Some (buddy s)" using free_page_any [OF D(4) s1(3)] by auto
    then have "s' = ?s1\<lparr>buddy := buddy s\<rparr>" using free s1(2) by (simp add: machine_free_page_def invlpg_tlb_def)
    then have "stays_inside I h ?s1 (live @ raw) s' (live @ raw)" using s1(2) by (intro stays_inside_same) (simp_all add: invlpg_tlb_def)
    then show ?thesis using stays_inside_trans [OF st] a by simp
  qed
qed

section \<open>Runs\<close>

lemma step_inside:
  "kernel_step I h t u \<Longrightarrow> kernel_inv I h (fst t) (fst (snd t)) (snd (snd t)) \<Longrightarrow>
    stays_inside I h (fst t) (fst (snd t) @ snd (snd t)) (fst u) (fst (snd u) @ snd (snd u))"
proof (induction rule: kernel_step.induct)
  case (alloc_ok sz s p s' live raw)
  then have inv: "kernel_inv I h s live raw" by simp
  have "2048 < unat sz"
    using kmalloc_small_inv [OF inv, of sz] alloc_ok(1,2) by (metis linorder_not_less option.inject prod.inject)
  then show ?case using kmalloc_large_inside [OF inv _ alloc_ok(1)] alloc_ok(2) by simp
next
  case (alloc_fail sz s s' live raw)
  then show ?case
    using kmalloc_small_inside [of I h s live raw sz NULL s'] kmalloc_large_inside [of I h s live raw sz NULL s'] stays_inside_refl
    by (cases "unat sz \<le> 2048") auto
next
  case (free_live p n live s s' raw)
  then have inv: "kernel_inv I h s live raw" by simp
  obtain b' where b': "buddy_free_pages p n (buddy s) = Some b'" "s' = s\<lparr>buddy := b'\<rparr>"
    using free_live(2) unfolding kfree_live [OF inv free_live(1)] by (auto simp: machine_free_pages_def bind_eq_Some_conv)
  have "set (remove1 (p, n) live @ raw) \<subseteq> set (live @ raw)" using set_remove1_subset by fastforce
  then show ?case using release_inside [OF inv live_owned(1) [OF free_live(1)] b'(1)] b'(2) by simp
next
  case (page_alloc_ok s p s' live raw)
  then obtain b where "buddy_alloc_pages 1 (buddy s) = Some (p, b)" "s' = s\<lparr>buddy := b\<rparr>"
    by (auto simp: machine_alloc_page_def buddy_alloc_page_def bind_eq_Some_conv)
  then show ?case using alloc_inside [of I h s live raw 1 p b s'] page_alloc_ok by auto
next
  case (page_alloc_fail s s' live raw)
  then have "s' = s" using page_alloc_inv [of I h s live raw] by auto
  then show ?case by (simp add: stays_inside_refl)
next
  case (page_free p raw s s' live)
  then show ?case using page_free_inside [of I h s live raw] by simp
next
  case (map_page v q f s ok s' live raw)
  then have inv: "kernel_inv I h s live raw" by simp
  from kernel_invD(1) [OF inv] map_page(1) show ?case
  proof (cases rule: vmm_map_cases [where p = q and f = f, case_names fail mapped])
    case (fail s1)
    then show ?thesis using vm_step_inside [OF inv fail(2)] map_page(2) by simp
  next
    case (mapped s1)
    have "stays_inside I h s1 (live @ raw) (invlpg_tlb v s1) (live @ raw)" by (rule stays_inside_same) (simp_all add: invlpg_tlb_def)
    then show ?thesis using stays_inside_trans [OF vm_step_inside [OF inv mapped(2)]] mapped(1) map_page(2) by simp
  qed
next
  case (unmap_owned v s p raw ok s' live)
  then show ?case using vmm_unmap_inside [of I h s live raw v ok s' "remove1 (p, 1) raw"] by simp
next
  case (unmap_other v s ok s' live raw)
  then show ?case using vmm_unmap_inside [of I h s live raw v ok s' raw] by simp
next
  case (interrupt Reg s s' live raw)
  then have "g_virt_apic s \<noteq> NULL" by (simp add: kernel_inv_def)
  from interrupt_handler_eq [OF this, of Reg] interrupt(1) show ?case by (auto intro!: stays_inside_same)
next
  case (client_store x live raw s v)
  then have inv: "kernel_inv I h s live raw" by simp
  obtain b where b: "b \<in> set (live @ raw)" "x \<in> frame_mem h (held b)" using owned_data_block [OF inv client_store(1)] by blast
  have "held b \<subseteq> managed I s (live @ raw)" using b(1) unfolding managed_def by blast
  then have "stays_inside I h s (live @ raw) (s\<lparr>mem := (mem s)(x := v)\<rparr>) (live @ raw)"
    using b(2) kernel_invD(4,9) [OF inv] kernel_invD(14) [OF inv b(1)]
    by (intro stays_insideI [OF inv, where G = "held b"]) (auto simp: managed_def slab_frames_def)
  then show ?case by simp
qed

lemma reach_inside:
  "kernel_reach I h t0 t \<Longrightarrow> kernel_inv I h (fst t0) (fst (snd t0)) (snd (snd t0)) \<Longrightarrow>
    stays_inside I h (fst t0) (fst (snd t0) @ snd (snd t0)) (fst t) (fst (snd t) @ snd (snd t))"
proof (induction rule: kernel_reach.induct)
  case start
  then show ?case by (simp add: stays_inside_refl)
next
  case (step t u)
  have "kernel_inv I h (fst t) (fst (snd t)) (snd (snd t))" by (rule kernel_inv_reach [OF step(1,4)])
  then show ?case using stays_inside_trans [OF step(3) [OF step(4)] step_inside [OF step(2)]] by blast
qed


lemma booted_managed:
  assumes "booted I h env ps s0 s1"
  shows "frame_mem h (managed I s1 []) = vm_area I s1"
proof -
  have "slab_frames s1 = {}" using assms by (auto simp: booted_def slab_frames_def)
  then show ?thesis using vm_area_frames [of I s1 h] kernel_invD(1,5) [OF booted_inv [OF assms]] by (simp add: managed_def)
qed

text \<open>
  From the boot loader on: nothing but the screen, and then the page tables of the boot loader and the
  usable frames of the memory map, is ever written.
\<close>

lemma run_confined:
  fixes s1 s :: "'a kernel_state_scheme"
  assumes "booted I h env ps s0 s1" "boot_confined I h F fb s0 s1" "kernel_reach I h (s1, [], []) (s, live, raw)"
  obtains s' where "drawn fb s0 s'" "\<And>x. x \<notin> boot_area I h F s' \<Longrightarrow> mem s x = mem s' x"
proof -
  obtain s' where s': "drawn fb s0 s'" "vm_area I s1 \<subseteq> boot_area I h F s'" "\<forall>x. x \<notin> boot_area I h F s' \<longrightarrow> mem s1 x = mem s' x"
    using assms(2) by (auto simp: boot_confined_def)
  have "stays_inside I h s1 [] s (live @ raw)" using reach_inside [OF assms(3)] booted_inv [OF assms(1)] by simp
  then have "mem s x = mem s' x" if "x \<notin> boot_area I h F s'" for x
    using that s'(2,3) booted_managed [OF assms(1)] by (auto simp: stays_inside_def)
  then show thesis using that s'(1) by blast
qed

section \<open>Properties\<close>

text \<open>
  C3. The running kernel writes only memory that was given to it.  In every state that a run reaches
  from the state \<open>kmain\<close> leaves, whatever services are called in whatever order, no byte outside the
  screen, the boot loader's page tables and the usable frames differs from what the boot loader
  left.  So the structures of its answers are still there, the offset of the direct map that the code
  reads from \<open>hhdm_request.response\<close> on each conversion is the one of the model's state, and \<open>findTable\<close>
  still finds the interrupt table with the same records.
\<close>

theorem kernel_run_confined:
  fixes s0 s1 s :: "'a kernel_state_scheme"
  assumes "booted I h env ps s0 s1" "boot_confined I h F fb s0 s1" "kernel_reach I h (s1, [], []) (s, live, raw)"
    and "bootable I h F fb rsdp sign madt rs s0" "answered rq s0" "answers_kept I h F fb rq s0"
  shows "(\<exists>s'. drawn fb s0 s' \<and> (\<forall>x. x \<notin> boot_area I h F s' \<longrightarrow> mem s x = mem s' x)) \<and>
    read_boot_info rq (mem s) = read_boot_info rq (mem s0) \<and> answered rq s \<and>
    findTable rsdp sign s = Some madt \<and> madt_holds madt rs s"
proof -
  obtain s' where s': "drawn fb s0 s'" "\<And>x. x \<notin> boot_area I h F s' \<Longrightarrow> mem s x = mem s' x"
    using run_confined [OF assms(1-3)] by blast
  have kept: "read_boot_info rq (mem s) = read_boot_info rq (mem s0)" "hhdm_answer rq (mem s) = hhdm_answer rq (mem s0)"
    using assms(6) s' by (auto simp: answers_kept_def)
  have inv: "kernel_inv I h s live raw" using kernel_inv_reach [OF assms(3)] booted_inv [OF assms(1)] by simp
  have b: "paging_bootable I h F s'" "firmware_ok I h F rsdp sign madt rs s'" "paging_bootable I h F s0"
    using assms(4) s'(1) drawn_refl by (auto simp: bootable_def)
  have h: "hhdm s = Some h" "hhdm s' = Some h" "hhdm s0 = Some h" using kernel_inv_hhdm [OF inv] b by (auto simp: paging_bootable_def)
  then have "answered rq s" using assms(5) kept(2) by (simp add: answered_def)
  moreover have "findTable rsdp sign s = Some madt" "madt_holds madt rs s"
    using firmware_ok_after [OF b(2), of s] h s'(2) by simp_all
  ultimately show ?thesis using s' kept(1) by blast
qed

theorem kernel_run_confined_witness:
  "\<exists>s1 r s. start_kernel demo_env demo_screen (memmap demo_info) RSDP demo_loaded = Some s1 \<and> kmalloc 5000 s1 = Some (r, s) \<and>
     answered demo_requests s \<and> read_boot_info demo_requests (mem s) = demo_info \<and> findTable RSDP SIGN s = Some MADT"
proof -
  have f: "bootable {256} HH {256..<264} demo_screen RSDP SIGN MADT [(1, 12), (2, 10)] demo_loaded"
    unfolding demo_loaded_def by (rule demo_bootable_with [OF demo_loaded_mem])
  have b: "apic_base demo_loaded = 0xFEE00000" "apic_low demo_loaded"
    by (simp_all add: apic_base_def apic_low_def demo_loaded_def demo_kernel_def ioapic_state.defs demo_ioapic_def)
  obtain s1 where s1: "start_kernel demo_env demo_screen (memmap demo_info) RSDP demo_loaded = Some s1"
    "booted {256} HH demo_env [0xFFFF80000000402C] demo_loaded s1" "boot_confined {256} HH {256..<264} demo_screen demo_loaded s1"
    using start_kernel_correct [where fb = demo_screen and es = boot_map and n = 1 and I = "{256}" and h = HH
      and env = demo_env and madt = MADT and rs = "[(1, 12), (2, 10)]" and s = demo_loaded and rsdp = RSDP]
      boot_map_frames f b by (auto simp: demo_info_def demo_env_def x86_shl32_zero PML4_INDEX_def boot_map_def)
  obtain r s where s: "kmalloc 5000 s1 = Some (r, s)" "r = NULL \<or> (\<exists>p. r = p + HH + 8 \<and> r \<noteq> NULL)"
    using kmalloc_inv [OF booted_inv [OF s1(2)], of 5000] by blast
  obtain live where "kernel_reach {256} HH (s1, [], []) (s, live, [])"
    using s kernel_reach.step [OF kernel_reach.start kernel_step.alloc_fail [of 5000 s1 s]]
      kernel_reach.step [OF kernel_reach.start kernel_step.alloc_ok [of 5000 s1 _ HH s]] by blast
  from kernel_run_confined [OF s1(2,3) this f demo_loaded_answers(1,4)]
  have "answered demo_requests s" "read_boot_info demo_requests (mem s) = demo_info" "findTable RSDP SIGN s = Some MADT"
    using demo_loaded_answers(3) by simp_all
  then show ?thesis using s1(1) s(1) by blast
qed

end
