(* ===== verification/Spec2Isabelle.thy ===== *)
theory Spec2Isabelle
  imports Buddy_Properties Mem_Functions VMM_Refinement Heap_Properties Descriptor_Tables Port_Devices
    Interrupts IOAPIC_Properties Boot Kernel_Runs Segment_Reload Interrupt_Entry Kernel_Interrupts Processor_Id Firmware_Structures
    Boot_Memory Kernel_Confinement
begin

text \<open>
  Yoix is a small x86-64 kernel started by the Limine boot loader; all its code, C and some assembly, is under
  \<open>src/kernel/src\<close>.  This development models that code function by function and proves what each
  component promises, from the page allocator up to the entry point \<open>kmain\<close>.

  \<^bold>\<open>The parts of the kernel and how they interact.\<close>  \<open>kmain\<close> (\<open>main.c\<close>) checks the answers of the boot loader,
  draws a pattern, and brings up the components in order: the segment and interrupt descriptor
  tables (\<open>memory/gdt.c\<close>, \<open>system/interrupt/idt.c\<close>), the physical page allocator (\<open>memory/buddy.c\<close>), the
  heap (\<open>memory/heap.c\<close>), the local interrupt controller (\<open>system/interrupt/APIC/apic.c\<close>), the firmware
  tables (\<open>drivers/ACPI/acpi.c\<close>) and the I/O interrupt controllers (\<open>drivers/interrupt/APIC/ioapic.c\<close>).  The
  paging code (\<open>memory/vmm.c\<close>) takes frames for its tables from the page allocator; the heap takes its
  pages there; both interrupt controller drivers map their registers with the paging code; the
  I/O controllers are found through the firmware tables.  An interrupt goes through the installed
  gate and an assembly stub (\<open>system/interrupt/asm/idt.asm\<close>) to \<open>interrupt_handler\<close>, which counts ticks and
  acknowledges at the local controller.

  \<^bold>\<open>Conventions.\<close>  (\<open>Yoix_Prelude\<close>)  C integers are words of their width, so that wrap-around is the
  arithmetic of the model; pointers are 64-bit words and \<open>NULL\<close> is 0.  A function whose C code can
  leave the defined part of the language returns an \<open>option\<close>, and \<open>None\<close> is undefined behaviour: an
  access outside an array (\<open>arr_get\<close>, \<open>arr_set\<close>), through a null pointer, a division by zero, an
  oversized shift, a signed overflow.  Error values of the code itself (\<open>NULL\<close>, \<open>false\<close>, -1,
  \<open>BUDDY_INVALID_ADDRESS\<close>) are ordinary results.  So \<open>f x = Some y\<close> states that the call returns \<open>y\<close>
  without undefined behaviour.  Loops are total functions with a termination proof, and no fuel is used.  Loops
  that depend on memory they also write are \<open>partial_function\<close>s, for which \<open>None\<close> also stands for not
  returning: in the heap the search for a page in a slab list (\<open>remove_slab_loop\<close>, shown to end on
  every list in \<open>Heap_Lists\<close>) and the chaining of objects (\<open>chain_loop\<close>, shown to end in \<open>Heap_Slab\<close>), in \<open>kmain\<close> the loops over the screen (\<open>row_loop\<close>,
  \<open>rows_loop\<close>, shown to end in \<open>Boot_Memory\<close> when the screen does not cover its own description).

  \<^bold>\<open>State.\<close>  Memory (\<open>Byte_Memory\<close>) is a function from addresses to bytes, with little-endian accesses as
  instances of the locale \<open>mem_access\<close>.  Global variables are fields of a record, extended from
  component to component so that each function runs on any extension of the state it needs:
  \<open>buddy_state\<close> (the four static arrays of \<open>buddy.c\<close>) is a field of \<open>machine\<close> (memory, direct-map offset,
  \<open>cr3\<close>, flushed addresses; \<open>Machine\<close>), which is extended by \<open>heap_state\<close> (\<open>heap_caches\<close>), \<open>apic_state\<close>
  (model-specific registers, \<open>g_virt_apic\<close>, stores to device registers), \<open>irq_state\<close> (\<open>tick\<close>),
  \<open>ioapic_state\<close> (the arrays of \<open>ioapic.c\<close>) and \<open>kernel_state\<close> (the descriptor tables).  Memory-mapped
  registers are a history of stores, ports a history of accesses; what a device answers is an
  argument, a function of that history.

  \<^bold>\<open>Theories.\<close>

    \<^item> Page allocator, \<open>memory/buddy.c\<close>: \<open>Buddy_Model\<close> has every function; \<open>Free_List\<close> the doubly linked lists in
      arrays; \<open>Buddy_Invariant\<close> the representation invariant \<open>buddy_inv\<close> (free lists, block heads, page
      states) and its preservation by the primitives; \<open>Buddy_Alloc\<close>, \<open>Buddy_Free\<close>, \<open>Buddy_Init\<close>, \<open>Buddy_Coalesce\<close>
      the operations; \<open>Page_Allocator\<close> the contract as the locales \<open>page_allocator\<close> and \<open>block_allocator\<close>;
      \<open>Buddy_API\<close> their interpretation and the step relation of a client; \<open>Buddy_Properties\<close> the
      properties: fresh and disjoint blocks, completeness, coalescing, round trips, initialisation
      from the memory map, errors.
    \<^item> Memory functions of \<open>main.c\<close>: \<open>Mem_Functions\<close>, with overlap in \<open>memmove\<close>.
    \<^item> Paging, \<open>memory/vmm.c\<close>: \<open>VMM_Model\<close> has every function; \<open>Page_Tables\<close> walks, the tree invariant
      \<open>paging_ok\<close> and the memory the code may change; \<open>VMM\<close> the public operations; \<open>Address_Space\<close> the
      contract as a locale with the paging code as its interpretation; \<open>VMM_Properties\<close> and
      \<open>VMM_Refinement\<close> the properties, among them the refinement of a finite map from pages to frames.
    \<^item> Heap, \<open>memory/heap.c\<close>: \<open>Heap_Model\<close> has every function; \<open>Heap_Slab\<close> slab pages in memory; \<open>Heap\<close> and
      \<open>Heap_Properties\<close> large blocks, their release, and that small requests are never served; \<open>Heap_Lists\<close>
      the lists of slab pages as a refinement of lists.
    \<^item> Descriptor tables, \<open>memory/gdt.c\<close>, \<open>gdt.h\<close>, \<open>tss.h\<close>, \<open>system/interrupt/idt.c\<close>: \<open>Descriptor_Tables\<close>, where the
      processor's reading of a descriptor is the reference; \<open>Segment_Reload\<close> has the two assembly routines
      of \<open>memory/asm/gdt.asm\<close> instruction by instruction and shows that they load the registers the C
      model takes them to load.
    \<^item> Port devices, \<open>PIC/pic.c\<close>, \<open>irq/pit.c\<close>, \<open>cpu/io.h\<close>: \<open>Port_Devices\<close>, against the controllers' own state
      machine (initialisation words, mask, vectors), to which the bus hands wide accesses byte by byte.
    \<^item> Local interrupt controller and processor registers, \<open>APIC/apic.c\<close>, \<open>cpu/msr.c\<close>, \<open>cpu/cpuid.c\<close>:
      \<open>Local_APIC\<close>; the names, masks and requests of \<open>cpu/cpuid.h\<close>: \<open>Processor_Id\<close>.
    \<^item> Interrupts: dispatch in \<open>idt.c\<close> is \<open>Interrupts\<close>, over any sequence of interrupts.  \<open>Interrupt_Stubs\<close> has the
      stubs of \<open>system/interrupt/asm/idt.asm\<close> as lists of instructions on the processor's registers and byte
      memory, with delivery and \<open>iretq\<close> as the processor does them; \<open>Interrupt_Entry\<close> follows an interrupt
      from the gate to the return: device interrupts are transparent but for three segment registers,
      exceptions are reported with a complete register frame.
    \<^item> Firmware tables, \<open>ACPI/acpi.c\<close>, \<open>acpi.h\<close>: \<open>ACPI\<close>; I/O controllers, \<open>APIC/ioapic.c\<close>, \<open>ioapic.h\<close>, \<open>ACPI/madt.h\<close>:
      \<open>IOAPIC_Model\<close>, \<open>IOAPIC\<close> (with the locale \<open>register_window\<close> for the index and data registers and their read-only bits) and
      \<open>IOAPIC_Properties\<close>.  \<open>Firmware_Structures\<close> has every other structure of the firmware headers (also
      \<open>srat.h\<close>, \<open>mcfg.h\<close>, \<open>waet.h\<close>) as a packed layout, all of them instances of the locale \<open>packed_struct\<close>, and
      compares them with the offsets and sizes of the ACPI specification.
    \<^item> Structures in memory: \<open>Struct_Access\<close> has loads and stores of members and their contract, the locale
      \<open>struct_access\<close>, with packed layouts and the layouts of C (\<open>C_Types\<close>: sizes, alignments, offsets; the
      locale \<open>c_struct\<close>) as sublocales.  \<open>Limine_Structures\<close> has all identifications and structures of
      \<open>boot/limine.h\<close> for x86-64, and compares them with a table of their offsets and sizes.
    \<^item> Entry point, \<open>kmain\<close> in \<open>main.c\<close>: \<open>Boot\<close>, where the components are composed, on the requests to the boot
      loader in \<open>Boot_Protocol\<close>.  There the answers are values; \<open>Boot_Memory\<close> has \<open>kmain\<close> once more, on the
      bytes of the requests and answers, and shows that it refines the first.
    \<^item> The running kernel: \<open>Kernel_Invariant\<close> says that page tables, slab pages, blocks and pages of clients are
      in different frames, and that each service keeps this; \<open>Kernel_Runs\<close> has a step relation for heap
      requests, releases, single pages, mappings, their removal, interrupts and stores in any order, and
      shows that every run is safe and keeps what clients wrote; \<open>Kernel_Confinement\<close> that it never writes
      outside the memory it was given, so that the answers of the boot loader, and the offset of the direct
      map that the code reads there each time, stay what they were; \<open>Kernel_Interrupts\<close> puts interrupts with
      their stubs between any two steps.

  \<^bold>\<open>Hypotheses.\<close>  \<open>memmap_ok\<close>: entries of the memory map do not wrap around and usable ones do not overlap, as
  the boot protocol promises.  \<open>hhdm_ok\<close>: the first GiB of physical memory has direct-map addresses
  that do not wrap around.  \<open>paging_ok I\<close>: below the top-level slots in \<open>I\<close> the page tables form a tree
  apart from the free frames, where the frame behind every present entry of an upper level counts as a
  table, as it does in the code: this excludes large pages over usable memory.  It is an invariant of the paging code and asked of the boot loader's tables in
  \<open>paging_bootable\<close>, although the boot protocol does not promise that it maps no large pages.
  \<open>apic_low\<close> and \<open>shift32 env 0 32 = Some 0\<close>: the registers of the local controller are below 4 GiB, and the
  shift by 32 of \<open>apic.c\<close>, undefined in C, gives 0 for 0, as the instruction of the processor does
  (\<open>x86_shl32\<close>); both are needed for \<open>enable_apic\<close> and what rests on it, \<open>kmain_boots\<close>.  \<open>madt_holds\<close>: the interrupt table consists of the records given.
  \<open>firmware_ok\<close>, \<open>bootable\<close>: firmware tables, page tables, free frames and screen are apart.
  \<open>answers_stable\<close>: what \<open>kmain\<close> writes before it has read the answers does not change them.
  \<open>answered\<close>, \<open>framebuffers_placed\<close>, \<open>answers_kept\<close>: the requests and answers are in memory, behind pointers that
  are not null, and apart from the screen, the page tables and the free frames.
  \<open>sysv_callee d\<close>: the compiled \<open>interrupt_handler\<close> keeps the calling convention and uses at most \<open>d\<close> bytes of
  stack; the compiler's output is not part of the sources.  Each
  property with hypotheses is applied to a concrete machine in its witness.

  \<^bold>\<open>Where the code does not do what it means to.\<close>  Proved as properties or lemmas: small \<open>kmalloc\<close> requests
  never succeed (\<open>kmalloc_small_never_served\<close>), large ones may wrap around (\<open>kmalloc_overflow\<close>), a block at
  address 0 cannot be released (\<open>buddy_frame_zero_leaks\<close>), frame numbers are truncated before they are
  checked (\<open>buddy_free_aliases\<close>), the user segments are swapped (\<open>initGdt_user_segments_swapped\<close>), the base
  address of the local controller needs an undefined shift (\<open>enable_apic_undefined\<close>), an interrupt before
  \<open>enable_apic\<close> is acknowledged through a null base (\<open>irq_before_enable\<close>), \<open>Get_APICID\<close> is always 0
  (\<open>Get_APICID_zero\<close>), short root tables underflow (\<open>entries_count_underflow\<close>), a missing interrupt table is
  read through \<open>NULL\<close> (\<open>init_IOAPIC_null\<close>), large pages are taken for tables (\<open>vmm_map_large_page\<close>), a
  timer frequency of 0 divides by zero (\<open>init_pit_divisor\<close>), two exceptions with an error code have stubs for
  exceptions without (\<open>exception_21_29_shifted\<close>), an interrupt overwrites \<open>es\<close>, \<open>fs\<close> and \<open>gs\<close>
  (\<open>returned_eq_iff\<close>), \<open>loadRedir\<close> programs the first controller for the interrupts of any
  (\<open>loadRedir_other_controller\<close>), the handler is called on a misaligned stack
  (\<open>handler_stack_misaligned\<close>), the vendor string comes out with two parts exchanged (\<open>cpuid_string_vendor\<close>),
  \<open>get_model\<close> is no model (\<open>get_model_vendor\<close>), and one record of \<open>madt.h\<close> is two bytes too long
  (\<open>IOAPIC_NMI_size\<close>).

  \<^bold>\<open>Not modelled.\<close>  The linker script, the build files and the image tools, which decide addresses (arguments of
  the model) and run no kernel code; of \<open>boot/limine.h\<close> the variants for other processors,
  which are not compiled, and the numeric constants of features that the kernel does not ask for; the macro \<open>KASSERT\<close>, which
  nothing calls; the tests that \<open>kmain\<close> has commented out.  Code that is running is interrupted between the
  steps of the model, not inside a C function.  The processor's translation of the addresses the kernel
  itself uses is not part of the memory model: accesses through the direct map are taken to reach the
  physical memory they name.  Global variables and the stack of C functions are not in the memory
  either, but fields of the state and arguments; the stack of interrupts is.
\<close>

end
